(* ===== verification/Prelude.thy ===== *)
theory Prelude
  imports Main "HOL-Library.Word" "HOL-Library.Sublist" "HOL-Library.AList"
begin

text \<open>
  Shared vocabulary of the development: the widths and units of the Go code, the value of
  a call that may fail, named collections of rewrite rules, and the generic lemmas on maps,
  association lists and multisets that several components use.

  A Go \<open>string\<close> is a sequence of bytes and \<^typ>\<open>char\<close> is exactly a byte, so a Go
  string is a \<^typ>\<open>string\<close> and \<open>length\<close> counts what Go's \<open>len\<close> counts.
  A \<open>time.Duration\<close> and a Unix time stamp are numbers of nanoseconds.
\<close>

section \<open>Types\<close>

type_synonym u8 = "8 word"
type_synonym u16 = "16 word"
type_synonym u32 = "32 word"
type_synonym u64 = "64 word"
type_synonym i64 = "64 word" \<comment> \<open>Go's \<open>int64\<close>: read with \<open>sint\<close>\<close>
type_synonym duration = int \<comment> \<open>nanoseconds\<close>
type_synonym nanos = int \<comment> \<open>nanoseconds since the Unix epoch\<close>

definition nanosecond :: duration where "nanosecond = 1"
definition millisecond :: duration where "millisecond = 1000000"
definition second :: duration where "second = 1000000000"
definition minute :: duration where "minute = 60000000000"
definition hour :: duration where "hour = 3600000000000"

named_theorems unit_defs \<open>the values of the time units\<close>

declare nanosecond_def [unit_defs] millisecond_def [unit_defs] second_def [unit_defs]
  minute_def [unit_defs] hour_def [unit_defs]

section \<open>Maps and association lists\<close>

lemma map_of_distinct_mem:
  "distinct (map fst xs) \<Longrightarrow> map_of xs k = Some v \<longleftrightarrow> (k, v) \<in> set xs"
  by (auto dest: map_of_SomeD)

lemma map_of_update: "map_of (AList.update k v al) = (map_of al)(k \<mapsto> v)"
  by (simp add: update_conv')

lemma distinct_keys_update:
  "distinct (map fst al) \<Longrightarrow> distinct (map fst (AList.update k v al))"
  by (rule distinct_update)

lemma set_alist_update: "set (AList.update k v t) \<subseteq> insert (k, v) (set t)"
  by (induction t) auto

section \<open>Operations that keep a cache\<close>

text \<open>Run a stateful operation over a list of arguments, left to right.\<close>

fun map_state :: "('k \<Rightarrow> 's \<Rightarrow> 'v \<times> 's) \<Rightarrow> 'k list \<Rightarrow> 's \<Rightarrow> 'v list \<times> 's" where
  "map_state f [] s = ([], s)"
| "map_state f (k # ks) s =
     (let (v, s1) = f k s; (vs, s2) = map_state f ks s1 in (v # vs, s2))"

text \<open>
  The contract of a memoised function: from a state that satisfies the invariant, a call
  returns what the function computes and leaves such a state. A client may then reason as
  if nothing were cached.
\<close>

locale memo =
  fixes get :: "'k \<Rightarrow> 's \<Rightarrow> 'v \<times> 's"
    and inv :: "'s \<Rightarrow> bool"
    and val :: "'k \<Rightarrow> 'v"
  assumes get_val: "inv s \<Longrightarrow> fst (get k s) = val k"
    and get_inv: "inv s \<Longrightarrow> inv (snd (get k s))"
begin

lemma get_eq: "inv s \<Longrightarrow> get k s = (val k, snd (get k s))"
  using get_val by (simp add: prod_eq_iff)

lemma map_state_spec:
  "inv s \<Longrightarrow> fst (map_state get ks s) = map val ks \<and> inv (snd (map_state get ks s))"
proof (induction ks arbitrary: s)
  case (Cons k ks)
  from Cons.prems have "inv (snd (get k s))" by (rule get_inv)
  with Cons.IH [OF this] get_val [OF Cons.prems] show ?case
    by (simp add: case_prod_beta Let_def)
qed simp

lemma get_twice: "inv s \<Longrightarrow> fst (get k (snd (get j s))) = val k"
  by (simp add: get_val get_inv)

end

end
