(* ===== verification/GoStrings.thy ===== *)
theory GoStrings
  imports Prelude
begin

text \<open>
  The part of Go's \<open>strings\<close>, \<open>strconv\<close> and \<open>bufio\<close> packages that the program
  calls, on byte strings: \<open>TrimSpace\<close>, \<open>Split\<close>, \<open>Fields\<close>, \<open>Contains\<close>,
  \<open>HasPrefix\<close>, \<open>HasSuffix\<close>, \<open>Index\<close>, \<open>LastIndex\<close>, \<open>Atoi\<close>, \<open>Itoa\<close> and the
  line scanner, with the laws the components use: trimming is idempotent, splitting is
  undone by joining, and decimal printing is undone by \<open>Atoi\<close>.
\<close>

section \<open>Bytes\<close>

definition byte :: "char \<Rightarrow> nat" where
  "byte c = of_char c"

definition is_digit :: "char \<Rightarrow> bool" where
  "is_digit c \<longleftrightarrow> 48 \<le> byte c \<and> byte c \<le> 57"

definition is_lower_hex :: "char \<Rightarrow> bool" where
  "is_lower_hex c \<longleftrightarrow> 97 \<le> byte c \<and> byte c \<le> 102"

definition is_upper_hex :: "char \<Rightarrow> bool" where
  "is_upper_hex c \<longleftrightarrow> 65 \<le> byte c \<and> byte c \<le> 70"

named_theorems byte_defs \<open>the byte classes, unfolded\<close>

declare byte_def [byte_defs] is_digit_def [byte_defs] is_lower_hex_def [byte_defs]
  is_upper_hex_def [byte_defs]

lemma byte_lt [simp]: "byte c < 256"
  by (simp add: byte_def)

lemma byte_char_of [simp]: "byte (char_of n) = n mod 256"
  by (simp add: byte_def)

lemma char_of_byte [simp]: "char_of (byte c) = c"
  by (simp add: byte_def)

lemma byte_inject [simp]: "byte c = byte d \<longleftrightarrow> c = d"
  by (simp add: byte_def)

section \<open>Prefixes, suffixes, occurrences\<close>

definition has_prefix :: "string \<Rightarrow> string \<Rightarrow> bool" where
  "has_prefix s p \<longleftrightarrow> prefix p s"

definition has_suffix :: "string \<Rightarrow> string \<Rightarrow> bool" where
  "has_suffix s p \<longleftrightarrow> suffix p s"

fun str_contains :: "string \<Rightarrow> string \<Rightarrow> bool" where
  "str_contains [] sub \<longleftrightarrow> sub = []"
| "str_contains (c # s) sub \<longleftrightarrow> prefix sub (c # s) \<or> str_contains s sub"

lemma str_contains_sublist: "str_contains s sub \<longleftrightarrow> sublist sub s"
  by (induction s) (auto simp: sublist_Cons_right)

lemma str_contains_char [simp]: "str_contains s [c] \<longleftrightarrow> c \<in> set s"
  by (induction s) auto

fun index_of :: "char \<Rightarrow> string \<Rightarrow> nat option" where
  "index_of c [] = None"
| "index_of c (x # xs) = (if x = c then Some 0 else map_option Suc (index_of c xs))"

fun last_index :: "char \<Rightarrow> string \<Rightarrow> nat option" where
  "last_index c [] = None"
| "last_index c (x # xs) =
     (case last_index c xs of
        Some i \<Rightarrow> Some (Suc i)
      | None \<Rightarrow> if x = c then Some 0 else None)"

lemma index_of_None [simp]: "index_of c s = None \<longleftrightarrow> c \<notin> set s"
  by (induction s) auto

lemma last_index_None [simp]: "last_index c s = None \<longleftrightarrow> c \<notin> set s"
  by (induction s) (auto split: option.splits)

lemma index_of_Some:
  "index_of c s = Some i \<Longrightarrow> i < length s \<and> s ! i = c \<and> c \<notin> set (take i s)"
  by (induction s arbitrary: i) (auto split: if_splits)

lemma last_index_append:
  "c \<notin> set t \<Longrightarrow> last_index c (s @ c # t) = Some (length s)"
proof (induction s)
  case Nil
  then show ?case by (cases "last_index c t") (auto simp: last_index_None [symmetric]
        simp del: last_index_None)
qed auto

lemma index_of_append: "c \<notin> set s \<Longrightarrow> index_of c (s @ c # t) = Some (length s)"
  by (induction s) auto

section \<open>Trimming white space\<close>

text \<open>The UTF-8 encodings of the code points for which \<open>unicode.IsSpace\<close> holds.\<close>

definition space_runes :: "string list" where
  "space_runes = map (map char_of)
     ([[9], [10], [11], [12], [13], [32], [194, 133], [194, 160], [225, 154, 128],
       [226, 128, 128], [226, 128, 129], [226, 128, 130], [226, 128, 131], [226, 128, 132],
       [226, 128, 133], [226, 128, 134], [226, 128, 135], [226, 128, 136], [226, 128, 137],
       [226, 128, 138], [226, 128, 168], [226, 128, 169], [226, 128, 175], [226, 129, 159],
       [227, 128, 128]] :: nat list list)"

function strip_front :: "string list \<Rightarrow> string \<Rightarrow> string" where
  "strip_front ps s =
     (case find (\<lambda>p. p \<noteq> [] \<and> prefix p s) ps of
        None \<Rightarrow> s
      | Some p \<Rightarrow> strip_front ps (drop (length p) s))"
  by pat_completeness auto
termination
proof (relation "measure (\<lambda>(ps, s). length s)")
  fix ps :: "string list" and s p :: string
  assume "find (\<lambda>p. p \<noteq> [] \<and> prefix p s) ps = Some p"
  then have "p \<noteq> []" and "prefix p s"
    by (auto simp: find_Some_iff)
  then show "((ps, drop (length p) s), (ps, s)) \<in> measure (\<lambda>(ps, s). length s)"
    by (auto simp: prefix_def)
qed simp

declare strip_front.simps [simp del]

definition trim_left :: "string \<Rightarrow> string" where
  "trim_left s = strip_front space_runes s"

definition trim_right :: "string \<Rightarrow> string" where
  "trim_right s = rev (strip_front (map rev space_runes) (rev s))"

definition trim_space :: "string \<Rightarrow> string" where
  "trim_space s = trim_right (trim_left s)"

definition starts_with_any :: "string list \<Rightarrow> string \<Rightarrow> bool" where
  "starts_with_any ps s \<longleftrightarrow> (\<exists>p \<in> set ps. p \<noteq> [] \<and> prefix p s)"

lemma find_starts:
  "find (\<lambda>p. p \<noteq> [] \<and> prefix p s) ps = None \<longleftrightarrow> \<not> starts_with_any ps s"
  by (auto simp: find_None_iff starts_with_any_def)

lemma strip_front_stop: "\<not> starts_with_any ps s \<Longrightarrow> strip_front ps s = s"
  by (subst strip_front.simps) (simp add: find_starts [THEN iffD2])

lemma strip_front_result: "\<not> starts_with_any ps (strip_front ps s)"
proof (induction ps s rule: strip_front.induct)
  case (1 ps s)
  show ?case
  proof (cases "find (\<lambda>p. p \<noteq> [] \<and> prefix p s) ps")
    case None
    then show ?thesis
      using strip_front_stop find_starts by metis
  next
    case (Some p)
    with 1 have "\<not> starts_with_any ps (strip_front ps (drop (length p) s))"
      by blast
    with Some show ?thesis
      by (subst strip_front.simps) simp
  qed
qed

lemma strip_front_suffix: "suffix (strip_front ps s) s"
proof (induction ps s rule: strip_front.induct)
  case (1 ps s)
  show ?case
  proof (cases "find (\<lambda>p. p \<noteq> [] \<and> prefix p s) ps")
    case None
    then show ?thesis by (subst strip_front.simps) simp
  next
    case (Some p)
    with 1 have "suffix (strip_front ps (drop (length p) s)) (drop (length p) s)"
      by blast
    then have "suffix (strip_front ps (drop (length p) s)) s"
      using suffix_drop suffix_order.trans by blast
    with Some show ?thesis by (subst strip_front.simps) simp
  qed
qed

lemma trim_right_prefix: "prefix (trim_right s) s"
  using strip_front_suffix [of "map rev space_runes" "rev s"]
  by (simp add: trim_right_def suffix_to_prefix)

lemma trim_space_length: "length (trim_space s) \<le> length s"
proof -
  have "length (trim_left s) \<le> length s"
    unfolding trim_left_def using strip_front_suffix suffix_length_le by blast
  moreover have "length (trim_right (trim_left s)) \<le> length (trim_left s)"
    using trim_right_prefix prefix_length_le by blast
  ultimately show ?thesis by (simp add: trim_space_def)
qed

lemma trim_space_no_leading: "\<not> starts_with_any space_runes (trim_space s)"
proof -
  have "\<not> starts_with_any space_runes (trim_left s)"
    by (simp add: trim_left_def strip_front_result)
  moreover have "prefix (trim_space s) (trim_left s)"
    by (simp add: trim_space_def trim_right_prefix)
  ultimately show ?thesis
    unfolding starts_with_any_def by (meson prefix_order.trans)
qed

lemma trim_space_idem: "trim_space (trim_space s) = trim_space s"
proof -
  have "trim_left (trim_space s) = trim_space s"
    unfolding trim_left_def by (rule strip_front_stop [OF trim_space_no_leading])
  moreover have "trim_right (trim_space s) = trim_space s"
    by (simp add: trim_space_def trim_right_def strip_front_stop strip_front_result)
  ultimately show ?thesis
    by (metis trim_space_def)
qed

text \<open>A byte that occurs in the encoding of no white space is never trimmed.\<close>

definition plain_byte :: "char \<Rightarrow> bool" where
  "plain_byte c \<longleftrightarrow> (\<forall>p \<in> set space_runes. c \<notin> set p)"

lemma plain_byte_ascii:
  assumes "byte c < 128" "byte c \<noteq> 9" "byte c \<noteq> 10" "byte c \<noteq> 11" "byte c \<noteq> 12"
    "byte c \<noteq> 13" "byte c \<noteq> 32"
  shows "plain_byte c"
  using assms unfolding plain_byte_def space_runes_def by (auto simp: byte_def)

lemma starts_with_plain: "plain_byte c \<Longrightarrow> \<not> starts_with_any space_runes (c # t)"
  by (auto simp: starts_with_any_def plain_byte_def prefix_Cons)

lemma trim_space_plain_edges:
  assumes "s \<noteq> [] \<Longrightarrow> plain_byte (hd s)" and "s \<noteq> [] \<Longrightarrow> plain_byte (last s)"
  shows "trim_space s = s"
proof -
  have "\<not> starts_with_any space_runes s"
    using assms(1) by (auto simp: starts_with_any_def plain_byte_def prefix_def)
      (metis append_is_Nil_conv hd_append2 hd_in_set)
  then have left: "trim_left s = s"
    unfolding trim_left_def by (rule strip_front_stop)
  have "\<not> starts_with_any (map rev space_runes) (rev s)"
  proof
    assume "starts_with_any (map rev space_runes) (rev s)"
    then obtain p where p: "p \<in> set space_runes" "p \<noteq> []" "prefix (rev p) (rev s)"
      by (auto simp: starts_with_any_def)
    then obtain q where s: "s = q @ p"
      by (metis suffix_def suffix_to_prefix)
    with p(2) have "last s = last p" "s \<noteq> []" by auto
    with p assms(2) show False
      by (metis last_in_set plain_byte_def)
  qed
  then have "trim_right s = s"
    by (simp add: trim_right_def strip_front_stop)
  with left show ?thesis by (simp add: trim_space_def)
qed

lemma trim_space_plain: "(\<And>c. c \<in> set s \<Longrightarrow> plain_byte c) \<Longrightarrow> trim_space s = s"
  by (rule trim_space_plain_edges) auto

section \<open>Splitting and joining\<close>

text \<open>\<open>strings.Split(s, sep)\<close> for a separator that is not empty.\<close>

fun split_str :: "string \<Rightarrow> string \<Rightarrow> string list" where
  "split_str sep [] = [[]]"
| "split_str sep (c # s) =
     (if sep \<noteq> [] \<and> prefix sep (c # s) then [] # split_str sep (drop (length sep - 1) s)
      else (case split_str sep s of [] \<Rightarrow> [[c]] | p # ps \<Rightarrow> (c # p) # ps))"

fun join_str :: "string \<Rightarrow> string list \<Rightarrow> string" where
  "join_str sep [] = []"
| "join_str sep [p] = p"
| "join_str sep (p # q # ps) = p @ sep @ join_str sep (q # ps)"

lemma split_str_nonempty [simp]: "split_str sep s \<noteq> []"
  by (cases s) (auto split: list.splits)

lemma split_str_length_pos: "0 < length (split_str sep s)"
  by simp

lemma join_str_Cons: "ps \<noteq> [] \<Longrightarrow> join_str sep (p # ps) = p @ sep @ join_str sep ps"
  by (cases ps) auto

lemma join_split: "join_str sep (split_str sep s) = s"
proof (induction sep s rule: split_str.induct)
  case (2 sep c s)
  show ?case
  proof (cases "sep \<noteq> [] \<and> prefix sep (c # s)")
    case True
    then obtain t where t: "c # s = sep @ t" by (auto simp: prefix_def)
    with True have "drop (length sep - 1) s = t"
      by (cases sep) auto
    with True 2(1) have "join_str sep (split_str sep (c # s)) = sep @ t"
      by (simp add: join_str_Cons)
    with t show ?thesis by simp
  next
    case False
    with 2(2) show ?thesis
      by (cases "split_str sep s"; cases "tl (split_str sep s)") (auto simp: join_str_Cons)
  qed
qed simp

lemma split_char_Cons:
  "split_str [d] (c # s) =
     (if c = d then [] # split_str [d] s
      else (c # hd (split_str [d] s)) # tl (split_str [d] s))"
  by (cases "split_str [d] s") auto

lemma split_char_pieces: "p \<in> set (split_str [d] s) \<Longrightarrow> d \<notin> set p"
proof (induction s arbitrary: p)
  case (Cons c s)
  then show ?case
    by (cases "split_str [d] s") (auto simp: split_char_Cons split: if_splits)
qed simp

lemma join_str_set: "p \<in> set ps \<Longrightarrow> set p \<subseteq> set (join_str sep ps)"
proof (induction ps)
  case (Cons q ps)
  then show ?case by (cases "ps = []") (auto simp: join_str_Cons)
qed simp

lemma split_str_set: "p \<in> set (split_str sep s) \<Longrightarrow> set p \<subseteq> set s"
  using join_str_set [of p "split_str sep s" sep] by (simp add: join_split)

lemma split_char_none: "d \<notin> set s \<Longrightarrow> split_str [d] s = [s]"
  by (induction s) (auto simp: split_char_Cons)

lemma split_char_append:
  "d \<notin> set p \<Longrightarrow> split_str [d] (p @ d # s) = p # split_str [d] s"
  by (induction p) (auto simp: split_char_Cons)

lemma split_join:
  "ps \<noteq> [] \<Longrightarrow> (\<And>p. p \<in> set ps \<Longrightarrow> d \<notin> set p) \<Longrightarrow> split_str [d] (join_str [d] ps) = ps"
proof (induction ps rule: induct_list012)
  case (3 p q ps)
  then show ?case by (simp add: split_char_append)
qed (auto simp: split_char_none)

text \<open>\<open>strings.Fields\<close>: the maximal runs of bytes between white space.\<close>

definition space_len :: "string \<Rightarrow> nat" where
  "space_len s =
     (case find (\<lambda>p. p \<noteq> [] \<and> prefix p s) space_runes of None \<Rightarrow> 0 | Some p \<Rightarrow> length p)"

lemma space_len_plain: "plain_byte c \<Longrightarrow> space_len (c # s) = 0"
  using starts_with_plain [of c s] find_starts [of "c # s" space_runes] by (simp add: space_len_def)

lemma space_len_blank: "space_len (CHR '' '' # s) = 1"
proof -
  have "char_of (32 :: nat) = CHR '' ''" "char_of (9 :: nat) = CHR 0x09" "char_of (10 :: nat) = CHR 0x0A"
    "char_of (11 :: nat) = CHR 0x0B" "char_of (12 :: nat) = CHR 0x0C" "char_of (13 :: nat) = CHR 0x0D"
    by code_simp+
  then show ?thesis
    by (simp add: space_len_def space_runes_def)
qed

lemma newline_char: "char_of (10 :: nat) = CHR 0x0A"
  by code_simp

fun str_fields_aux :: "string \<Rightarrow> string \<Rightarrow> string list" where
  "str_fields_aux w [] = (if w = [] then [] else [w])"
| "str_fields_aux w (c # s) =
     (if space_len (c # s) = 0 then str_fields_aux (w @ [c]) s
      else (if w = [] then [] else [w]) @ str_fields_aux [] (drop (space_len (c # s) - 1) s))"

definition str_fields :: "string \<Rightarrow> string list" where
  "str_fields s = str_fields_aux [] s"

lemma fields_aux_nonempty: "f \<in> set (str_fields_aux w s) \<Longrightarrow> f \<noteq> []"
  by (induction w s rule: str_fields_aux.induct) (auto split: if_splits)

section \<open>Decimal numbers\<close>

fun digits_val :: "nat \<Rightarrow> string \<Rightarrow> nat option" where
  "digits_val acc [] = Some acc"
| "digits_val acc (c # cs) =
     (if is_digit c then digits_val (acc * 10 + (byte c - 48)) cs else None)"

fun sign_split :: "string \<Rightarrow> bool \<times> string" where
  "sign_split [] = (False, [])"
| "sign_split (c # cs) =
     (if c = CHR ''-'' then (True, cs) else if c = CHR ''+'' then (False, cs)
      else (False, c # cs))"

text \<open>\<open>strconv.Atoi\<close> on a 64-bit platform; \<open>None\<close> is the syntax or range error.\<close>

definition atoi :: "string \<Rightarrow> int option" where
  "atoi s = (let (neg, r) = sign_split s in
     if r = [] then None
     else case digits_val 0 r of
       None \<Rightarrow> None
     | Some n \<Rightarrow>
         if neg then (if n \<le> 2 ^ 63 then Some (- int n) else None)
         else (if n < 2 ^ 63 then Some (int n) else None))"

fun nat_dec :: "nat \<Rightarrow> string" where
  "nat_dec n =
     (if n < 10 then [char_of (48 + n)] else nat_dec (n div 10) @ [char_of (48 + n mod 10)])"

declare nat_dec.simps [simp del]

text \<open>\<open>strconv.Itoa\<close>; \<open>nat_dec\<close> is \<open>strconv.FormatUint(n, 10)\<close>.\<close>

definition itoa :: "int \<Rightarrow> string" where
  "itoa z = (if z < 0 then CHR ''-'' # nat_dec (nat (- z)) else nat_dec (nat z))"

lemma digits_val_append:
  "digits_val acc (s @ t) = Option.bind (digits_val acc s) (\<lambda>a. digits_val a t)"
  by (induction acc s rule: digits_val.induct) auto

lemma digits_val_digit:
  "d < 10 \<Longrightarrow> digits_val acc [char_of (48 + d)] = Some (acc * 10 + d)"
  by (simp add: is_digit_def)

lemma nat_dec_nonempty [simp]: "nat_dec n \<noteq> []"
  by (subst nat_dec.simps) simp

lemma nat_dec_digits: "c \<in> set (nat_dec n) \<Longrightarrow> is_digit c"
proof (induction n rule: nat_dec.induct)
  case (1 n)
  show ?case
  proof (cases "n < 10")
    case True
    with "1.prems" show ?thesis by (simp add: nat_dec.simps [of n] is_digit_def)
  next
    case False
    with "1.prems" consider "c \<in> set (nat_dec (n div 10))" | "c = char_of (48 + n mod 10)"
      by (auto simp: nat_dec.simps [of n])
    then show ?thesis
    proof cases
      case 1
      with False "1.IH" show ?thesis by blast
    next
      case 2
      have "n mod 10 < 10" by simp
      with 2 show ?thesis by (simp add: is_digit_def)
    qed
  qed
qed

lemma digits_val_nat_dec: "digits_val 0 (nat_dec n) = Some n"
proof (induction n rule: nat_dec.induct)
  case (1 n)
  show ?case
  proof (cases "n < 10")
    case True
    then show ?thesis by (simp add: nat_dec.simps [of n] is_digit_def)
  next
    case False
    with 1 have "digits_val 0 (nat_dec (n div 10)) = Some (n div 10)" by blast
    with False show ?thesis
      by (simp add: nat_dec.simps [of n] digits_val_append digits_val_digit del: digits_val.simps)
  qed
qed

lemma nat_dec_inject [simp]: "nat_dec m = nat_dec n \<longleftrightarrow> m = n"
  by (metis digits_val_nat_dec option.inject)

lemma sign_split_digit: "s \<noteq> [] \<Longrightarrow> is_digit (hd s) \<Longrightarrow> sign_split s = (False, s)"
  by (cases s) (auto simp: is_digit_def byte_def)

lemma sign_split_nat_dec [simp]: "sign_split (nat_dec n) = (False, nat_dec n)"
  by (rule sign_split_digit) (auto intro: nat_dec_digits [of _ n] hd_in_set)

lemma atoi_itoa:
  assumes "- (2 ^ 63) \<le> z" and "z < 2 ^ 63"
  shows "atoi (itoa z) = Some z"
proof (cases "z < 0")
  case True
  with assms(1) have "nat (- z) \<le> 2 ^ 63" by simp
  with True show ?thesis
    by (simp add: atoi_def itoa_def digits_val_nat_dec)
next
  case False
  with assms(2) have "nat z < 2 ^ 63" by simp
  with False show ?thesis
    by (simp add: atoi_def itoa_def digits_val_nat_dec)
qed

lemma plain_byte_digit: "is_digit c \<Longrightarrow> plain_byte c"
  by (rule plain_byte_ascii) (auto simp: is_digit_def)

lemma trim_space_itoa [simp]: "trim_space (itoa z) = itoa z"
proof (rule trim_space_plain)
  fix c assume "c \<in> set (itoa z)"
  then consider "c = CHR ''-''" | "is_digit c"
    by (auto simp: itoa_def split: if_splits dest: nat_dec_digits)
  then show "plain_byte c"
  proof cases
    case 1
    then show ?thesis by (intro plain_byte_ascii) (auto simp: byte_def)
  qed (rule plain_byte_digit)
qed

lemma itoa_nonempty [simp]: "itoa z \<noteq> []"
  by (simp add: itoa_def)

section \<open>The line scanner\<close>

text \<open>
  \<open>bufio.Scanner\<close> with \<open>ScanLines\<close> and its default buffer: a line is what stands before
  a newline, less one trailing carriage return; a last line without a newline counts when
  it is not empty. A line that does not fit the 64 KiB buffer ends the scan with
  \<open>bufio.ErrTooLong\<close>: the lines before it have been delivered. The second component tells
  whether that happened.
\<close>

definition max_token_size :: nat where
  "max_token_size = 65536"

definition drop_cr :: "string \<Rightarrow> string" where
  "drop_cr l = (if l \<noteq> [] \<and> byte (last l) = 13 then butlast l else l)"

fun scan_pieces :: "string list \<Rightarrow> string list \<times> bool" where
  "scan_pieces [] = ([], False)"
| "scan_pieces [l] =
     (if l = [] then ([], False)
      else if max_token_size \<le> length l then ([], True) else ([drop_cr l], False))"
| "scan_pieces (l # m # ls) =
     (if max_token_size \<le> length l then ([], True)
      else (let (rest, long) = scan_pieces (m # ls) in (drop_cr l # rest, long)))"

definition scan_lines :: "string \<Rightarrow> string list \<times> bool" where
  "scan_lines s = scan_pieces (split_str [char_of (10 :: nat)] s)"

end
