(* ===== verification/GoTime.thy ===== *)
theory GoTime
  imports Complex_Main GoStrings
begin

text \<open>
  \<open>time.ParseDuration\<close> of Go's standard library, which reads every duration of the
  configuration, and the rounding of a positive number to the nearest \<open>float64\<close>, which
  \<open>ParseDuration\<close> uses for fractions and the metrics use for gauge values.
\<close>

section \<open>Rounding to float64\<close>

text \<open>
  A \<open>float64\<close> has 53 significant bits and rounds to the nearest value, ties to even. The
  numbers rounded here are between \<open>1e-19\<close> and \<open>2^64\<close>, far from the smallest and
  largest exponents.
\<close>

fun bit_len :: "nat \<Rightarrow> nat" where
  "bit_len n = (if n = 0 then 0 else Suc (bit_len (n div 2)))"

declare bit_len.simps [simp del]

definition pow2 :: "int \<Rightarrow> rat" where
  "pow2 k = (if 0 \<le> k then 2 ^ nat k else 1 / 2 ^ nat (- k))"

definition f64_exponent :: "rat \<Rightarrow> int" where
  "f64_exponent x =
     (let (n, d) = quotient_of x; a = int (bit_len (nat n)) - int (bit_len (nat d))
      in if pow2 a \<le> x then a else a - 1)"

definition round_even :: "rat \<Rightarrow> int" where
  "round_even x =
     (let f = \<lfloor>x\<rfloor>; r = x - of_int f
      in if r < 1 / 2 then f else if 1 / 2 < r then f + 1 else if even f then f else f + 1)"

definition f64_round :: "rat \<Rightarrow> rat" where
  "f64_round x =
     (if x \<le> 0 then 0
      else let u = pow2 (f64_exponent x - 52) in of_int (round_even (x / u)) * u)"

definition f64_of_nat :: "nat \<Rightarrow> rat" where
  "f64_of_nat n = f64_round (of_nat n)"

lemma round_even_of_int [simp]: "round_even (of_int z) = z"
  by (simp add: round_even_def Let_def)

lemma bit_len_le: "n < 2 ^ k \<Longrightarrow> bit_len n \<le> k"
proof (induction n arbitrary: k rule: bit_len.induct)
  case (1 n)
  show ?case
  proof (cases "n = 0")
    case True
    then show ?thesis by (simp add: bit_len.simps)
  next
    case False
    with "1.prems" obtain j where j: "k = Suc j" by (cases k) auto
    with "1.prems" have "n div 2 < 2 ^ j" by simp
    with 1 False j show ?thesis by (simp add: bit_len.simps [of n])
  qed
qed

text \<open>A count below \<open>2^53\<close> is represented exactly.\<close>

lemma f64_of_nat_exact:
  assumes "n < 2 ^ 53"
  shows "f64_of_nat n = of_nat n"
proof (cases "n = 0")
  case True
  then show ?thesis by (simp add: f64_of_nat_def f64_round_def)
next
  case False
  define k where "k = f64_exponent (of_nat n)"
  have "quotient_of (of_nat n) = (int n, 1)"
    using quotient_of_int [of "int n"] by simp
  moreover have "bit_len 1 = 1" by (simp add: bit_len.simps)
  ultimately have "k \<le> int (bit_len n) - 1"
    by (simp add: k_def f64_exponent_def Let_def)
  with bit_len_le [OF assms] have "k \<le> 52" by linarith
  then obtain m where u: "pow2 (k - 52) = 1 / 2 ^ m"
    by (cases "k = 52") (auto simp: pow2_def intro: that [of 0])
  have "rat_of_nat n / pow2 (k - 52) = rat_of_int (int (n * 2 ^ m))"
    by (simp add: u)
  then have "round_even (rat_of_nat n / pow2 (k - 52)) = int (n * 2 ^ m)"
    using round_even_of_int by metis
  with False show ?thesis
    by (simp add: f64_of_nat_def f64_round_def k_def [symmetric] u Let_def)
qed

section \<open>ParseDuration\<close>

text \<open>\<open>leadingInt\<close>: the digits at the front, \<open>None\<close> when they pass \<open>2^63\<close>.\<close>

fun leading_int :: "nat \<Rightarrow> string \<Rightarrow> (nat \<times> string) option" where
  "leading_int x [] = Some (x, [])"
| "leading_int x (c # s) =
     (if \<not> is_digit c then Some (x, c # s)
      else if 2 ^ 63 div 10 < x then None
      else let y = x * 10 + (byte c - 48)
        in if 2 ^ 63 < y then None else leading_int y s)"

text \<open>
  \<open>leadingFraction\<close>: digits past the precision of 63 bits are read and ignored. The
  scale is the power of ten that belongs to the digits kept.
\<close>

fun leading_fraction :: "nat \<Rightarrow> nat \<Rightarrow> bool \<Rightarrow> string \<Rightarrow> nat \<times> nat \<times> string" where
  "leading_fraction x scale over [] = (x, scale, [])"
| "leading_fraction x scale over (c # s) =
     (if \<not> is_digit c then (x, scale, c # s)
      else if over then leading_fraction x scale True s
      else if (2 ^ 63 - 1) div 10 < x then leading_fraction x scale True s
      else let y = x * 10 + (byte c - 48)
        in if 2 ^ 63 < y then leading_fraction x scale True s
           else leading_fraction y (scale * 10) False s)"

definition micro_sign :: string where
  "micro_sign = [char_of (194 :: nat), char_of (181 :: nat), CHR ''s'']"

definition greek_mu :: string where
  "greek_mu = [char_of (206 :: nat), char_of (188 :: nat), CHR ''s'']"

definition unit_map :: "string \<rightharpoonup> nat" where
  "unit_map = map_of
     [(''ns'', 1), (''us'', 1000), (micro_sign, 1000), (greek_mu, 1000),
      (''ms'', 1000000), (''s'', 1000000000), (''m'', 60000000000), (''h'', 3600000000000)]"

definition unit_char :: "char \<Rightarrow> bool" where
  "unit_char c \<longleftrightarrow> c \<noteq> CHR ''.'' \<and> \<not> is_digit c"

lemma leading_int_length: "leading_int x s = Some (y, r) \<Longrightarrow> length r \<le> length s"
  by (induction x s rule: leading_int.induct) (auto simp: Let_def split: if_splits)

lemma leading_fraction_length: "leading_fraction x k b s = (y, k', r) \<Longrightarrow> length r \<le> length s"
proof (induction x k b s rule: leading_fraction.induct)
  case (2 x scale over c s)
  then have "length r \<le> length s \<or> r = c # s"
    by (auto simp: Let_def split: if_splits)
  then show ?case by auto
qed auto

text \<open>
  The optional fraction after the integer part: its digits as a number, their scale, the
  rest, and whether a digit was read.
\<close>

definition fraction_part :: "string \<Rightarrow> nat \<times> nat \<times> string \<times> bool" where
  "fraction_part s =
     (if s \<noteq> [] \<and> hd s = CHR ''.''
      then (let (f, scale, r) = leading_fraction 0 1 False (tl s)
            in (f, scale, r, length r \<noteq> length (tl s)))
      else (0, 1, s, False))"

text \<open>
  One number with its unit, taken off the front: its value in nanoseconds and the rest.
\<close>

definition item_value :: "nat \<Rightarrow> nat \<Rightarrow> nat \<Rightarrow> nat \<Rightarrow> nat option" where
  "item_value v f scale ns =
     (if 2 ^ 63 div ns < v then None
      else let w = v * ns + (if f = 0 then 0 else
             nat \<lfloor>f64_round (f64_round (of_nat f) * f64_round (of_nat ns / of_nat scale))\<rfloor>)
        in if 2 ^ 63 < w then None else Some w)"

definition duration_item :: "string \<Rightarrow> (nat \<times> string) option" where
  "duration_item s =
     (if \<not> (hd s = CHR ''.'' \<or> is_digit (hd s)) then None
      else case leading_int 0 s of
        None \<Rightarrow> None
      | Some (v, s1) \<Rightarrow>
          (case fraction_part s1 of
             (f, scale, s2, post) \<Rightarrow>
               if length s1 = length s \<and> \<not> post then None
               else if takeWhile unit_char s2 = [] then None
               else case unit_map (takeWhile unit_char s2) of
                 None \<Rightarrow> None
               | Some ns \<Rightarrow>
                   map_option (\<lambda>w. (w, dropWhile unit_char s2)) (item_value v f scale ns)))"

lemma fraction_part_length: "fraction_part s = (f, scale, r, post) \<Longrightarrow> length r \<le> length s"
  by (cases s) (auto simp: fraction_part_def split: if_splits prod.splits
      dest!: leading_fraction_length)

lemma dropWhile_shorter: "takeWhile p t \<noteq> [] \<Longrightarrow> length (dropWhile p t) < length t"
  by (metis length_append length_greater_0_conv less_add_same_cancel2 takeWhile_dropWhile_id)

lemma duration_item_length: "duration_item s = Some (w, r) \<Longrightarrow> length r < length s"
  unfolding duration_item_def
  by (auto split: if_splits option.splits prod.splits
      dest!: leading_int_length fraction_part_length dropWhile_shorter)

function duration_loop :: "nat \<Rightarrow> string \<Rightarrow> nat option" where
  "duration_loop d s =
     (if s = [] then Some d
      else case duration_item s of
        None \<Rightarrow> None
      | Some (v, r) \<Rightarrow>
          let d' = (d + v) mod 2 ^ 64
          in if 2 ^ 63 < d' then None else duration_loop d' r)"
  by pat_completeness auto
termination
  by (relation "measure (\<lambda>(d, s). length s)") (auto dest: duration_item_length)

declare duration_loop.simps [simp del]

definition parse_duration :: "string \<Rightarrow> duration option" where
  "parse_duration s =
     (let (neg, r) = sign_split s
      in if r = ''0'' then Some 0
         else if r = [] then None
         else case duration_loop 0 r of
           None \<Rightarrow> None
         | Some d \<Rightarrow>
             if neg then Some (- int d)
             else if 2 ^ 63 - 1 < d then None
             else Some (int d))"

text \<open>\<open>time.NewTicker\<close> panics for an interval that is not positive.\<close>

datatype ticker_panic = NonPositiveInterval duration

definition NewTicker :: "duration \<Rightarrow> ticker_panic + duration" where
  "NewTicker d = (if d \<le> 0 then Inl (NonPositiveInterval d) else Inr d)"

text \<open>A parsed duration fits \<open>int64\<close>.\<close>

lemma duration_loop_bound: "duration_loop d s = Some r \<Longrightarrow> d \<le> 2 ^ 63 \<Longrightarrow> r \<le> 2 ^ 63"
proof (induction d s rule: duration_loop.induct)
  case (1 d s)
  from 1 show ?case
    by (auto simp: duration_loop.simps [of d s] Let_def not_less
        split: if_splits option.splits prod.splits)
qed

lemma parse_duration_bounds:
  "parse_duration s = Some d \<Longrightarrow> - (2 ^ 63) \<le> d \<and> d < 2 ^ 63"
  by (auto simp: parse_duration_def Let_def split: if_splits option.splits prod.splits
      dest!: duration_loop_bound)

end
