(* ===== verification/Env.thy ===== *)
theory Env
  imports GoTime
begin

text \<open>
  The cached environment lookups of \<open>util/util.go\<close>: \<open>GetEnvDuration\<close>, \<open>GetEnvInt\<close>,
  \<open>GetEnvString\<close>, \<open>GetEnvBool\<close>, \<open>GetEnvStringSlice\<close> and \<open>ClearEnvCaches\<close>. The
  state is the caches of the file (the fourth, of normalised MAC addresses, is used by
  theory \<open>MacAddr\<close>); the process environment is a function that gives the empty string
  for a variable that is not set, as \<open>os.Getenv\<close> does.

  The lemmas show that a lookup stores what it returns, that a second lookup returns the
  stored value whatever default it passes, that a lookup touches no other key, and that
  \<open>GetEnvStringSlice\<close> is the split at commas with empty pieces dropped.
\<close>

section \<open>State\<close>

record util_caches =
  envDurationCache :: "string \<rightharpoonup> duration"
  envIntCache :: "string \<rightharpoonup> int"
  envStringCache :: "string \<rightharpoonup> string"
  normalizedMACCache :: "string \<rightharpoonup> string"

type_synonym environ = "string \<Rightarrow> string"

definition empty_caches :: util_caches where
  "empty_caches = \<lparr>envDurationCache = Map.empty, envIntCache = Map.empty,
     envStringCache = Map.empty, normalizedMACCache = Map.empty\<rparr>"

definition ClearEnvCaches :: "util_caches \<Rightarrow> util_caches" where
  "ClearEnvCaches st = st\<lparr>envDurationCache := Map.empty, envIntCache := Map.empty,
     envStringCache := Map.empty, normalizedMACCache := Map.empty\<rparr>"

section \<open>Lookups\<close>

definition GetEnvDuration ::
    "environ \<Rightarrow> string \<Rightarrow> duration \<Rightarrow> util_caches \<Rightarrow> duration \<times> util_caches" where
  "GetEnvDuration env key def st =
     (case envDurationCache st key of
        Some v \<Rightarrow> (v, st)
      | None \<Rightarrow>
          let s = env key;
              val = (if s \<noteq> '''' then (case parse_duration s of Some d \<Rightarrow> d | None \<Rightarrow> def) else def)
          in (val, st\<lparr>envDurationCache := (envDurationCache st)(key \<mapsto> val)\<rparr>))"

definition GetEnvInt ::
    "environ \<Rightarrow> string \<Rightarrow> int \<Rightarrow> util_caches \<Rightarrow> int \<times> util_caches" where
  "GetEnvInt env key def st =
     (case envIntCache st key of
        Some v \<Rightarrow> (v, st)
      | None \<Rightarrow>
          let s = env key;
              val = (if s \<noteq> '''' then (case atoi s of Some i \<Rightarrow> i | None \<Rightarrow> def) else def)
          in (val, st\<lparr>envIntCache := (envIntCache st)(key \<mapsto> val)\<rparr>))"

definition GetEnvString ::
    "environ \<Rightarrow> string \<Rightarrow> string \<Rightarrow> util_caches \<Rightarrow> string \<times> util_caches" where
  "GetEnvString env key def st =
     (case envStringCache st key of
        Some v \<Rightarrow> (v, st)
      | None \<Rightarrow>
          let s = env key;
              val = (if s \<noteq> '''' then s else def)
          in (val, st\<lparr>envStringCache := (envStringCache st)(key \<mapsto> val)\<rparr>))"

text \<open>\<open>strconv.FormatBool\<close>.\<close>

definition format_bool :: "bool \<Rightarrow> string" where
  "format_bool b = (if b then ''true'' else ''false'')"

definition GetEnvBool ::
    "environ \<Rightarrow> string \<Rightarrow> bool \<Rightarrow> util_caches \<Rightarrow> bool \<times> util_caches" where
  "GetEnvBool env key def st =
     (case envStringCache st key of
        Some v \<Rightarrow> (v = ''true'', st)
      | None \<Rightarrow>
          let s = env key;
              val = (if s = ''true'' \<or> s = ''1'' then True
                     else if s = ''false'' \<or> s = ''0'' then False
                     else def)
          in (val, st\<lparr>envStringCache := (envStringCache st)(key \<mapsto> format_bool val)\<rparr>))"

text \<open>
  \<open>GetEnvStringSlice\<close> keeps no cache. Its loop walks the indices \<open>0..len(v)\<close> of the
  value with the start of the current piece; \<open>v[start:i]\<close> is \<open>take (i - start) (drop start v)\<close>.
\<close>

function slice_loop :: "string \<Rightarrow> nat \<Rightarrow> nat \<Rightarrow> string list \<Rightarrow> string list" where
  "slice_loop v start i acc =
     (if length v < i then acc
      else if i = length v \<or> v ! i = CHR '','' then
        (let acc' =
           (if start < i then
              (let s = trim_space (take (i - start) (drop start v))
               in if s \<noteq> '''' then acc @ [s] else acc)
            else acc)
         in slice_loop v (i + 1) (i + 1) acc')
      else slice_loop v start (i + 1) acc)"
  by pat_completeness auto
termination
  by (relation "measure (\<lambda>(v, start, i, acc). Suc (length v) - i)") auto

declare slice_loop.simps [simp del]

definition GetEnvStringSlice :: "environ \<Rightarrow> string \<Rightarrow> string \<Rightarrow> string list" where
  "GetEnvStringSlice env key def =
     (let v = env key
      in if v \<noteq> '''' then
           (if \<not> str_contains v '','' then [trim_space v]
            else slice_loop v 0 0 [])
         else if def = '''' then []
         else [def])"

section \<open>What a lookup computes when nothing is cached\<close>

definition env_duration :: "environ \<Rightarrow> string \<Rightarrow> duration \<Rightarrow> duration" where
  "env_duration env key def = fst (GetEnvDuration env key def empty_caches)"

definition env_int :: "environ \<Rightarrow> string \<Rightarrow> int \<Rightarrow> int" where
  "env_int env key def = fst (GetEnvInt env key def empty_caches)"

definition env_string :: "environ \<Rightarrow> string \<Rightarrow> string \<Rightarrow> string" where
  "env_string env key def = fst (GetEnvString env key def empty_caches)"

definition env_bool :: "environ \<Rightarrow> string \<Rightarrow> bool \<Rightarrow> bool" where
  "env_bool env key def = fst (GetEnvBool env key def empty_caches)"

lemmas env_value_defs = env_duration_def env_int_def env_string_def env_bool_def
  GetEnvDuration_def GetEnvInt_def GetEnvString_def GetEnvBool_def empty_caches_def

lemma empty_caches_lookup [simp]:
  "envDurationCache empty_caches k = None" "envIntCache empty_caches k = None"
  "envStringCache empty_caches k = None" "normalizedMACCache empty_caches k = None"
  by (simp_all add: empty_caches_def)

lemma GetEnvDuration_fresh:
  "envDurationCache st key = None \<Longrightarrow> GetEnvDuration env key def st =
     (env_duration env key def,
      st\<lparr>envDurationCache := (envDurationCache st)(key \<mapsto> env_duration env key def)\<rparr>)"
  by (simp add: env_value_defs Let_def)

lemma GetEnvInt_fresh:
  "envIntCache st key = None \<Longrightarrow> GetEnvInt env key def st =
     (env_int env key def, st\<lparr>envIntCache := (envIntCache st)(key \<mapsto> env_int env key def)\<rparr>)"
  by (simp add: env_value_defs Let_def)

lemma GetEnvString_fresh:
  "envStringCache st key = None \<Longrightarrow> GetEnvString env key def st =
     (env_string env key def,
      st\<lparr>envStringCache := (envStringCache st)(key \<mapsto> env_string env key def)\<rparr>)"
  by (simp add: env_value_defs Let_def)

lemma GetEnvBool_fresh:
  "envStringCache st key = None \<Longrightarrow> GetEnvBool env key def st =
     (env_bool env key def,
      st\<lparr>envStringCache := (envStringCache st)(key \<mapsto> format_bool (env_bool env key def))\<rparr>)"
  by (simp add: env_value_defs Let_def)

lemmas env_fresh = GetEnvDuration_fresh GetEnvInt_fresh GetEnvString_fresh GetEnvBool_fresh

section \<open>Cached lookups are stable\<close>

text \<open>
  The first lookup of a key decides its value: later lookups return it whatever default
  they pass and however the environment has changed.
\<close>

lemma GetEnvDuration_stable:
  "GetEnvDuration env key def st = (v, st') \<Longrightarrow> GetEnvDuration env' key def' st' = (v, st')"
  by (auto simp: GetEnvDuration_def Let_def split: option.splits)

lemma GetEnvInt_stable:
  "GetEnvInt env key def st = (v, st') \<Longrightarrow> GetEnvInt env' key def' st' = (v, st')"
  by (auto simp: GetEnvInt_def Let_def split: option.splits)

lemma GetEnvString_stable:
  "GetEnvString env key def st = (v, st') \<Longrightarrow> GetEnvString env' key def' st' = (v, st')"
  by (auto simp: GetEnvString_def Let_def split: option.splits)

lemma GetEnvBool_stable:
  "GetEnvBool env key def st = (v, st') \<Longrightarrow> GetEnvBool env' key def' st' = (v, st')"
  by (auto simp: GetEnvBool_def format_bool_def Let_def split: option.splits)

text \<open>
  With one default per key, the cached lookups compute the same as the uncached ones: they
  are memo tables.
\<close>

definition int_cache_ok :: "environ \<Rightarrow> (string \<Rightarrow> int) \<Rightarrow> util_caches \<Rightarrow> bool" where
  "int_cache_ok env dflt st \<longleftrightarrow>
     (\<forall>k v. envIntCache st k = Some v \<longrightarrow> v = env_int env k (dflt k))"

definition duration_cache_ok :: "environ \<Rightarrow> (string \<Rightarrow> duration) \<Rightarrow> util_caches \<Rightarrow> bool" where
  "duration_cache_ok env dflt st \<longleftrightarrow>
     (\<forall>k v. envDurationCache st k = Some v \<longrightarrow> v = env_duration env k (dflt k))"

interpretation env_ints: memo "\<lambda>k. GetEnvInt env k (dflt k)" "int_cache_ok env dflt"
  "\<lambda>k. env_int env k (dflt k)" for env dflt
proof
  fix st k assume ok: "int_cache_ok env dflt st"
  show "fst (GetEnvInt env k (dflt k) st) = env_int env k (dflt k)"
    and "int_cache_ok env dflt (snd (GetEnvInt env k (dflt k) st))"
    using ok by (cases "envIntCache st k";
        simp add: int_cache_ok_def GetEnvInt_fresh; simp add: GetEnvInt_def)+
qed

interpretation env_durations: memo "\<lambda>k. GetEnvDuration env k (dflt k)" "duration_cache_ok env dflt"
  "\<lambda>k. env_duration env k (dflt k)" for env dflt
proof
  fix st k assume ok: "duration_cache_ok env dflt st"
  show "fst (GetEnvDuration env k (dflt k) st) = env_duration env k (dflt k)"
    and "duration_cache_ok env dflt (snd (GetEnvDuration env k (dflt k) st))"
    using ok by (cases "envDurationCache st k";
        simp add: duration_cache_ok_def GetEnvDuration_fresh; simp add: GetEnvDuration_def)+
qed

section \<open>The comma loop is split, trim, drop empty pieces\<close>

definition split_trim :: "string \<Rightarrow> string list" where
  "split_trim v = filter (\<lambda>s. s \<noteq> '''') (map trim_space (split_str '','' v))"

lemma trim_space_empty [simp]: "trim_space [] = []"
  using trim_space_length [of "[]"] by simp

lemma split_at_comma:
  assumes "start \<le> i" "i < length v" "v ! i = CHR '',''"
    and "CHR '','' \<notin> set (take (i - start) (drop start v))"
  shows "split_str '','' (drop start v) =
    take (i - start) (drop start v) # split_str '','' (drop (Suc i) v)"
proof -
  have "drop start v = take (i - start) (drop start v) @ drop i v"
    using assms(1) by (metis append_take_drop_id drop_drop le_add_diff_inverse2)
  also have "drop i v = CHR '','' # drop (Suc i) v"
    using assms(2,3) by (metis Cons_nth_drop_Suc)
  finally show ?thesis
    using split_char_append [OF assms(4), of "drop (Suc i) v"] by simp
qed

lemma slice_loop_split:
  assumes "start \<le> i" "i \<le> length v" "CHR '','' \<notin> set (take (i - start) (drop start v))"
  shows "slice_loop v start i acc = acc @ split_trim (drop start v)"
  using assms
proof (induction v start i acc rule: slice_loop.induct)
  case (1 v start i acc)
  define piece where "piece = take (i - start) (drop start v)"
  define acc' where "acc' =
    (if start < i then (let s = trim_space piece in if s \<noteq> '''' then acc @ [s] else acc)
     else acc)"
  have acc': "acc' = acc @ filter (\<lambda>s. s \<noteq> '''') [trim_space piece]"
    using "1.prems"(1) by (auto simp: acc'_def piece_def)
  consider (last) "i = length v" | (comma) "i < length v" "v ! i = CHR '',''"
    | (other) "i < length v" "v ! i \<noteq> CHR '',''"
    using "1.prems"(2) by linarith
  then show ?case
  proof cases
    case last
    then have "piece = drop start v" by (simp add: piece_def)
    moreover have "slice_loop v start i acc = slice_loop v (Suc i) (Suc i) acc'"
      using last by (subst slice_loop.simps) (simp add: acc'_def piece_def)
    moreover have "\<dots> = acc'"
      using last slice_loop.simps [of v "Suc i" "Suc i" acc'] by simp
    ultimately show ?thesis
      using "1.prems"(3) acc' by (simp add: split_trim_def split_char_none piece_def)
  next
    case comma
    have "slice_loop v start i acc = slice_loop v (i + 1) (i + 1) acc'"
      using comma by (subst slice_loop.simps) (simp add: acc'_def piece_def)
    also have "\<dots> = acc' @ split_trim (drop (i + 1) v)"
      unfolding acc'_def piece_def using comma by (intro 1(1)) auto
    finally show ?thesis
      using comma "1.prems" split_at_comma [of start i v] acc'
      by (simp add: split_trim_def piece_def)
  next
    case other
    have "take (Suc i - start) (drop start v) = piece @ [v ! i]"
      using other "1.prems"(1) by (simp add: piece_def Suc_diff_le take_Suc_conv_app_nth)
    with other 1 show ?thesis
      by (simp add: slice_loop.simps [of v start i acc] piece_def)
  qed
qed

lemma GetEnvStringSlice_eq:
  "GetEnvStringSlice env key def =
     (if env key = '''' then (if def = '''' then [] else [def])
      else if CHR '','' \<in> set (env key) then split_trim (env key)
      else [trim_space (env key)])"
  by (simp add: GetEnvStringSlice_def Let_def slice_loop_split)

section \<open>Properties\<close>

text \<open>
  C40: \<open>GetEnvStringSlice\<close> computes its specification. The index loop over the value
  returns the comma-separated pieces in order, trimmed, without the empty ones; a value
  without a comma is one trimmed piece, even when that is empty; without a value the default
  is the only element, if there is one.
\<close>

theorem GetEnvStringSlice_spec:
  "GetEnvStringSlice env key def =
     (if env key = '''' then (if def = '''' then [] else [def])
      else if CHR '','' \<in> set (env key)
      then filter (\<lambda>s. s \<noteq> '''') (map trim_space (split_str '','' (env key)))
      else [trim_space (env key)])"
  by (simp add: GetEnvStringSlice_eq split_trim_def)

text \<open>
  The first typed lookup of a key fixes its value. Repeating a lookup, with another
  default and after any change of the environment, returns the same value and leaves the
  caches as they are, for each of the four typed lookups.
\<close>

theorem GetEnv_first_lookup_fixes_value:
  "(let (v, st') = GetEnvDuration env key d st in GetEnvDuration env' key d' st' = (v, st')) \<and>
   (let (v, st') = GetEnvInt env key i st in GetEnvInt env' key i' st' = (v, st')) \<and>
   (let (v, st') = GetEnvString env key s st in GetEnvString env' key s' st' = (v, st')) \<and>
   (let (v, st') = GetEnvBool env key b st in GetEnvBool env' key b' st' = (v, st'))"
  by (auto simp: Let_def dest: GetEnvDuration_stable GetEnvInt_stable GetEnvString_stable
      GetEnvBool_stable)

text \<open>
  The boolean lookup shares the string cache and reads it more strictly than it reads
  the environment: once \<open>GetEnvString\<close> has cached the text \<open>1\<close>, which \<open>GetEnvBool\<close>
  reads as true from the environment, \<open>GetEnvBool\<close> returns false for the key.
\<close>

theorem GetEnvBool_after_GetEnvString:
  assumes "env key = ''1''" and "envStringCache st key = None"
  shows "fst (GetEnvBool env key def st) \<and>
    \<not> fst (GetEnvBool env key def (snd (GetEnvString env key def' st)))"
  using assms by (simp add: GetEnvBool_def GetEnvString_def Let_def)

theorem GetEnvBool_after_GetEnvString_witness:
  "\<not> fst (GetEnvBool (\<lambda>_. ''1'') ''ENABLE_METRICS'' True
     (snd (GetEnvString (\<lambda>_. ''1'') ''ENABLE_METRICS'' '''' empty_caches)))"
  using GetEnvBool_after_GetEnvString [of "\<lambda>_. ''1''" "''ENABLE_METRICS''" empty_caches]
  by (simp add: empty_caches_def)

end
