(* ===== verification/Config.thy ===== *)
theory Config
  imports Env "HOL-Library.State_Monad"
begin

text \<open>
  The configuration of \<open>config/config.go\<close>: the record \<open>Config\<close>, \<open>loadConfig\<close>, which
  fills it from the environment with one cached lookup per field, \<open>Validate\<close>,
  \<open>MustLoad\<close>, and the singleton \<open>Get\<close>. A panic is the left summand of the result.

  The lemmas show that from empty caches the record is a function of the environment alone,
  that validation accepts exactly the records within the documented bounds, and that the
  defaults are valid.
\<close>

section \<open>Constants\<close>

definition ARecordInvalidAnswer :: string where "ARecordInvalidAnswer = ''0.0.0.0''"
definition AAAARecordInvalidAnswer :: string where "AAAARecordInvalidAnswer = ''::''"
definition NegativeResponseTTLDivisor :: int where "NegativeResponseTTLDivisor = 4"
definition MinCacheTTL :: duration where "MinCacheTTL = 30 * second"
definition MaxCacheTTL :: duration where "MaxCacheTTL = 24 * hour"
definition DefaultPublicDNS :: string where "DefaultPublicDNS = ''1.1.1.1:53''"

definition SuffixA :: string where "SuffixA = '':1''"
definition SuffixAAAA :: string where "SuffixAAAA = '':28''"
definition SuffixCNAME :: string where "SuffixCNAME = '':5''"
definition SuffixMX :: string where "SuffixMX = '':15''"
definition SuffixTXT :: string where "SuffixTXT = '':16''"

definition MinTTL :: u32 where "MinTTL = not 0"

named_theorems config_consts \<open>the constants of the configuration\<close>

declare ARecordInvalidAnswer_def [config_consts] AAAARecordInvalidAnswer_def [config_consts]
  NegativeResponseTTLDivisor_def [config_consts] MinCacheTTL_def [config_consts]
  MaxCacheTTL_def [config_consts] DefaultPublicDNS_def [config_consts]
  SuffixA_def [config_consts] SuffixAAAA_def [config_consts] SuffixCNAME_def [config_consts]
  SuffixMX_def [config_consts] SuffixTXT_def [config_consts] MinTTL_def [config_consts]

section \<open>The record\<close>

record Config =
  DNSPort :: string
  UDPSize :: int
  DNSTimeout :: duration
  PrivateServers :: "string list"
  PublicServers :: "string list"
  CacheRefresh :: duration
  WorkerCount :: int
  TestDomain :: string
  DNSStatslog :: duration
  CacheSize :: int
  CacheTTL :: duration
  MetricsPort :: string
  EnableMetrics :: bool
  MetricsBatchSize :: int
  MetricsBatchDelay :: duration
  PublicOnlyClients :: "string list"
  PublicOnlyClientMACs :: "string list"
  PublicOnlyClientMACOUIs :: "string list"
  EnableClientRouting :: bool
  EnableDomainRouting :: bool
  DomainRoutingFolder :: string
  DomainRoutingTableReloadInterval :: int
  LogLevel :: string
  PidFilePath :: string
  EnableCachePersistence :: bool
  CachePersistenceFile :: string
  CachePersistenceInterval :: duration
  CachePersistenceMaxAge :: duration
  EnableStaleUpdater :: bool
  StaleUpdateThreshold :: duration
  StaleUpdateInterval :: duration
  StaleUpdateMinAccessCount :: int
  StaleUpdateMaxConcurrent :: int
  EnableProfiling :: bool
  ProfilingPort :: string

section \<open>Loading\<close>

text \<open>The lookups of \<open>util\<close> as actions on the caches.\<close>

definition env_str :: "environ \<Rightarrow> string \<Rightarrow> string \<Rightarrow> (util_caches, string) state" where
  "env_str env key def = State (GetEnvString env key def)"

definition env_num :: "environ \<Rightarrow> string \<Rightarrow> int \<Rightarrow> (util_caches, int) state" where
  "env_num env key def = State (GetEnvInt env key def)"

definition env_dur :: "environ \<Rightarrow> string \<Rightarrow> duration \<Rightarrow> (util_caches, duration) state" where
  "env_dur env key def = State (GetEnvDuration env key def)"

definition env_flag :: "environ \<Rightarrow> string \<Rightarrow> bool \<Rightarrow> (util_caches, bool) state" where
  "env_flag env key def = State (GetEnvBool env key def)"

definition loadConfig :: "environ \<Rightarrow> (util_caches, Config) state" where
  "loadConfig env = do {
     dnsPort \<leftarrow> env_str env ''DNS_PORT'' '':53'';
     udpSize \<leftarrow> env_num env ''UDP_SIZE'' 65535;
     dnsTimeout \<leftarrow> env_dur env ''DNS_TIMEOUT'' (5 * second);
     let privateServers = GetEnvStringSlice env ''PRIVATE_DNS_SERVERS'' '''';
     let publicServers = GetEnvStringSlice env ''PUBLIC_DNS_SERVERS'' DefaultPublicDNS;
     cacheRefresh \<leftarrow> env_dur env ''CACHE_SERVERS_REFRESH'' (10 * second);
     workerCount \<leftarrow> env_num env ''WORKER_COUNT'' 5;
     testDomain \<leftarrow> env_str env ''TEST_DOMAIN'' ''google.com'';
     dnsStatslog \<leftarrow> env_dur env ''DNS_STATSLOG'' (5 * minute);
     cacheSize \<leftarrow> env_num env ''CACHE_SIZE'' 10000;
     cacheTTL \<leftarrow> env_dur env ''DNS_CACHE_TTL'' (30 * minute);
     metricsPort \<leftarrow> env_str env ''METRICS_PORT'' '':8080'';
     enableMetrics \<leftarrow> env_flag env ''ENABLE_METRICS'' True;
     metricsBatchSize \<leftarrow> env_num env ''METRICS_BATCH_SIZE'' 500;
     metricsBatchDelay \<leftarrow> env_dur env ''METRICS_BATCH_DELAY'' (100 * millisecond);
     let publicOnlyClients = GetEnvStringSlice env ''PUBLIC_ONLY_CLIENTS'' '''';
     let publicOnlyClientMACs = GetEnvStringSlice env ''PUBLIC_ONLY_CLIENT_MACS'' '''';
     let publicOnlyClientMACOUIs = GetEnvStringSlice env ''PUBLIC_ONLY_CLIENT_MAC_OUIS'' '''';
     enableClientRouting \<leftarrow> env_flag env ''ENABLE_CLIENT_ROUTING'' False;
     enableDomainRouting \<leftarrow> env_flag env ''ENABLE_DOMAIN_ROUTING'' False;
     domainRoutingFolder \<leftarrow> env_str env ''DOMAIN_ROUTING_FOLDER'' '''';
     reloadInterval \<leftarrow> env_num env ''DOMAIN_ROUTING_TABLE_RELOAD_INTERVAL'' 60;
     logLevel \<leftarrow> env_str env ''LOG_LEVEL'' ''info'';
     pidFile \<leftarrow> env_str env ''PID_FILE'' '''';
     enablePersistence \<leftarrow> env_flag env ''ENABLE_CACHE_PERSISTENCE'' True;
     persistenceFile \<leftarrow> env_str env ''CACHE_PERSISTENCE_FILE'' ''/app/cache/dns_cache.json'';
     persistenceInterval \<leftarrow> env_dur env ''CACHE_PERSISTENCE_INTERVAL'' (5 * minute);
     persistenceMaxAge \<leftarrow> env_dur env ''CACHE_PERSISTENCE_MAX_AGE'' (1 * hour);
     enableStaleUpdater \<leftarrow> env_flag env ''ENABLE_STALE_UPDATER'' True;
     staleThreshold \<leftarrow> env_dur env ''STALE_UPDATE_THRESHOLD'' (2 * minute);
     staleInterval \<leftarrow> env_dur env ''STALE_UPDATE_INTERVAL'' (30 * second);
     staleMinAccess \<leftarrow> env_num env ''STALE_UPDATE_MIN_ACCESS_COUNT'' 5;
     staleMaxConcurrent \<leftarrow> env_num env ''STALE_UPDATE_MAX_CONCURRENT'' 10;
     enableProfiling \<leftarrow> env_flag env ''ENABLE_PROFILING'' False;
     profilingPort \<leftarrow> env_str env ''PROFILING_PORT'' '':6060'';
     State_Monad.return \<lparr>DNSPort = dnsPort, UDPSize = udpSize, DNSTimeout = dnsTimeout,
       PrivateServers = privateServers, PublicServers = publicServers,
       CacheRefresh = cacheRefresh, WorkerCount = workerCount, TestDomain = testDomain,
       DNSStatslog = dnsStatslog, CacheSize = cacheSize, CacheTTL = cacheTTL,
       MetricsPort = metricsPort, EnableMetrics = enableMetrics,
       MetricsBatchSize = metricsBatchSize, MetricsBatchDelay = metricsBatchDelay,
       PublicOnlyClients = publicOnlyClients, PublicOnlyClientMACs = publicOnlyClientMACs,
       PublicOnlyClientMACOUIs = publicOnlyClientMACOUIs,
       EnableClientRouting = enableClientRouting, EnableDomainRouting = enableDomainRouting,
       DomainRoutingFolder = domainRoutingFolder,
       DomainRoutingTableReloadInterval = reloadInterval, LogLevel = logLevel,
       PidFilePath = pidFile, EnableCachePersistence = enablePersistence,
       CachePersistenceFile = persistenceFile, CachePersistenceInterval = persistenceInterval,
       CachePersistenceMaxAge = persistenceMaxAge, EnableStaleUpdater = enableStaleUpdater,
       StaleUpdateThreshold = staleThreshold, StaleUpdateInterval = staleInterval,
       StaleUpdateMinAccessCount = staleMinAccess,
       StaleUpdateMaxConcurrent = staleMaxConcurrent, EnableProfiling = enableProfiling,
       ProfilingPort = profilingPort\<rparr>
   }"

section \<open>Validation\<close>

datatype config_error =
  BadWorkerCount int | BadUDPSize int | BadCacheSize int | BadDNSTimeout duration
| BadCacheRefresh duration | BadCacheTTL duration | BadReloadInterval int
| BadStaleThreshold duration | BadStaleInterval duration | BadStaleMinAccess int
| BadStaleMaxConcurrent int

definition Validate :: "Config \<Rightarrow> config_error option" where
  "Validate c =
     (if WorkerCount c \<le> 0 then Some (BadWorkerCount (WorkerCount c))
      else if UDPSize c \<le> 0 \<or> 65535 < UDPSize c then Some (BadUDPSize (UDPSize c))
      else if CacheSize c \<le> 0 then Some (BadCacheSize (CacheSize c))
      else if DNSTimeout c \<le> 0 then Some (BadDNSTimeout (DNSTimeout c))
      else if CacheRefresh c \<le> 0 then Some (BadCacheRefresh (CacheRefresh c))
      else if CacheTTL c < MinCacheTTL \<or> MaxCacheTTL < CacheTTL c then
        Some (BadCacheTTL (CacheTTL c))
      else if DomainRoutingTableReloadInterval c \<le> 0 then
        Some (BadReloadInterval (DomainRoutingTableReloadInterval c))
      else if EnableStaleUpdater c then
        (if StaleUpdateThreshold c \<le> 0 then Some (BadStaleThreshold (StaleUpdateThreshold c))
         else if StaleUpdateInterval c \<le> 0 then Some (BadStaleInterval (StaleUpdateInterval c))
         else if StaleUpdateMinAccessCount c \<le> 0 then
           Some (BadStaleMinAccess (StaleUpdateMinAccessCount c))
         else if StaleUpdateMaxConcurrent c \<le> 0 then
           Some (BadStaleMaxConcurrent (StaleUpdateMaxConcurrent c))
         else None)
      else None)"

definition MustLoad :: "environ \<Rightarrow> util_caches \<Rightarrow> (config_error + Config) \<times> util_caches" where
  "MustLoad env st =
     (let (c, st1) = run_state (loadConfig env) st
      in (case Validate c of Some e \<Rightarrow> Inl e | None \<Rightarrow> Inr c, st1))"

text \<open>
  The singleton. \<open>sync.Once\<close> counts a call that panics as done, so a second \<open>Get\<close> after a
  panic returns the nil configuration (\<open>None\<close>).
\<close>

record config_state =
  cfg :: "Config option"
  cfg_once :: bool
  cfg_caches :: util_caches

definition Get :: "environ \<Rightarrow> config_state \<Rightarrow> (config_error + Config option) \<times> config_state" where
  "Get env s =
     (if cfg_once s then (Inr (cfg s), s)
      else case MustLoad env (cfg_caches s) of
        (Inl e, st) \<Rightarrow> (Inl e, s\<lparr>cfg_once := True, cfg_caches := st\<rparr>)
      | (Inr c, st) \<Rightarrow> (Inr (Some c), s\<lparr>cfg := Some c, cfg_once := True, cfg_caches := st\<rparr>))"

definition resetForTesting :: "config_state \<Rightarrow> config_state" where
  "resetForTesting s = s\<lparr>cfg := None, cfg_once := False\<rparr>"

section \<open>The record is a function of the environment\<close>

definition pure_config :: "environ \<Rightarrow> Config" where
  "pure_config env = \<lparr>
     DNSPort = env_string env ''DNS_PORT'' '':53'',
     UDPSize = env_int env ''UDP_SIZE'' 65535,
     DNSTimeout = env_duration env ''DNS_TIMEOUT'' (5 * second),
     PrivateServers = GetEnvStringSlice env ''PRIVATE_DNS_SERVERS'' '''',
     PublicServers = GetEnvStringSlice env ''PUBLIC_DNS_SERVERS'' DefaultPublicDNS,
     CacheRefresh = env_duration env ''CACHE_SERVERS_REFRESH'' (10 * second),
     WorkerCount = env_int env ''WORKER_COUNT'' 5,
     TestDomain = env_string env ''TEST_DOMAIN'' ''google.com'',
     DNSStatslog = env_duration env ''DNS_STATSLOG'' (5 * minute),
     CacheSize = env_int env ''CACHE_SIZE'' 10000,
     CacheTTL = env_duration env ''DNS_CACHE_TTL'' (30 * minute),
     MetricsPort = env_string env ''METRICS_PORT'' '':8080'',
     EnableMetrics = env_bool env ''ENABLE_METRICS'' True,
     MetricsBatchSize = env_int env ''METRICS_BATCH_SIZE'' 500,
     MetricsBatchDelay = env_duration env ''METRICS_BATCH_DELAY'' (100 * millisecond),
     PublicOnlyClients = GetEnvStringSlice env ''PUBLIC_ONLY_CLIENTS'' '''',
     PublicOnlyClientMACs = GetEnvStringSlice env ''PUBLIC_ONLY_CLIENT_MACS'' '''',
     PublicOnlyClientMACOUIs = GetEnvStringSlice env ''PUBLIC_ONLY_CLIENT_MAC_OUIS'' '''',
     EnableClientRouting = env_bool env ''ENABLE_CLIENT_ROUTING'' False,
     EnableDomainRouting = env_bool env ''ENABLE_DOMAIN_ROUTING'' False,
     DomainRoutingFolder = env_string env ''DOMAIN_ROUTING_FOLDER'' '''',
     DomainRoutingTableReloadInterval =
       env_int env ''DOMAIN_ROUTING_TABLE_RELOAD_INTERVAL'' 60,
     LogLevel = env_string env ''LOG_LEVEL'' ''info'',
     PidFilePath = env_string env ''PID_FILE'' '''',
     EnableCachePersistence = env_bool env ''ENABLE_CACHE_PERSISTENCE'' True,
     CachePersistenceFile =
       env_string env ''CACHE_PERSISTENCE_FILE'' ''/app/cache/dns_cache.json'',
     CachePersistenceInterval = env_duration env ''CACHE_PERSISTENCE_INTERVAL'' (5 * minute),
     CachePersistenceMaxAge = env_duration env ''CACHE_PERSISTENCE_MAX_AGE'' (1 * hour),
     EnableStaleUpdater = env_bool env ''ENABLE_STALE_UPDATER'' True,
     StaleUpdateThreshold = env_duration env ''STALE_UPDATE_THRESHOLD'' (2 * minute),
     StaleUpdateInterval = env_duration env ''STALE_UPDATE_INTERVAL'' (30 * second),
     StaleUpdateMinAccessCount = env_int env ''STALE_UPDATE_MIN_ACCESS_COUNT'' 5,
     StaleUpdateMaxConcurrent = env_int env ''STALE_UPDATE_MAX_CONCURRENT'' 10,
     EnableProfiling = env_bool env ''ENABLE_PROFILING'' False,
     ProfilingPort = env_string env ''PROFILING_PORT'' '':6060''\<rparr>"

lemma run_bind: "run_state (State_Monad.bind x f) st = (case run_state x st of (a, st1) \<Rightarrow> run_state (f a) st1)"
  by (simp add: State_Monad.bind_def)

lemma loadConfig_fresh: "fst (run_state (loadConfig env) empty_caches) = pure_config env"
  unfolding loadConfig_def Let_def
  by (simp add: run_bind env_str_def env_num_def env_dur_def env_flag_def env_fresh
      State_Monad.return_def pure_config_def)

section \<open>Validation accepts exactly the documented bounds\<close>

definition valid_config :: "Config \<Rightarrow> bool" where
  "valid_config c \<longleftrightarrow>
     0 < WorkerCount c \<and> 0 < UDPSize c \<and> UDPSize c \<le> 65535 \<and> 0 < CacheSize c \<and>
     0 < DNSTimeout c \<and> 0 < CacheRefresh c \<and>
     MinCacheTTL \<le> CacheTTL c \<and> CacheTTL c \<le> MaxCacheTTL \<and>
     0 < DomainRoutingTableReloadInterval c \<and>
     (EnableStaleUpdater c \<longrightarrow>
        0 < StaleUpdateThreshold c \<and> 0 < StaleUpdateInterval c \<and>
        0 < StaleUpdateMinAccessCount c \<and> 0 < StaleUpdateMaxConcurrent c)"

lemma Validate_None: "Validate c = None \<longleftrightarrow> valid_config c"
  unfolding Validate_def valid_config_def by (simp add: not_le not_less)

lemma MustLoad_fresh:
  "fst (MustLoad env empty_caches) =
     (case Validate (pure_config env) of Some e \<Rightarrow> Inl e | None \<Rightarrow> Inr (pure_config env))"
  using loadConfig_fresh [of env]
  by (auto simp: MustLoad_def Let_def case_prod_beta split: option.split)

text \<open>The default record: every variable unset.\<close>

lemma unset_env:
  "env_string (\<lambda>_. '''') k s = s" "env_int (\<lambda>_. '''') k i = i"
  "env_duration (\<lambda>_. '''') k d = d" "env_bool (\<lambda>_. '''') k b = b"
  by (simp_all add: env_value_defs)

section \<open>Properties\<close>

text \<open>
  C38: \<open>MustLoad\<close> on fresh caches either returns the record whose every field is the lookup of
  its own variable with its own default, and then that record is within all the bounds the
  error messages name, or it panics, and then that record is not.
\<close>

theorem MustLoad_spec:
  "case fst (MustLoad env empty_caches) of
     Inr c \<Rightarrow> c = pure_config env \<and> valid_config c
   | Inl e \<Rightarrow> \<not> valid_config (pure_config env)"
  using Validate_None [of "pure_config env"]
  by (cases "Validate (pure_config env)") (auto simp: MustLoad_fresh)

text \<open>
  With no variable set the configuration is valid and loads; its PID file path is empty
  and the statistics interval is five minutes.
\<close>

theorem default_config_loads:
  "\<exists>c. fst (MustLoad (\<lambda>_. '''') empty_caches) = Inr c \<and>
     DNSPort c = '':53'' \<and> PublicServers c = [''1.1.1.1:53''] \<and> PrivateServers c = [] \<and>
     CacheTTL c = 30 * minute \<and> PidFilePath c = '''' \<and> DNSStatslog c = 5 * minute"
proof -
  have "valid_config (pure_config (\<lambda>_. ''''))"
    by (simp add: valid_config_def pure_config_def unset_env unit_defs config_consts)
  then have "fst (MustLoad (\<lambda>_. '''') empty_caches) = Inr (pure_config (\<lambda>_. ''''))"
    unfolding MustLoad_fresh by (simp only: Validate_None [THEN iffD2] option.case)
  then show ?thesis
    by (simp add: pure_config_def unset_env GetEnvStringSlice_eq config_consts)
qed

text \<open>
  \<open>Get\<close> loads once. After the first call every further call returns the same
  configuration and changes nothing, whatever has become of the environment; after a first
  call that panicked it returns the nil configuration.
\<close>

theorem Get_loads_once:
  assumes "Get env s = (r, s')" and "\<not> cfg_once s" and "cfg s = None"
  shows "Get env' s' = (case r of Inr c \<Rightarrow> (Inr c, s') | Inl e \<Rightarrow> (Inr None, s'))"
  using assms by (auto simp: Get_def split: prod.splits sum.splits)

theorem Get_loads_once_default:
  "Get (\<lambda>_. ''0'')
     (snd (Get (\<lambda>_. '''') \<lparr>cfg = None, cfg_once = False, cfg_caches = empty_caches\<rparr>)) =
   (case fst (Get (\<lambda>_. '''') \<lparr>cfg = None, cfg_once = False, cfg_caches = empty_caches\<rparr>) of
      Inr c \<Rightarrow> (Inr c, snd (Get (\<lambda>_. '''') \<lparr>cfg = None, cfg_once = False, cfg_caches = empty_caches\<rparr>))
    | Inl e \<Rightarrow> (Inr None, snd (Get (\<lambda>_. '''') \<lparr>cfg = None, cfg_once = False, cfg_caches = empty_caches\<rparr>)))"
  by (rule Get_loads_once [OF prod.collapse [symmetric]]) simp_all

end
