(* ===== verification/GoNet.thy ===== *)
theory GoNet
  imports GoStrings
begin

text \<open>
  The part of Go's \<open>net\<close> package that the program calls: \<open>net.SplitHostPort\<close>,
  \<open>net.ParseIP\<close> (with the loops of \<open>netip.ParseAddr\<close>), \<open>IP.To4\<close> and
  \<open>IP.String\<close>. An address is its list of 4 or 16 bytes; \<open>None\<close> is the nil IP.
  The lemmas give the shape of a parsed address and that printing and parsing agree on
  IPv4 addresses.
\<close>

section \<open>Host and port\<close>

datatype addr_error =
  MissingPort | TooManyColons | MissingBracket | UnexpectedOpen | UnexpectedClose

definition split_host_port :: "string \<Rightarrow> addr_error + (string \<times> string)" where
  "split_host_port hp =
     (case last_index CHR '':'' hp of
        None \<Rightarrow> Inl MissingPort
      | Some i \<Rightarrow>
          if hd hp = CHR ''['' then
            (case index_of CHR '']'' hp of
               None \<Rightarrow> Inl MissingBracket
             | Some e \<Rightarrow>
                 if e + 1 = length hp then Inl MissingPort
                 else if e + 1 \<noteq> i then
                   (if hp ! (e + 1) = CHR '':'' then Inl TooManyColons else Inl MissingPort)
                 else if CHR ''['' \<in> set (drop 1 hp) then Inl UnexpectedOpen
                 else if CHR '']'' \<in> set (drop (e + 1) hp) then Inl UnexpectedClose
                 else Inr (take (e - 1) (drop 1 hp), drop (i + 1) hp))
          else if CHR '':'' \<in> set (take i hp) then Inl TooManyColons
          else if CHR ''['' \<in> set hp then Inl UnexpectedOpen
          else if CHR '']'' \<in> set hp then Inl UnexpectedClose
          else Inr (take i hp, drop (i + 1) hp))"

text \<open>A host without colon or bracket, and a bracketed host, come back unchanged.\<close>

lemma split_host_port_plain:
  assumes "set h \<inter> {CHR '':'', CHR ''['', CHR '']''} = {}"
    and "set p \<inter> {CHR '':'', CHR ''['', CHR '']''} = {}"
  shows "split_host_port (h @ CHR '':'' # p) = Inr (h, p)"
proof -
  have "last_index CHR '':'' (h @ CHR '':'' # p) = Some (length h)"
    using assms by (intro last_index_append) auto
  moreover have "hd (h @ CHR '':'' # p) \<noteq> CHR ''[''"
    using assms by (cases h) auto
  ultimately show ?thesis
    using assms by (auto simp: split_host_port_def)
qed

lemma split_host_port_bracket:
  assumes "set h \<inter> {CHR ''['', CHR '']''} = {}"
    and "set p \<inter> {CHR '':'', CHR ''['', CHR '']''} = {}"
  shows "split_host_port (CHR ''['' # h @ CHR '']'' # CHR '':'' # p) = Inr (h, p)"
proof -
  have "last_index CHR '':'' ((CHR ''['' # h @ [CHR '']'']) @ CHR '':'' # p) = Some (length h + 2)"
    using assms by (subst last_index_append) auto
  moreover have "index_of CHR '']'' ((CHR ''['' # h) @ CHR '']'' # CHR '':'' # p) = Some (length h + 1)"
    using assms by (subst index_of_append) auto
  ultimately show ?thesis
    using assms by (auto simp: split_host_port_def)
qed

section \<open>Parsing addresses\<close>

type_synonym ip = "u8 list"

definition octet :: "string \<Rightarrow> nat option" where
  "octet s =
     (if s = [] \<or> (1 < length s \<and> hd s = CHR ''0'') then None
      else case digits_val 0 s of
        None \<Rightarrow> None
      | Some n \<Rightarrow> if n \<le> 255 then Some n else None)"

definition parse_ipv4 :: "string \<Rightarrow> ip option" where
  "parse_ipv4 s =
     (let ps = split_str ''.'' s
      in if length ps = 4 then map_option (map word_of_nat) (those (map octet ps)) else None)"

definition hex_val :: "char \<Rightarrow> nat option" where
  "hex_val c =
     (if is_digit c then Some (byte c - 48)
      else if is_lower_hex c then Some (byte c - 87)
      else if is_upper_hex c then Some (byte c - 55)
      else None)"

fun take_hex :: "nat \<Rightarrow> nat \<Rightarrow> string \<Rightarrow> (nat \<times> nat \<times> string) option" where
  "take_hex acc off [] = Some (acc, off, [])"
| "take_hex acc off (c # cs) =
     (case hex_val c of
        None \<Rightarrow> Some (acc, off, c # cs)
      | Some d \<Rightarrow> if 3 < off then None else take_hex (acc * 16 + d) (off + 1) cs)"

lemma take_hex_length: "take_hex acc off s = Some (a, k, r) \<Longrightarrow> length r \<le> length s"
  by (induction acc off s rule: take_hex.induct) (auto split: option.splits if_splits)

text \<open>
  The loop of \<open>parseIPv6\<close>: the bytes read so far, the position of the ellipsis, and the
  rest of the input.
\<close>

function v6_loop :: "ip \<Rightarrow> nat option \<Rightarrow> string \<Rightarrow> (ip \<times> nat option \<times> string) option" where
  "v6_loop bs ell s =
     (if 16 \<le> length bs then Some (bs, ell, s)
      else case take_hex 0 0 s of
        None \<Rightarrow> None
      | Some (acc, off, r) \<Rightarrow>
          if off = 0 then None
          else if r \<noteq> [] \<and> hd r = CHR ''.'' then
            (if ell = None \<and> length bs \<noteq> 12 then None
             else if 16 < length bs + 4 then None
             else map_option (\<lambda>b. (bs @ b, ell, [])) (parse_ipv4 s))
          else let bs' = bs @ [word_of_nat (acc div 256), word_of_nat acc] in
            (if r = [] then Some (bs', ell, [])
             else if hd r \<noteq> CHR '':'' then None
             else if tl r = [] then None
             else if hd (tl r) = CHR '':'' then
               (if ell \<noteq> None then None
                else if tl (tl r) = [] then Some (bs', Some (length bs'), [])
                else v6_loop bs' (Some (length bs')) (tl (tl r)))
             else v6_loop bs' ell (tl r)))"
  by pat_completeness auto
termination
  by (relation "measure (\<lambda>(bs, ell, s). length s)")
    (auto simp: neq_Nil_conv dest!: take_hex_length)

declare v6_loop.simps [simp del]

definition parse_ipv6 :: "string \<Rightarrow> ip option" where
  "parse_ipv6 s =
     (let (ell, t) = (if prefix ''::'' s then (Some 0, drop 2 s) else (None, s))
      in if ell \<noteq> None \<and> t = [] then Some (replicate 16 0)
         else case v6_loop [] ell t of
           None \<Rightarrow> None
         | Some (bs, ell', r) \<Rightarrow>
             if r \<noteq> [] then None
             else if length bs < 16 then
               (case ell' of
                  None \<Rightarrow> None
                | Some e \<Rightarrow> Some (take e bs @ replicate (16 - length bs) 0 @ drop e bs))
             else if ell' \<noteq> None then None
             else Some bs)"

definition v4_in_v6 :: "ip \<Rightarrow> ip" where
  "v4_in_v6 b = replicate 10 0 @ [255, 255] @ b"

text \<open>
  \<open>net.ParseIP\<close>. The first of a dot, a colon and a percent sign decides the family; an
  address with a zone is not accepted.
\<close>

definition parse_ip :: "string \<Rightarrow> ip option" where
  "parse_ip s =
     (case find (\<lambda>c. c \<in> set ''.:%'') s of
        None \<Rightarrow> None
      | Some c \<Rightarrow>
          if c = CHR ''.'' then map_option v4_in_v6 (parse_ipv4 s)
          else if c = CHR ''%'' \<or> CHR ''%'' \<in> set s then None
          else parse_ipv6 s)"

definition to4 :: "ip \<Rightarrow> ip option" where
  "to4 b =
     (if length b = 4 then Some b
      else if length b = 16 \<and> take 12 b = replicate 10 0 @ [255, 255] then Some (drop 12 b)
      else None)"

definition to16 :: "ip \<Rightarrow> ip option" where
  "to16 b =
     (if length b = 4 then Some (v4_in_v6 b)
      else if length b = 16 then Some b
      else None)"

lemma parse_ipv4_length: "parse_ipv4 s = Some b \<Longrightarrow> length b = 4"
proof -
  have those_length: "those xs = Some ys \<Longrightarrow> length ys = length xs"
    for xs :: "nat option list" and ys
    by (induction xs arbitrary: ys) (auto split: option.splits)
  show "parse_ipv4 s = Some b \<Longrightarrow> length b = 4"
    by (auto simp: parse_ipv4_def Let_def split: if_splits dest!: those_length)
qed

lemma v6_loop_length:
  "v6_loop bs ell s = Some (bs', ell', r) \<Longrightarrow> even (length bs) \<Longrightarrow> length bs \<le> 16 \<Longrightarrow>
     length bs' \<le> 16"
proof (induction bs ell s rule: v6_loop.induct)
  case (1 bs ell s)
  have two: "length bs + 2 \<le> 16" if "length bs < 16"
    using 1(4) that by presburger
  show ?case
    using 1 two
    by (simp add: v6_loop.simps [of bs ell s] Let_def split: option.splits if_splits prod.splits)
      (auto dest: parse_ipv4_length)
qed

lemma parse_ip_length: "parse_ip s = Some b \<Longrightarrow> length b = 16"
  by (auto simp: parse_ip_def parse_ipv6_def v4_in_v6_def Let_def
      split: option.splits if_splits prod.splits
      dest!: parse_ipv4_length v6_loop_length)

section \<open>Printing addresses\<close>

definition hex_digit :: "nat \<Rightarrow> char" where
  "hex_digit d = (if d < 10 then char_of (48 + d) else char_of (87 + d))"

fun nat_hex :: "nat \<Rightarrow> string" where
  "nat_hex n = (if n < 16 then [hex_digit n] else nat_hex (n div 16) @ [hex_digit (n mod 16)])"

declare nat_hex.simps [simp del]

definition v4_string :: "ip \<Rightarrow> string" where
  "v4_string b = join_str ''.'' (map (nat_dec \<circ> unat) b)"

definition v6_groups :: "ip \<Rightarrow> nat list" where
  "v6_groups b = map (\<lambda>i. unat (b ! (2 * i)) * 256 + unat (b ! (2 * i + 1))) [0..<8]"

text \<open>The first of the longest runs of at least two zero groups: its start and length.\<close>

definition zero_run :: "nat list \<Rightarrow> nat \<times> nat" where
  "zero_run gs =
     fold (\<lambda>i (st, l). let r = length (takeWhile (\<lambda>g. g = 0) (drop i gs))
             in if 2 \<le> r \<and> l < r then (i, r) else (st, l)) [0..<8] (255, 0)"

definition v6_string :: "ip \<Rightarrow> string" where
  "v6_string b =
     (let gs = v6_groups b; (st, l) = zero_run gs
      in if l = 0 then join_str '':'' (map nat_hex gs)
         else join_str '':'' (map nat_hex (take st gs)) @ ''::'' @
           join_str '':'' (map nat_hex (drop (st + l) gs)))"

text \<open>\<open>IP.String\<close>.\<close>

definition ip_string :: "ip \<Rightarrow> string" where
  "ip_string b =
     (if b = [] then ''<nil>''
      else if length b \<noteq> 4 \<and> length b \<noteq> 16 then
        CHR ''?'' # concat (map (\<lambda>w. [hex_digit (unat w div 16), hex_digit (unat w mod 16)]) b)
      else case to4 b of Some p4 \<Rightarrow> v4_string p4 | None \<Rightarrow> v6_string b)"

lemma byte_le_255: "unat (w :: u8) \<le> 255"
  using unsigned_less [of w, where ?'a = nat] by simp

lemma nat_dec_no_leading_zero: "1 < length (nat_dec n) \<Longrightarrow> hd (nat_dec n) \<noteq> CHR ''0''"
proof (induction n rule: nat_dec.induct)
  case (1 n)
  show ?case
  proof (cases "n < 10")
    case True
    with "1.prems" show ?thesis by (simp add: nat_dec.simps [of n])
  next
    case False
    have hd: "hd (nat_dec n) = hd (nat_dec (n div 10))"
      using False by (simp add: nat_dec.simps [of n])
    show ?thesis
    proof (cases "n div 10 < 10")
      case True
      moreover have "n div 10 \<noteq> 0" using False by auto
      ultimately have "byte (hd (nat_dec (n div 10))) \<noteq> byte CHR ''0''"
        by (simp add: nat_dec.simps [of "n div 10"]) (simp add: byte_def)
      then show ?thesis using hd by auto
    next
      case big: False
      then have "1 < length (nat_dec (n div 10))"
        by (simp add: nat_dec.simps [of "n div 10"])
      with False "1.IH" hd show ?thesis by simp
    qed
  qed
qed

lemma octet_nat_dec: "octet (nat_dec (unat (w :: u8))) = Some (unat w)"
  using nat_dec_no_leading_zero [of "unat w"] byte_le_255 [of w]
  by (auto simp: octet_def digits_val_nat_dec)

lemma octet_byte_bound: "octet s = Some n \<Longrightarrow> n \<le> 255"
  by (auto simp: octet_def split: if_splits option.splits)

lemma those_octets: "those (map (octet \<circ> (nat_dec \<circ> unat)) (b :: ip)) = Some (map unat b)"
  by (induction b) (simp_all add: octet_nat_dec)

lemma v4_roundtrip:
  assumes "length b = 4"
  shows "parse_ipv4 (v4_string b) = Some b"
proof -
  have "split_str ''.'' (v4_string b) = map (nat_dec \<circ> unat) b"
    unfolding v4_string_def
  proof (rule split_join)
    show "map (nat_dec \<circ> unat) b \<noteq> []" using assms by auto
    show "CHR ''.'' \<notin> set p" if "p \<in> set (map (nat_dec \<circ> unat) b)" for p
      using that nat_dec_digits by (fastforce simp: is_digit_def byte_def)
  qed
  then show ?thesis
    using assms those_octets [of b] by (simp add: parse_ipv4_def comp_def)
qed

lemma v4_string_find:
  assumes "length b = 4"
  shows "find (\<lambda>c. c \<in> set ''.:%'') (v4_string b) = Some CHR ''.''"
proof -
  obtain w t where b: "b = w # t" and t: "t \<noteq> []"
    using assms by (cases b) (auto simp: length_Suc_conv numeral_eq_Suc)
  then have s: "v4_string b = nat_dec (unat w) @ CHR ''.'' # join_str ''.'' (map (nat_dec \<circ> unat) t)"
    by (simp add: v4_string_def join_str_Cons)
  have skip: "find P (xs @ c # ys) = Some c" if "\<And>x. x \<in> set xs \<Longrightarrow> \<not> P x" "P c" for P xs ys and c :: char
    using that by (induction xs) auto
  show ?thesis
    unfolding s by (rule skip) (auto dest!: nat_dec_digits simp: is_digit_def byte_def)
qed

text \<open>Printing an IPv4 address and parsing it gives the address, in its 16-byte form.\<close>

lemma parse_ip_v4_string: "length b = 4 \<Longrightarrow> parse_ip (ip_string b) = Some (v4_in_v6 b)"
  using v4_string_find [of b]
  by (cases "b = []") (simp_all add: ip_string_def to4_def parse_ip_def v4_roundtrip)

end
