(* ===== verification/MacAddr.thy ===== *)
theory MacAddr
  imports Env GoNet
begin

text \<open>
  MAC and client addresses of \<open>util/util.go\<close>: \<open>NormalizeMAC\<close> with its cache,
  \<open>ExtractMACOUI\<close>, \<open>GetMACFromARP\<close> and \<open>GetClientIP\<close>. The byte loop of
  \<open>NormalizeMAC\<close> is a fold over the input with the string builder and the flag
  \<open>hasContent\<close> as its state.

  The main lemma is that the loop computes a declarative specification: the maximal runs of
  hexadecimal digits between separators, in lower case, joined by single colons. Idempotence,
  the normal form and the vendor prefix follow from it.
\<close>

section \<open>NormalizeMAC\<close>

definition mac_sep :: "char \<Rightarrow> bool" where
  "mac_sep c \<longleftrightarrow> c \<in> {CHR ''-'', CHR ''.'', CHR '':'', CHR '' ''}"

text \<open>One iteration: the builder \<open>sb\<close>, the flag \<open>hasContent\<close>, the byte \<open>c\<close>.\<close>

fun norm_step :: "string \<times> bool \<Rightarrow> char \<Rightarrow> string \<times> bool" where
  "norm_step (sb, hasContent) c =
     (if is_digit c \<or> is_lower_hex c then (sb @ [c], True)
      else if is_upper_hex c then (sb @ [char_of (byte c + 32)], True)
      else if mac_sep c \<and> hasContent then
        (if sb \<noteq> [] \<and> last sb \<noteq> CHR '':'' then (sb @ '':'', hasContent) else (sb, hasContent))
      else (sb, hasContent))"

definition drop_trailing_colon :: "string \<Rightarrow> string" where
  "drop_trailing_colon s = (if s \<noteq> [] \<and> last s = CHR '':'' then butlast s else s)"

definition normalize_mac :: "string \<Rightarrow> string" where
  "normalize_mac mac =
     (if mac = '''' then ''''
      else drop_trailing_colon (fst (foldl norm_step ([], False) mac)))"

text \<open>With the cache of \<open>util.go\<close>.\<close>

definition NormalizeMAC :: "string \<Rightarrow> util_caches \<Rightarrow> string \<times> util_caches" where
  "NormalizeMAC mac st =
     (if mac = '''' then ('''', st)
      else case normalizedMACCache st mac of
        Some r \<Rightarrow> (r, st)
      | None \<Rightarrow>
          let result = normalize_mac mac
          in (result, st\<lparr>normalizedMACCache := (normalizedMACCache st)(mac \<mapsto> result)\<rparr>))"

section \<open>ExtractMACOUI, GetMACFromARP, GetClientIP\<close>

definition ExtractMACOUI :: "string \<Rightarrow> util_caches \<Rightarrow> string \<times> util_caches" where
  "ExtractMACOUI mac st =
     (let (normalized, st1) = NormalizeMAC mac st
      in if normalized = '''' then ('''', st1)
         else let parts = split_str '':'' normalized
           in if length parts < 3 then ('''', st1)
              else (parts ! 0 @ '':'' @ parts ! 1 @ '':'' @ parts ! 2, st1))"

text \<open>
  \<open>GetMACFromARP\<close> reads \<open>/proc/net/arp\<close> (\<open>None\<close> when the read fails) and falls back to
  the output of a command (\<open>None\<close> when it fails), given the program and its arguments.
\<close>

fun arp_find :: "string \<Rightarrow> string list \<Rightarrow> string option" where
  "arp_find ip [] = None"
| "arp_find ip (line # ls) =
     (let fs = str_fields line
      in if 4 \<le> length fs \<and> fs ! 0 = ip then Some (fs ! 3) else arp_find ip ls)"

definition arp_fallback ::
    "(string \<Rightarrow> string list \<Rightarrow> string option) \<Rightarrow> string \<Rightarrow> util_caches \<Rightarrow> string \<times> util_caches" where
  "arp_fallback run ip st =
     (case run ''arp'' [''-n'', ip] of
        None \<Rightarrow> ('''', st)
      | Some arpOut \<Rightarrow>
          let parts = split_str '' at '' arpOut
          in if 1 < length parts then NormalizeMAC (hd (split_str '' '' (parts ! 1))) st
             else ('''', st))"

definition GetMACFromARP ::
    "string option \<Rightarrow> (string \<Rightarrow> string list \<Rightarrow> string option) \<Rightarrow> string \<Rightarrow> util_caches \<Rightarrow>
     string \<times> util_caches" where
  "GetMACFromARP arp_file run ip st =
     (case arp_file of
        None \<Rightarrow> arp_fallback run ip st
      | Some out \<Rightarrow>
          (case arp_find ip (tl (split_str [char_of (10 :: nat)] out)) of
             Some hw \<Rightarrow> NormalizeMAC hw st
           | None \<Rightarrow> arp_fallback run ip st))"

text \<open>The dynamic type of \<open>w.RemoteAddr()\<close>: a UDP or TCP address, or anything else.\<close>

datatype net_addr = UDPAddr ip | TCPAddr ip | OtherAddr string

fun GetClientIP :: "net_addr \<Rightarrow> string" where
  "GetClientIP (UDPAddr a) = ip_string a"
| "GetClientIP (TCPAddr a) = ip_string a"
| "GetClientIP (OtherAddr s) =
     (case last_index CHR '':'' s of
        None \<Rightarrow> s
      | Some i \<Rightarrow> if 0 < i then take i s else s)"

section \<open>The specification of normalisation\<close>

definition mac_char :: "char \<Rightarrow> char option" where
  "mac_char c =
     (if is_digit c \<or> is_lower_hex c then Some c
      else if is_upper_hex c then Some (char_of (byte c + 32))
      else if mac_sep c then Some CHR '':''
      else None)"

definition mac_canon :: "string \<Rightarrow> string" where
  "mac_canon s = List.map_filter mac_char s"

definition mac_groups :: "string \<Rightarrow> string list" where
  "mac_groups s = filter (\<lambda>p. p \<noteq> []) (split_str '':'' (mac_canon s))"

definition mac_spec :: "string \<Rightarrow> string" where
  "mac_spec s = join_str '':'' (mac_groups s)"

lemma split_char_nonsep_snoc:
  "c \<noteq> d \<Longrightarrow> split_str [d] (s @ [c]) = butlast (split_str [d] s) @ [last (split_str [d] s) @ [c]]"
proof (induction s)
  case (Cons x s)
  then show ?case
    by (cases "split_str [d] s") (auto simp: split_char_Cons)
qed (simp add: split_char_Cons)

lemma split_char_sep_snoc: "split_str [d] (s @ [d]) = split_str [d] s @ [[]]"
proof (induction s)
  case (Cons x s)
  then show ?case
    by (cases "split_str [d] s") (auto simp: split_char_Cons)
qed (simp add: split_char_Cons)

lemma join_str_snoc:
  "join_str sep (ps @ [p]) = (if ps = [] then p else join_str sep ps @ sep @ p)"
  by (induction ps) (auto simp: join_str_Cons)

lemma mac_canon_snoc:
  "mac_canon (s @ [c]) = mac_canon s @ (case mac_char c of None \<Rightarrow> [] | Some x \<Rightarrow> [x])"
  by (simp add: mac_canon_def map_filter_def split: option.splits)

text \<open>A byte that reaches the builder is a lower-case hexadecimal digit, not a colon.\<close>

lemma colon_not_hex: "is_digit c \<or> is_lower_hex c \<Longrightarrow> c \<noteq> CHR '':''"
  by (auto simp: byte_defs)

lemma upper_to_lower: "is_upper_hex c \<Longrightarrow> is_lower_hex (char_of (byte c + 32))"
  by (simp add: is_upper_hex_def is_lower_hex_def)

lemma mac_char_hex:
  "is_digit c \<or> is_lower_hex c \<or> is_upper_hex c \<Longrightarrow>
     mac_char c = Some x \<Longrightarrow> (is_digit x \<or> is_lower_hex x) \<and> x \<noteq> CHR '':''"
  using upper_to_lower colon_not_hex by (auto simp: mac_char_def split: if_splits)

lemma mac_char_cases: "mac_char c = Some x \<Longrightarrow> is_digit x \<or> is_lower_hex x \<or> x = CHR '':''"
  using upper_to_lower by (auto simp: mac_char_def split: if_splits)

lemma mac_char_sep: "mac_sep c \<Longrightarrow> mac_char c = Some CHR '':''"
  by (auto simp: mac_char_def mac_sep_def byte_defs)

lemma mac_sep_not_hex: "mac_sep c \<Longrightarrow> \<not> is_digit c \<and> \<not> is_lower_hex c \<and> \<not> is_upper_hex c"
  by (auto simp: mac_sep_def byte_defs)

lemma mac_groups_hex: "p \<in> set (mac_groups s) \<Longrightarrow> c \<in> set p \<Longrightarrow> is_digit c \<or> is_lower_hex c"
proof -
  assume p: "p \<in> set (mac_groups s)" and c: "c \<in> set p"
  from p have split: "p \<in> set (split_str '':'' (mac_canon s))" by (simp add: mac_groups_def)
  then have "c \<noteq> CHR '':''" using split_char_pieces c by blast
  moreover from split c have "c \<in> set (mac_canon s)"
    using split_str_set by blast
  then have "\<exists>b. mac_char b = Some c"
    by (auto simp: mac_canon_def map_filter_def)
  ultimately show ?thesis
    using mac_char_cases by blast
qed

lemma mac_groups_nonempty: "p \<in> set (mac_groups s) \<Longrightarrow> p \<noteq> []"
  by (simp add: mac_groups_def)

lemma mac_groups_no_colon: "p \<in> set (mac_groups s) \<Longrightarrow> CHR '':'' \<notin> set p"
  using mac_groups_hex by (fastforce simp: byte_defs)

lemma last_join_str:
  "ps \<noteq> [] \<Longrightarrow> last ps \<noteq> [] \<Longrightarrow> join_str sep ps \<noteq> [] \<and> last (join_str sep ps) = last (last ps)"
  by (induction ps) (auto simp: join_str_Cons)

text \<open>
  The invariant of the loop after the bytes \<open>u\<close>: the builder holds the groups of \<open>u\<close>,
  followed by a colon when a separator has ended the last one.
\<close>

definition pending_colon :: "string \<Rightarrow> string" where
  "pending_colon u =
     (if mac_groups u \<noteq> [] \<and> last (split_str '':'' (mac_canon u)) = [] then '':'' else [])"

lemma mac_groups_last:
  assumes "last (split_str '':'' (mac_canon u)) \<noteq> []"
  shows "mac_groups u \<noteq> []" and "last (mac_groups u) = last (split_str '':'' (mac_canon u))"
proof -
  obtain xs y where S: "split_str '':'' (mac_canon u) = xs @ [y]"
    by (metis rev_exhaust split_str_nonempty)
  with assms show "mac_groups u \<noteq> []"
    and "last (mac_groups u) = last (split_str '':'' (mac_canon u))"
    by (simp_all add: mac_groups_def)
qed

lemma mac_groups_snoc_hex:
  assumes "mac_char c = Some x" "x \<noteq> CHR '':''"
  shows "mac_spec (u @ [c]) @ pending_colon (u @ [c]) = mac_spec u @ pending_colon u @ [x]"
    and "mac_groups (u @ [c]) \<noteq> []"
proof -
  obtain xs y where S: "split_str '':'' (mac_canon u) = xs @ [y]"
    by (metis rev_exhaust split_str_nonempty)
  define A where "A = filter (\<lambda>p. p \<noteq> []) xs"
  have S': "split_str '':'' (mac_canon (u @ [c])) = xs @ [y @ [x]]"
    using assms S by (simp add: mac_canon_snoc split_char_nonsep_snoc)
  have G: "mac_groups u = A @ (if y = [] then [] else [y])"
    by (simp add: mac_groups_def S A_def)
  have G': "mac_groups (u @ [c]) = A @ [y @ [x]]"
    by (simp add: mac_groups_def S' A_def)
  have none: "pending_colon (u @ [c]) = []"
    by (simp add: pending_colon_def S')
  show "mac_spec (u @ [c]) @ pending_colon (u @ [c]) = mac_spec u @ pending_colon u @ [x]"
    unfolding none by (auto simp: mac_spec_def G G' S join_str_snoc pending_colon_def)
  show "mac_groups (u @ [c]) \<noteq> []" by (simp add: G')
qed

lemma mac_groups_snoc_sep:
  assumes "mac_char c = Some CHR '':''"
  shows "mac_groups (u @ [c]) = mac_groups u"
    and "pending_colon (u @ [c]) = (if mac_groups u = [] then [] else '':'')"
  using assms
  by (simp_all add: mac_groups_def pending_colon_def mac_canon_snoc split_char_sep_snoc)

lemma norm_loop_inv:
  "foldl norm_step ([], False) u = (mac_spec u @ pending_colon u, mac_groups u \<noteq> [])"
proof (induction u rule: rev_induct)
  case Nil
  then show ?case
    by (simp add: mac_spec_def pending_colon_def mac_groups_def mac_canon_def map_filter_def)
next
  case (snoc c u)
  consider (hex) "is_digit c \<or> is_lower_hex c \<or> is_upper_hex c" | (sep) "mac_sep c"
    | (other) "\<not> (is_digit c \<or> is_lower_hex c \<or> is_upper_hex c)" "\<not> mac_sep c"
    by blast
  then show ?case
  proof cases
    case hex
    then have "mac_char c \<noteq> None" by (auto simp: mac_char_def)
    then obtain x where x: "mac_char c = Some x" by blast
    with hex have "x \<noteq> CHR '':''" using mac_char_hex by blast
    note snoc_hex = mac_groups_snoc_hex [OF x this, of u]
    from hex x snoc_hex show ?thesis
      by (auto simp: snoc mac_char_def split: if_splits)
  next
    case sep
    note colon = mac_groups_snoc_sep [OF mac_char_sep [OF sep], of u]
    show ?thesis
    proof (cases "mac_groups u = []")
      case True
      then show ?thesis
        using sep mac_sep_not_hex [OF sep] colon
        by (simp add: snoc mac_spec_def) (simp add: pending_colon_def)
    next
      case False
      have spec: "mac_spec u \<noteq> []" "last (mac_spec u) \<noteq> CHR '':''"
        using False last_join_str [of "mac_groups u" "'':''"] mac_groups_nonempty mac_groups_no_colon
        unfolding mac_spec_def by (metis last_in_set)+
      show ?thesis
        using sep mac_sep_not_hex [OF sep] colon False spec
        by (simp add: snoc mac_spec_def [of "u @ [c]"]) (auto simp: pending_colon_def mac_spec_def)
    qed
  next
    case other
    then have "mac_canon (u @ [c]) = mac_canon u"
      by (simp add: mac_canon_snoc mac_char_def)
    with other show ?thesis
      by (simp add: snoc mac_spec_def pending_colon_def mac_groups_def)
  qed
qed

section \<open>The loop meets its specification\<close>

lemma mac_spec_last:
  "mac_groups s \<noteq> [] \<Longrightarrow> mac_spec s \<noteq> [] \<and> last (mac_spec s) \<noteq> CHR '':''"
  using last_join_str [of "mac_groups s" "'':''"] mac_groups_nonempty mac_groups_no_colon
  unfolding mac_spec_def by (metis last_in_set)

lemma normalize_mac_spec: "normalize_mac mac = mac_spec mac"
proof (cases "mac_groups mac = []")
  case True
  then show ?thesis
    by (simp add: normalize_mac_def norm_loop_inv pending_colon_def drop_trailing_colon_def
        mac_spec_def)
next
  case False
  then have "mac \<noteq> ''''"
    by (auto simp: mac_groups_def mac_canon_def map_filter_def)
  with False mac_spec_last [OF False] show ?thesis
    by (simp add: normalize_mac_def norm_loop_inv pending_colon_def drop_trailing_colon_def)
qed

text \<open>
  The normal form: nothing, or groups of lower-case hexadecimal digits, none of them empty,
  separated by single colons.
\<close>

definition mac_normal :: "string \<Rightarrow> bool" where
  "mac_normal s \<longleftrightarrow>
     s = '''' \<or>
     (\<forall>p \<in> set (split_str '':'' s). p \<noteq> [] \<and> (\<forall>c \<in> set p. is_digit c \<or> is_lower_hex c))"

lemma split_mac_spec:
  "mac_groups s \<noteq> [] \<Longrightarrow> split_str '':'' (mac_spec s) = mac_groups s"
  unfolding mac_spec_def by (rule split_join) (auto dest: mac_groups_no_colon)

lemma normalize_mac_normal: "mac_normal (normalize_mac mac)"
proof (cases "mac_groups mac = []")
  case True
  then show ?thesis by (simp add: normalize_mac_spec mac_spec_def mac_normal_def)
next
  case False
  then show ?thesis
    unfolding normalize_mac_spec mac_normal_def split_mac_spec [OF False]
    using mac_groups_hex mac_groups_nonempty by blast
qed

lemma mac_canon_id:
  "(\<And>c. c \<in> set s \<Longrightarrow> is_digit c \<or> is_lower_hex c \<or> c = CHR '':'') \<Longrightarrow> mac_canon s = s"
proof (induction s)
  case (Cons c s)
  have colon: "mac_char CHR '':'' = Some CHR '':''"
    by (rule mac_char_sep) (simp add: mac_sep_def)
  have hex: "is_digit c \<or> is_lower_hex c \<Longrightarrow> mac_char c = Some c"
    by (simp add: mac_char_def)
  have "mac_char c = Some c"
    using Cons.prems [of c] hex colon by (metis list.set_intros(1))
  with Cons show ?case by (simp add: mac_canon_def map_filter_def)
qed (simp add: mac_canon_def map_filter_def)

lemma set_join_split: "c \<in> set s \<Longrightarrow> c = d \<or> (\<exists>p \<in> set (split_str [d] s). c \<in> set p)"
proof (induction s)
  case (Cons x s)
  then show ?case by (cases "split_str [d] s") (auto simp: split_char_Cons)
qed simp

lemma mac_groups_normal:
  assumes "mac_normal s" "s \<noteq> []"
  shows "mac_groups s = split_str '':'' s"
proof -
  from assms have pieces: "p \<in> set (split_str '':'' s) \<Longrightarrow>
      p \<noteq> [] \<and> (\<forall>c \<in> set p. is_digit c \<or> is_lower_hex c)" for p
    by (simp add: mac_normal_def)
  have "mac_canon s = s"
    using set_join_split pieces by (intro mac_canon_id) blast
  then show ?thesis using pieces by (simp add: mac_groups_def)
qed

text \<open>A string in normal form is its own normalisation, so normalising is idempotent.\<close>

lemma normalize_mac_id:
  assumes "mac_normal s"
  shows "normalize_mac s = s"
proof (cases "s = ''''")
  case False
  with assms show ?thesis
    by (simp add: normalize_mac_spec mac_spec_def mac_groups_normal join_split)
qed (simp add: normalize_mac_def)

lemma normalize_mac_idem: "normalize_mac (normalize_mac mac) = normalize_mac mac"
  by (rule normalize_mac_id [OF normalize_mac_normal])

section \<open>The cache is transparent\<close>

definition mac_cache_ok :: "util_caches \<Rightarrow> bool" where
  "mac_cache_ok st \<longleftrightarrow> (\<forall>k v. normalizedMACCache st k = Some v \<longrightarrow> v = normalize_mac k)"

lemma mac_cache_ok_empty [simp]: "mac_cache_ok empty_caches"
  by (simp add: mac_cache_ok_def empty_caches_def)

lemma normalize_mac_empty [simp]: "normalize_mac '''' = ''''"
  by (simp add: normalize_mac_def)

interpretation mac_memo: memo NormalizeMAC mac_cache_ok normalize_mac
proof
  fix st k assume ok: "mac_cache_ok st"
  show "fst (NormalizeMAC k st) = normalize_mac k"
    using ok by (auto simp: NormalizeMAC_def mac_cache_ok_def Let_def split: option.splits)
  show "mac_cache_ok (snd (NormalizeMAC k st))"
    using ok by (auto simp: NormalizeMAC_def mac_cache_ok_def Let_def split: option.splits)
qed

definition mac_oui :: "string \<Rightarrow> string" where
  "mac_oui mac =
     (if length (mac_groups mac) < 3 then ''''
      else join_str '':'' (take 3 (mac_groups mac)))"

lemma join_take_three:
  "3 \<le> length ps \<Longrightarrow> join_str sep (take 3 ps) = ps ! 0 @ sep @ ps ! 1 @ sep @ ps ! 2"
  by (cases ps; cases "tl ps"; cases "tl (tl ps)") (auto simp: numeral_3_eq_3)

lemma ExtractMACOUI_value:
  assumes "mac_cache_ok st"
  shows "fst (ExtractMACOUI mac st) = mac_oui mac"
proof -
  obtain st1 where n: "NormalizeMAC mac st = (mac_spec mac, st1)"
    using mac_memo.get_eq [OF assms] by (metis normalize_mac_spec)
  show ?thesis
  proof (cases "mac_groups mac = []")
    case True
    then have "mac_spec mac = ''''" by (simp add: mac_spec_def)
    with n True show ?thesis by (simp add: ExtractMACOUI_def mac_oui_def Let_def)
  next
    case False
    then have "mac_spec mac \<noteq> ''''" using mac_spec_last by blast
    then show ?thesis
      using n split_mac_spec [OF False] join_take_three [of "mac_groups mac" "'':''"]
      by (simp add: ExtractMACOUI_def mac_oui_def Let_def case_prod_beta)
  qed
qed

lemma ExtractMACOUI_state: "snd (ExtractMACOUI mac st) = snd (NormalizeMAC mac st)"
  by (simp add: ExtractMACOUI_def Let_def case_prod_beta)

interpretation oui_memo: memo ExtractMACOUI mac_cache_ok mac_oui
  by unfold_locales (simp_all add: ExtractMACOUI_value ExtractMACOUI_state mac_memo.get_inv)

text \<open>The groups are determined by the normal form, and a vendor prefix is in normal form.\<close>

lemma mac_spec_groups: "mac_groups (mac_spec mac) = mac_groups mac"
proof (cases "mac_groups mac = []")
  case True
  then show ?thesis by (simp add: mac_spec_def) (simp add: mac_groups_def mac_canon_def map_filter_def)
next
  case False
  then show ?thesis
    using mac_groups_normal [of "mac_spec mac"] normalize_mac_normal [of mac] mac_spec_last [OF False]
    by (simp add: normalize_mac_spec split_mac_spec)
qed

lemma oui_normal: "mac_normal (mac_oui mac)"
proof (cases "length (mac_groups mac) < 3")
  case False
  let ?G = "take 3 (mac_groups mac)"
  have sub: "p \<in> set ?G \<Longrightarrow> p \<in> set (mac_groups mac)" for p
    by (rule in_set_takeD)
  have "split_str '':'' (join_str '':'' ?G) = ?G"
    using False sub mac_groups_no_colon by (intro split_join) auto
  moreover have "\<forall>p \<in> set ?G. p \<noteq> [] \<and> (\<forall>c \<in> set p. is_digit c \<or> is_lower_hex c)"
    using sub mac_groups_hex mac_groups_nonempty by blast
  ultimately show ?thesis
    using False by (simp add: mac_oui_def mac_normal_def)
qed (simp add: mac_oui_def mac_normal_def)

text \<open>The ARP lookup answers in normal form too, whatever the table or the command print.\<close>

lemma arp_fallback_normal:
  assumes "mac_cache_ok st"
  shows "mac_normal (fst (arp_fallback run ip st)) \<and> mac_cache_ok (snd (arp_fallback run ip st))"
  using assms normalize_mac_normal
  by (auto simp: arp_fallback_def mac_normal_def [of "[]"] mac_memo.get_val mac_memo.get_inv Let_def
      split: option.splits)

lemma GetMACFromARP_normal:
  assumes "mac_cache_ok st"
  shows "mac_normal (fst (GetMACFromARP file run ip st)) \<and>
    mac_cache_ok (snd (GetMACFromARP file run ip st))"
  using assms normalize_mac_normal arp_fallback_normal [OF assms]
  by (auto simp: GetMACFromARP_def mac_memo.get_val mac_memo.get_inv split: option.splits)

section \<open>Properties\<close>

text \<open>
  C34: \<open>NormalizeMAC\<close> computes its specification, with any coherent cache. The result is the
  maximal runs of hexadecimal digits of the input, in lower case, joined by single colons; it
  is in normal form; normalising it again, with the cache as it then is, changes nothing; and
  the cache stays coherent.
\<close>

theorem NormalizeMAC_spec:
  assumes "mac_cache_ok st"
  shows "fst (NormalizeMAC mac st) = join_str '':'' (mac_groups mac) \<and>
    mac_normal (fst (NormalizeMAC mac st)) \<and>
    fst (NormalizeMAC (fst (NormalizeMAC mac st)) (snd (NormalizeMAC mac st)))
      = fst (NormalizeMAC mac st) \<and>
    mac_cache_ok (snd (NormalizeMAC mac st))"
  using mac_memo.get_val [OF assms, of mac] mac_memo.get_inv [OF assms, of mac]
    mac_memo.get_twice [OF assms, of "normalize_mac mac" mac]
  by (simp add: normalize_mac_normal normalize_mac_idem)
    (simp add: normalize_mac_spec mac_spec_def)

theorem NormalizeMAC_spec_witness:
  "fst (NormalizeMAC ''AA-bb.0C '' empty_caches) = join_str '':'' (mac_groups ''AA-bb.0C '')"
  using NormalizeMAC_spec [OF mac_cache_ok_empty] by blast

text \<open>
  \<open>ExtractMACOUI\<close> returns the first three groups of the normalised address, joined by
  colons, or nothing when there are fewer than three; whatever it returns is in normal form,
  and normalising the address first makes no difference.
\<close>

theorem ExtractMACOUI_spec:
  assumes "mac_cache_ok st"
  shows "fst (ExtractMACOUI mac st) =
      (if length (mac_groups mac) < 3 then ''''
       else join_str '':'' (take 3 (mac_groups mac))) \<and>
    mac_normal (fst (ExtractMACOUI mac st)) \<and>
    fst (ExtractMACOUI (normalize_mac mac) st) = fst (ExtractMACOUI mac st)"
proof -
  have groups: "mac_groups (normalize_mac mac) = mac_groups mac"
    by (metis normalize_mac_idem normalize_mac_spec mac_spec_groups)
  have "mac_normal (mac_oui mac)"
    using oui_normal by blast
  with groups show ?thesis
    by (simp add: oui_memo.get_val [OF assms] mac_oui_def)
qed

text \<open>
  In the dotted notation of three groups of four digits, the "vendor prefix" is the whole
  address: \<open>ExtractMACOUI\<close> counts groups, not octets, so it never equals a configured
  prefix of three octets.
\<close>

theorem ExtractMACOUI_dotted:
  "fst (ExtractMACOUI ''6857.2d00.1122'' empty_caches) = ''6857:2d00:1122''"
  by (simp add: oui_memo.get_val mac_oui_def mac_groups_def mac_canon_def map_filter_def
      mac_char_def mac_sep_def byte_defs)

end
