(* ===== verification/GoCache.thy ===== *)
theory GoCache
  imports Prelude
begin

text \<open>
  The third-party package \<open>github.com/patrickmn/go-cache\<close>, which two components use. Its
  code is not part of the repository, so its operations are the fields of a record that the
  definitions take as an argument, and \<open>gocache_laws\<close> states the documented behaviour the
  code relies on: an item set with a positive lifetime is found, with its expiration time,
  until that time has passed, and other keys are not affected; \<open>Items\<close> is the unexpired
  content. Lifetimes are nanoseconds; \<open>DefaultExpiration\<close> is 0 and the code passes positive
  lifetimes only, or 0. The janitor of the package removes expired items only, which no
  operation can observe.

  The instance \<open>alist_cache\<close> shows that the laws can be met.
\<close>

record ('c, 'v) gocache =
  gc_new :: "duration \<Rightarrow> 'c" \<comment> \<open>\<open>New(defaultExpiration, _)\<close>\<close>
  gc_get :: "'c \<Rightarrow> nanos \<Rightarrow> string \<Rightarrow> 'v option" \<comment> \<open>\<open>Get\<close> at a time\<close>
  gc_get_exp :: "'c \<Rightarrow> nanos \<Rightarrow> string \<Rightarrow> ('v \<times> nanos) option" \<comment> \<open>\<open>GetWithExpiration\<close>\<close>
  gc_set :: "'c \<Rightarrow> nanos \<Rightarrow> string \<Rightarrow> 'v \<Rightarrow> duration \<Rightarrow> 'c" \<comment> \<open>\<open>Set\<close> at a time\<close>
  gc_items :: "'c \<Rightarrow> nanos \<Rightarrow> (string \<times> 'v \<times> nanos) list" \<comment> \<open>\<open>Items\<close>, with expirations\<close>

definition gocache_laws :: "('c, 'v) gocache \<Rightarrow> bool" where
  "gocache_laws G \<longleftrightarrow>
     (\<forall>d t k. gc_get_exp G (gc_new G d) t k = None) \<and>
     (\<forall>c t k. gc_get G c t k = map_option fst (gc_get_exp G c t k)) \<and>
     (\<forall>c now t k k' v d. 0 < d \<longrightarrow>
        gc_get_exp G (gc_set G c now k v d) t k' =
          (if k' = k then (if t \<le> now + d then Some (v, now + d) else None)
           else gc_get_exp G c t k')) \<and>
     (\<forall>c t. distinct (map fst (gc_items G c t))) \<and>
     (\<forall>c t k. map_of (gc_items G c t) k = gc_get_exp G c t k)"

lemma gc_new_get: "gocache_laws G \<Longrightarrow> gc_get_exp G (gc_new G d) t k = None"
  unfolding gocache_laws_def by metis

lemma gc_get_of_exp: "gocache_laws G \<Longrightarrow> gc_get G c t k = map_option fst (gc_get_exp G c t k)"
  unfolding gocache_laws_def by metis

lemma gc_get_exp_set:
  "gocache_laws G \<Longrightarrow> 0 < d \<Longrightarrow>
     gc_get_exp G (gc_set G c now k v d) t k' =
       (if k' = k then (if t \<le> now + d then Some (v, now + d) else None) else gc_get_exp G c t k')"
  unfolding gocache_laws_def by metis

lemma gc_get_set:
  "gocache_laws G \<Longrightarrow> 0 < d \<Longrightarrow>
     gc_get G (gc_set G c now k v d) t k' =
       (if k' = k then (if t \<le> now + d then Some v else None) else gc_get G c t k')"
  by (simp add: gc_get_of_exp gc_get_exp_set)

lemma gc_items_map: "gocache_laws G \<Longrightarrow> map_of (gc_items G c t) k = gc_get_exp G c t k"
  unfolding gocache_laws_def by metis

lemma gc_items_distinct: "gocache_laws G \<Longrightarrow> distinct (map fst (gc_items G c t))"
  unfolding gocache_laws_def by metis

section \<open>An instance\<close>

type_synonym 'v alist_store = "(string \<times> 'v \<times> nanos) list"

definition alive :: "nanos \<Rightarrow> 'v alist_store \<Rightarrow> 'v alist_store" where
  "alive t c = filter (\<lambda>(k, v, e). t \<le> e) (AList.clearjunk c)"

definition alist_cache :: "('v alist_store, 'v) gocache" where
  "alist_cache =
     \<lparr>gc_new = (\<lambda>d. []),
      gc_get = (\<lambda>c t k. map_option fst (map_of (alive t c) k)),
      gc_get_exp = (\<lambda>c t k. map_of (alive t c) k),
      gc_set = (\<lambda>c now k v d. AList.update k (v, now + d) c),
      gc_items = (\<lambda>c t. alive t c)\<rparr>"

lemma map_of_filter_distinct:
  "distinct (map fst xs) \<Longrightarrow>
     map_of (filter (\<lambda>(k, v). P v) xs) k =
       (case map_of xs k of None \<Rightarrow> None | Some v \<Rightarrow> if P v then Some v else None)"
  by (induction xs) (auto split: option.splits simp: map_of_eq_None_iff image_iff)

lemma map_of_alive:
  "map_of (alive t c) k =
     (case map_of c k of None \<Rightarrow> None | Some ve \<Rightarrow> if t \<le> snd ve then Some ve else None)"
proof -
  have "alive t c = filter (\<lambda>(k, ve). t \<le> snd ve) (AList.clearjunk c)"
    unfolding alive_def by (rule filter_cong) auto
  then show ?thesis
    by (simp add: map_of_filter_distinct distinct_clearjunk map_of_clearjunk)
qed

lemma distinct_alive: "distinct (map fst (alive t c))"
  unfolding alive_def by (simp add: distinct_map_filter distinct_clearjunk)

lemma alist_cache_laws: "gocache_laws alist_cache"
  by (simp add: gocache_laws_def alist_cache_def map_of_alive map_of_update distinct_alive)

end
