(* ===== verification/ClientRouting.thy ===== *)
theory ClientRouting
  imports Config MacAddr GoCache
begin

text \<open>
  Client routing, \<open>clientrouting/clientrouting.go\<close>: the three sets of clients that use the
  public servers only, by address, MAC and vendor prefix, how they are filled from the
  configuration, and the decision for a client, with the MAC addresses looked up in the ARP
  table and cached for three minutes in a go-cache (the parameter \<open>G\<close>).

  A \<open>sync.Map\<close> whose values are all \<open>true\<close> is a set. Loading from the MAC cache before
  \<open>InitializeClientRouting\<close> dereferences a nil pointer, a panic.
\<close>

definition macCacheTTL :: duration where "macCacheTTL = 3 * minute"

record 'c client_state =
  PublicOnlyClientsMap :: "string set"
  PublicOnlyClientMACsMap :: "string set"
  PublicOnlyClientOUIMap :: "string set"
  macCache :: "'c option"
  mac_utils :: util_caches \<comment> \<open>the caches of \<open>util.go\<close>\<close>

definition client_init :: "'c client_state" where
  "client_init = \<lparr>PublicOnlyClientsMap = {}, PublicOnlyClientMACsMap = {},
     PublicOnlyClientOUIMap = {}, macCache = None, mac_utils = empty_caches\<rparr>"

text \<open>What \<open>GetMACFromARP\<close> reads: the ARP file, and the output of a command.\<close>

record arp_world =
  arp_file :: "string option"
  arp_run :: "string \<Rightarrow> string list \<Rightarrow> string option"

section \<open>Filling the sets\<close>

fun storeClientsToMap :: "string list \<Rightarrow> string set \<Rightarrow> string set" where
  "storeClientsToMap [] m = m"
| "storeClientsToMap (client # cs) m =
     storeClientsToMap cs (if client \<noteq> '''' then insert (trim_space client) m else m)"

fun storeMACsToMap :: "string list \<Rightarrow> string set \<times> util_caches \<Rightarrow> string set \<times> util_caches" where
  "storeMACsToMap [] mu = mu"
| "storeMACsToMap (mac # ms) (m, u) =
     (let (macNorm, u') = NormalizeMAC mac u
      in storeMACsToMap ms (if macNorm \<noteq> '''' then (insert macNorm m, u') else (m, u')))"

fun storeOUIsToMap :: "string list \<Rightarrow> string set \<times> util_caches \<Rightarrow> string set \<times> util_caches" where
  "storeOUIsToMap [] mu = mu"
| "storeOUIsToMap (oui # os) (m, u) =
     (let (ouiNorm, u') = NormalizeMAC oui u
      in storeOUIsToMap os (if ouiNorm \<noteq> '''' then (insert ouiNorm m, u') else (m, u')))"

definition InitializeClientRouting ::
    "('c, string) gocache \<Rightarrow> Config \<Rightarrow> 'c client_state \<Rightarrow> 'c client_state" where
  "InitializeClientRouting G c s =
     (if \<not> EnableClientRouting c then s
      else let ips = storeClientsToMap (PublicOnlyClients c) (PublicOnlyClientsMap s);
               (macs, u1) = storeMACsToMap (PublicOnlyClientMACs c)
                              (PublicOnlyClientMACsMap s, mac_utils s);
               (ouis, u2) = storeOUIsToMap (PublicOnlyClientMACOUIs c)
                              (PublicOnlyClientOUIMap s, u1)
           in s\<lparr>PublicOnlyClientsMap := ips, PublicOnlyClientMACsMap := macs,
                PublicOnlyClientOUIMap := ouis, macCache := Some (gc_new G macCacheTTL),
                mac_utils := u2\<rparr>)"

section \<open>The decision\<close>

datatype client_panic = NilMacCache

definition getMACWithCache ::
    "('c, string) gocache \<Rightarrow> arp_world \<Rightarrow> nanos \<Rightarrow> string \<Rightarrow> 'c client_state \<Rightarrow>
     (client_panic + string) \<times> 'c client_state" where
  "getMACWithCache G w now clientIP s =
     (case macCache s of
        None \<Rightarrow> (Inl NilMacCache, s)
      | Some c \<Rightarrow>
          (case gc_get G c now clientIP of
             Some mac \<Rightarrow> (Inr mac, s)
           | None \<Rightarrow>
               let (mac, u) = GetMACFromARP (arp_file w) (arp_run w) clientIP (mac_utils s)
               in (Inr mac, s\<lparr>macCache := Some (gc_set G c now clientIP mac macCacheTTL),
                              mac_utils := u\<rparr>)))"

definition ShouldUsePublicServers ::
    "('c, string) gocache \<Rightarrow> Config \<Rightarrow> arp_world \<Rightarrow> nanos \<Rightarrow> string \<Rightarrow> 'c client_state \<Rightarrow>
     (client_panic + bool) \<times> 'c client_state" where
  "ShouldUsePublicServers G c w now clientIP s =
     (if \<not> EnableClientRouting c then (Inr False, s)
      else if clientIP \<in> PublicOnlyClientsMap s then (Inr True, s)
      else case getMACWithCache G w now clientIP s of
        (Inl e, s1) \<Rightarrow> (Inl e, s1)
      | (Inr mac, s1) \<Rightarrow>
          if mac \<noteq> '''' then
            (if mac \<in> PublicOnlyClientMACsMap s1 then (Inr True, s1)
             else let (oui, u) = ExtractMACOUI mac (mac_utils s1); s2 = s1\<lparr>mac_utils := u\<rparr>
               in if oui \<noteq> '''' \<and> oui \<in> PublicOnlyClientOUIMap s2 then (Inr True, s2)
                  else (Inr False, s2))
          else (Inr False, s1))"

section \<open>What the sets hold\<close>

lemma storeClientsToMap_set:
  "storeClientsToMap cs m = m \<union> trim_space ` {c \<in> set cs. c \<noteq> ''''}"
  by (induction cs arbitrary: m) auto

lemma storeMACsToMap_set:
  "mac_cache_ok u \<Longrightarrow>
     fst (storeMACsToMap ms (m, u)) = m \<union> (normalize_mac ` set ms - {''''}) \<and>
     mac_cache_ok (snd (storeMACsToMap ms (m, u)))"
proof (induction ms arbitrary: m u)
  case (Cons mac ms)
  have ok: "mac_cache_ok (snd (NormalizeMAC mac u))"
    using Cons.prems by (rule mac_memo.get_inv)
  show ?case
    using Cons.IH [OF ok] mac_memo.get_val [OF Cons.prems, of mac]
    by (auto simp: case_prod_beta Let_def)
qed simp

lemma storeOUIsToMap_MACs: "storeOUIsToMap os mu = storeMACsToMap os mu"
  by (induction os mu rule: storeOUIsToMap.induct) (auto simp: Let_def case_prod_beta)

text \<open>The state after start-up, kept by every call.\<close>

definition client_sets :: "Config \<Rightarrow> 'c client_state \<Rightarrow> bool" where
  "client_sets c s \<longleftrightarrow>
     PublicOnlyClientsMap s = trim_space ` {x \<in> set (PublicOnlyClients c). x \<noteq> ''''} \<and>
     PublicOnlyClientMACsMap s = normalize_mac ` set (PublicOnlyClientMACs c) - {''''} \<and>
     PublicOnlyClientOUIMap s = normalize_mac ` set (PublicOnlyClientMACOUIs c) - {''''} \<and>
     macCache s \<noteq> None"

definition client_inv :: "Config \<Rightarrow> 'c client_state \<Rightarrow> bool" where
  "client_inv c s \<longleftrightarrow> (EnableClientRouting c \<longrightarrow> client_sets c s) \<and> mac_cache_ok (mac_utils s)"

lemma client_inv_init: "client_inv c (InitializeClientRouting G c client_init)"
proof -
  obtain m1 u1 where 1: "storeMACsToMap (PublicOnlyClientMACs c) ({}, empty_caches) = (m1, u1)"
    by fastforce
  obtain m2 u2 where 2: "storeMACsToMap (PublicOnlyClientMACOUIs c) ({}, u1) = (m2, u2)"
    by fastforce
  have "mac_cache_ok u1"
    using storeMACsToMap_set [of empty_caches "PublicOnlyClientMACs c" "{}"] 1 by simp
  then show ?thesis
    using 1 2 storeMACsToMap_set [of empty_caches "PublicOnlyClientMACs c" "{}"]
      storeMACsToMap_set [of u1 "PublicOnlyClientMACOUIs c" "{}"]
    by (simp add: InitializeClientRouting_def client_inv_def client_sets_def client_init_def
        storeOUIsToMap_MACs storeClientsToMap_set)
qed

text \<open>The address the ARP table and the command give, with no cache involved.\<close>

definition arp_mac :: "arp_world \<Rightarrow> string \<Rightarrow> string" where
  "arp_mac w ip = fst (GetMACFromARP (arp_file w) (arp_run w) ip empty_caches)"

lemma arp_mac_any:
  "mac_cache_ok u \<Longrightarrow> fst (GetMACFromARP (arp_file w) (arp_run w) ip u) = arp_mac w ip"
  by (auto simp: arp_mac_def GetMACFromARP_def arp_fallback_def mac_memo.get_val Let_def
      split: option.splits)

definition mac_seen :: "('c, string) gocache \<Rightarrow> arp_world \<Rightarrow> nanos \<Rightarrow> string \<Rightarrow> 'c client_state \<Rightarrow> string" where
  "mac_seen G w now ip s =
     (case gc_get G (the (macCache s)) now ip of Some mac \<Rightarrow> mac | None \<Rightarrow> arp_mac w ip)"

lemma getMACWithCache_inv:
  assumes "client_inv c s" and "EnableClientRouting c"
  shows "fst (getMACWithCache G w now ip s) = Inr (mac_seen G w now ip s)"
    and "client_inv c (snd (getMACWithCache G w now ip s))"
  using assms arp_mac_any [of "mac_utils s" w ip]
    GetMACFromARP_normal [of "mac_utils s" "arp_file w" "arp_run w" ip]
  by (auto simp: getMACWithCache_def mac_seen_def client_inv_def client_sets_def Let_def
      split: option.splits prod.splits)

text \<open>The rule the decision follows, on the configuration alone.\<close>

definition public_only :: "Config \<Rightarrow> string \<Rightarrow> string \<Rightarrow> bool" where
  "public_only c ip mac \<longleftrightarrow>
     (\<exists>x \<in> set (PublicOnlyClients c). x \<noteq> '''' \<and> trim_space x = ip) \<or>
     mac \<noteq> '''' \<and>
       ((\<exists>m \<in> set (PublicOnlyClientMACs c). normalize_mac m = mac) \<or>
        (3 \<le> length (mac_groups mac) \<and>
          (\<exists>m \<in> set (PublicOnlyClientMACOUIs c).
             normalize_mac m = join_str '':'' (take 3 (mac_groups mac)))))"


lemma join_nonempty: "3 \<le> length ps \<Longrightarrow> join_str '':'' (take 3 ps) \<noteq> ''''"
  by (simp add: join_take_three)

lemma public_only_sets:
  assumes "client_sets c s"
  shows "public_only c ip mac \<longleftrightarrow>
    ip \<in> PublicOnlyClientsMap s \<or>
    mac \<noteq> '''' \<and> (mac \<in> PublicOnlyClientMACsMap s \<or>
      (mac_oui mac \<noteq> '''' \<and> mac_oui mac \<in> PublicOnlyClientOUIMap s))"
  using assms join_nonempty [of "mac_groups mac"]
  by (auto simp: public_only_def client_sets_def mac_oui_def image_iff) metis+

lemma client_inv_utils:
  "client_inv c s \<Longrightarrow> mac_cache_ok u \<Longrightarrow> client_inv c (s\<lparr>mac_utils := u\<rparr>)"
  by (simp add: client_inv_def client_sets_def)

lemma ShouldUse_value:
  assumes "client_inv c s"
  shows "fst (ShouldUsePublicServers G c w now ip s) =
      Inr (EnableClientRouting c \<and> public_only c ip (mac_seen G w now ip s))"
    and "client_inv c (snd (ShouldUsePublicServers G c w now ip s))"
proof -
  let ?mac = "mac_seen G w now ip s"
  have "fst (ShouldUsePublicServers G c w now ip s) = Inr (public_only c ip ?mac) \<and>
      client_inv c (snd (ShouldUsePublicServers G c w now ip s))" if on: "EnableClientRouting c"
  proof -
    obtain s1 where g: "getMACWithCache G w now ip s = (Inr ?mac, s1)" and inv: "client_inv c s1"
      using getMACWithCache_inv [OF assms on] by (metis prod.collapse)
    have ok: "mac_cache_ok (mac_utils s1)" and sets: "client_sets c s1" "client_sets c s"
      using inv assms on by (simp_all add: client_inv_def)
    obtain u where x: "ExtractMACOUI ?mac (mac_utils s1) = (mac_oui ?mac, u)" and u: "mac_cache_ok u"
      using oui_memo.get_eq [OF ok, of ?mac] oui_memo.get_inv [OF ok, of ?mac] by blast
    have same: "PublicOnlyClientsMap s1 = PublicOnlyClientsMap s"
      using sets by (simp add: client_sets_def)
    show ?thesis
      using public_only_sets [OF sets(1), of ip ?mac] on assms inv client_inv_utils [OF inv u]
      by (auto simp: ShouldUsePublicServers_def g x same Let_def)
  qed
  then show "fst (ShouldUsePublicServers G c w now ip s) = Inr (EnableClientRouting c \<and> public_only c ip ?mac)"
    and "client_inv c (snd (ShouldUsePublicServers G c w now ip s))"
    using assms by (cases "EnableClientRouting c"; simp add: ShouldUsePublicServers_def)+
qed

text \<open>The interface of the server selection: a decision that never panics and keeps the state.\<close>

locale client_policy =
  fixes decide :: "'t \<Rightarrow> string \<Rightarrow> 's \<Rightarrow> (client_panic + bool) \<times> 's"
    and policy_inv :: "'s \<Rightarrow> bool"
  assumes decide_total: "policy_inv s \<Longrightarrow> \<exists>b. fst (decide t ip s) = Inr b"
    and decide_inv: "policy_inv s \<Longrightarrow> policy_inv (snd (decide t ip s))"
begin

lemma decide_cases:
  assumes "policy_inv s"
  obtains b s' where "decide t ip s = (Inr b, s')" "policy_inv s'"
  using decide_total [OF assms] decide_inv [OF assms] by (metis prod.collapse)

end

interpretation routed_clients: client_policy
    "\<lambda>(w, now). ShouldUsePublicServers G c w now" "client_inv c" for G c
  by unfold_locales (auto simp: ShouldUse_value split: prod.splits)

section \<open>Properties\<close>

text \<open>
  C28: after start-up the decision follows the configuration. A client is sent to the public
  servers only when client routing is on and its address is listed (after trimming), or its
  MAC address, from the cache or else the ARP table, is listed or has a listed vendor prefix;
  the decision never panics and keeps the state.
\<close>

theorem ShouldUsePublicServers_spec:
  assumes "client_inv c s"
  shows "fst (ShouldUsePublicServers G c w now ip s) =
      Inr (EnableClientRouting c \<and> public_only c ip
        (case gc_get G (the (macCache s)) now ip of Some mac \<Rightarrow> mac | None \<Rightarrow> arp_mac w ip)) \<and>
    client_inv c (snd (ShouldUsePublicServers G c w now ip s))"
  using ShouldUse_value [OF assms] by (simp add: mac_seen_def)

definition phone_config :: Config where
  "phone_config = (pure_config (\<lambda>_. ''''))
     \<lparr>EnableClientRouting := True, PublicOnlyClientMACOUIs := [''68-57-2D'']\<rparr>"

definition phone_world :: arp_world where
  "phone_world = \<lparr>arp_file = Some (''IP address'' @ [CHR 0x0A] @ ''10.0.0.7 0x1 0x2 68:57:2d:00:11:22 * eth0''),
     arp_run = (\<lambda>p a. None)\<rparr>"

lemma phone_routing: "EnableClientRouting phone_config" "PublicOnlyClients phone_config = []"
  "PublicOnlyClientMACs phone_config = []" "PublicOnlyClientMACOUIs phone_config = [''68-57-2D'']"
  by (simp_all add: phone_config_def pure_config_def unset_env GetEnvStringSlice_eq)

lemma char_d: "char_of (100 :: nat) = CHR ''d''"
  by code_simp

lemma phone_mac: "arp_mac phone_world ''10.0.0.7'' = ''68:57:2d:00:11:22''"
proof -
  have "str_fields ''10.0.0.7 0x1 0x2 68:57:2d:00:11:22 * eth0'' =
      [''10.0.0.7'', ''0x1'', ''0x2'', ''68:57:2d:00:11:22'', ''*'', ''eth0'']"
    by (simp add: str_fields_def space_len_plain space_len_blank plain_byte_ascii byte_def)
  moreover have "normalize_mac ''68:57:2d:00:11:22'' = ''68:57:2d:00:11:22''"
    by (rule normalize_mac_id) (simp add: mac_normal_def byte_defs)
  ultimately show ?thesis
    by (simp add: arp_mac_def GetMACFromARP_def phone_world_def newline_char mac_memo.get_val)
qed

lemma phone_public: "public_only phone_config ''10.0.0.7'' ''68:57:2d:00:11:22''"
  by (simp add: public_only_def phone_routing mac_groups_def mac_canon_def map_filter_def
      mac_char_def mac_sep_def byte_defs normalize_mac_spec mac_spec_def numeral_3_eq_3 char_d)

lemma phone_cache: "macCache (InitializeClientRouting alist_cache phone_config client_init) = Some []"
  by (simp add: InitializeClientRouting_def phone_routing alist_cache_def case_prod_beta Let_def)

lemma phone_mac_seen:
  "mac_seen alist_cache phone_world 0 ''10.0.0.7''
     (InitializeClientRouting alist_cache phone_config client_init) = ''68:57:2d:00:11:22''"
  by (simp only: mac_seen_def phone_cache option.sel)
    (simp add: alist_cache_def alive_def phone_mac)

lemma ShouldUsePublicServers_spec_witness:
  "fst (ShouldUsePublicServers alist_cache phone_config phone_world 0 ''10.0.0.7''
     (InitializeClientRouting alist_cache phone_config client_init)) = Inr True"
proof -
  let ?s = "InitializeClientRouting alist_cache phone_config client_init"
  have inv: "client_inv phone_config ?s"
    by (rule client_inv_init)
  have "macCache ?s = Some []"
    by (simp add: InitializeClientRouting_def phone_routing alist_cache_def case_prod_beta Let_def)
  then have miss: "gc_get alist_cache (the (macCache ?s)) 0 ''10.0.0.7'' = None"
    by (simp add: alist_cache_def alive_def)
  note phone_public
  with ShouldUsePublicServers_spec [OF inv, of alist_cache phone_world 0 "''10.0.0.7''"] miss
  show ?thesis
    by (simp add: phone_mac phone_routing)
qed

text \<open>
  C39: how stale a decision can be. After a lookup that found no cached MAC address, the client
  gets the same decision for three minutes whatever the ARP table says meanwhile; after that
  the decision follows the ARP table again.
\<close>

theorem ShouldUsePublicServers_stale:
  fixes w w' :: arp_world
  assumes "gocache_laws G" and "client_inv c s" and "ip \<notin> PublicOnlyClientsMap s"
    and "gc_get G (the (macCache s)) now ip = None" and "EnableClientRouting c"
  defines "s1 \<equiv> snd (ShouldUsePublicServers G c w now ip s)"
  shows "(t \<le> now + 3 * minute \<longrightarrow>
      fst (ShouldUsePublicServers G c w' t ip s1) = fst (ShouldUsePublicServers G c w now ip s)) \<and>
    (now + 3 * minute < t \<longrightarrow>
      fst (ShouldUsePublicServers G c w' t ip s1) = Inr (public_only c ip (arp_mac w' ip)))"
proof -
  have inv: "client_inv c s1"
    unfolding s1_def by (rule ShouldUse_value(2) [OF assms(2)])
  obtain m where m: "macCache s = Some m"
    using assms(2,5) by (auto simp: client_inv_def client_sets_def)
  have ok: "mac_cache_ok (mac_utils s)"
    using assms(2) by (simp add: client_inv_def)
  have "macCache s1 = Some (gc_set G m now ip (arp_mac w ip) macCacheTTL)"
    using assms(3-5) m arp_mac_any [OF ok, of w ip]
    by (auto simp: s1_def ShouldUsePublicServers_def getMACWithCache_def Let_def
        split: prod.splits if_splits)
  moreover have "0 < macCacheTTL"
    by (simp add: macCacheTTL_def unit_defs)
  ultimately have "mac_seen G w' t ip s1 =
      (if t \<le> now + macCacheTTL then arp_mac w ip else
        (case gc_get G (the (macCache s1)) t ip of Some mac \<Rightarrow> mac | None \<Rightarrow> arp_mac w' ip))"
    by (simp add: mac_seen_def gc_get_set [OF assms(1)])
  moreover have "now + macCacheTTL < t \<Longrightarrow> gc_get G (the (macCache s1)) t ip = None"
    using \<open>0 < macCacheTTL\<close> \<open>macCache s1 = _\<close> by (simp add: gc_get_set [OF assms(1)])
  moreover have "mac_seen G w now ip s = arp_mac w ip"
    by (simp add: mac_seen_def assms(4))
  ultimately show ?thesis
    using ShouldUse_value(1) [OF inv, of G w' t ip] ShouldUse_value(1) [OF assms(2), of G w now ip]
    by (auto simp: macCacheTTL_def assms(5))
qed

lemma ShouldUsePublicServers_stale_witness:
  "\<exists>s. fst (ShouldUsePublicServers alist_cache phone_config (phone_world\<lparr>arp_file := None\<rparr>) minute
     ''10.0.0.7'' s) = Inr True"
proof -
  let ?s = "InitializeClientRouting alist_cache phone_config client_init"
  have inv: "client_inv phone_config ?s"
    by (rule client_inv_init)
  have "macCache ?s = Some []" and ip: "''10.0.0.7'' \<notin> PublicOnlyClientsMap ?s"
    by (simp_all add: InitializeClientRouting_def phone_routing alist_cache_def case_prod_beta Let_def
        client_init_def)
  then have miss: "gc_get alist_cache (the (macCache ?s)) 0 ''10.0.0.7'' = None"
    by (simp add: alist_cache_def alive_def)
  note pub = phone_public
  have first: "fst (ShouldUsePublicServers alist_cache phone_config phone_world 0 ''10.0.0.7'' ?s) = Inr True"
    using ShouldUse_value(1) [OF inv, of alist_cache phone_world 0 "''10.0.0.7''"] miss pub
    by (simp add: mac_seen_def phone_mac phone_routing)
  show ?thesis
    using ShouldUsePublicServers_stale [OF alist_cache_laws inv ip miss phone_routing(1),
        where w = phone_world and t = minute and w' = "phone_world\<lparr>arp_file := None\<rparr>"] first
    by (auto simp: unit_defs)
qed

text \<open>
  A configured vendor prefix takes effect only when its normal form has exactly three
  groups; any other entry, such as six digits without separator or a prefix of more than
  three octets, is stored and never matches any client.
\<close>

theorem vendor_prefix_three_groups:
  "fst (ShouldUsePublicServers G c w now ip (InitializeClientRouting G c client_init)) =
   (let c' = c\<lparr>PublicOnlyClientMACOUIs :=
       filter (\<lambda>p. length (mac_groups p) = 3) (PublicOnlyClientMACOUIs c)\<rparr>
    in fst (ShouldUsePublicServers G c' w now ip (InitializeClientRouting G c' client_init)))"
proof (cases "EnableClientRouting c")
  case False
  then show ?thesis
    by (simp add: ShouldUsePublicServers_def Let_def)
next
  case True
  define c' where "c' = c\<lparr>PublicOnlyClientMACOUIs :=
       filter (\<lambda>p. length (mac_groups p) = 3) (PublicOnlyClientMACOUIs c)\<rparr>"
  have on: "EnableClientRouting c'"
    using True by (simp add: c'_def)
  have groups: "length (mac_groups m) = 3"
    if "normalize_mac m = join_str '':'' (take 3 (mac_groups mac))" "3 \<le> length (mac_groups mac)" for m mac
  proof -
    have "mac_groups m = mac_groups (normalize_mac m)"
      by (simp add: normalize_mac_spec mac_spec_groups)
    also have "\<dots> = take 3 (mac_groups mac)"
      using that join_nonempty oui_normal [of mac] unfolding that(1)
      by (subst mac_groups_normal) (auto simp: mac_oui_def intro!: split_join
          dest!: in_set_takeD mac_groups_no_colon)
    finally show ?thesis
      using that(2) by simp
  qed
  have "public_only c ip mac \<longleftrightarrow> public_only c' ip mac" for mac
    using groups by (auto simp: public_only_def c'_def)
  moreover have "macCache (InitializeClientRouting G c client_init) =
      macCache (InitializeClientRouting G c' client_init)"
    using True on by (simp add: InitializeClientRouting_def Let_def case_prod_beta)
  ultimately show ?thesis
    unfolding c'_def [symmetric] Let_def using True on
    by (simp add: ShouldUse_value(1) [OF client_inv_init] mac_seen_def)
qed

end
