(* ===== verification/DnsSource.thy ===== *)
theory DnsSource
  imports ClientRouting "HOL-Library.Multiset"
begin

text \<open>
  The upstream servers, \<open>dnssource/dnssource.go\<close>: the start-up tables, the health check of
  all servers by goroutines behind a semaphore of \<open>WorkerCount\<close> slots, the atomically
  swapped cache of reachable servers and the choice of servers for a client.

  The health check is modelled twice. \<open>health_step\<close> interleaves the spawning loop and the
  goroutines; \<open>UpdateDNSServersCache\<close> is the whole handler as a function of the order in
  which the goroutines take the mutex. The runs of the former produce exactly the results of
  the latter. The exchange with a server is the parameter \<open>probe\<close>: whether it answered and
  the round trip time. Each goroutine makes its calls on the metrics recorder in its own order; how
  the calls of several are interleaved is the parameter \<open>mix\<close>.
\<close>

datatype ServerType = ServerTypeUnknown | ServerTypePrivate | ServerTypePublic

text \<open>The calls on the metrics recorder, in order, are the output of the handler.\<close>

datatype metric_call =
  RecordError string string
| SetUpstreamServersTotal int
| SetUpstreamServerReachable string bool
| RecordUpstreamQuery string string duration

record serverCache =
  privateServers :: "string list"
  publicServers :: "string list"

record source_state =
  CacheLastUpdated :: "nanos option"
  PrivateAndPublicFallback :: "string list"
  serverTypeMap :: "string \<Rightarrow> ServerType"
  PublicServersFallback :: "string list"
  atomicServerCache :: "serverCache option"

definition source_init :: source_state where
  "source_init = \<lparr>CacheLastUpdated = None, PrivateAndPublicFallback = [],
     serverTypeMap = (\<lambda>_. ServerTypeUnknown), PublicServersFallback = [],
     atomicServerCache = None\<rparr>"

fun set_types :: "ServerType \<Rightarrow> string list \<Rightarrow> (string \<Rightarrow> ServerType) \<Rightarrow> string \<Rightarrow> ServerType" where
  "set_types ty [] m = m"
| "set_types ty (s # ss) m = set_types ty ss (if s \<noteq> '''' then m(s := ty) else m)"

definition InitDNSSource :: "Config \<Rightarrow> source_state \<Rightarrow> source_state" where
  "InitDNSSource c s =
     s\<lparr>serverTypeMap := set_types ServerTypePublic (PublicServers c)
          (set_types ServerTypePrivate (PrivateServers c) (serverTypeMap s)),
       PrivateAndPublicFallback := PrivateServers c @ PublicServers c,
       PublicServersFallback := PublicServers c,
       atomicServerCache := Some \<lparr>privateServers = [], publicServers = []\<rparr>\<rparr>"

definition GetDNSServers :: "source_state \<Rightarrow> string list" where
  "GetDNSServers s = PrivateAndPublicFallback s"

definition categorizeServer :: "source_state \<Rightarrow> string \<Rightarrow> bool \<times> bool" where
  "categorizeServer s server =
     (serverTypeMap s server = ServerTypePrivate, serverTypeMap s server = ServerTypePublic)"

section \<open>The health check\<close>

type_synonym probe = "string \<Rightarrow> bool \<times> duration"

definition unique_servers :: "string list \<Rightarrow> string list" where
  "unique_servers servers =
     foldl (\<lambda>us s. if s \<noteq> '''' \<and> s \<notin> set us then us @ [s] else us) [] servers"

definition health_metrics :: "Config \<Rightarrow> probe \<Rightarrow> string \<Rightarrow> metric_call list" where
  "health_metrics c probe svr =
     (if \<not> EnableMetrics c then []
      else case probe svr of (reachable, rtt) \<Rightarrow>
        if reachable then [SetUpstreamServerReachable svr True, RecordUpstreamQuery svr ''success'' rtt]
        else [SetUpstreamServerReachable svr False, RecordUpstreamQuery svr ''error'' rtt,
              RecordError ''upstream_unreachable'' ''health_check''])"

text \<open>The critical section of a goroutine whose server answered.\<close>

definition add_reachable :: "source_state \<Rightarrow> string \<Rightarrow> serverCache \<Rightarrow> serverCache" where
  "add_reachable s svr r =
     (case categorizeServer s svr of (isPrivate, isPublic) \<Rightarrow>
        if isPrivate then r\<lparr>privateServers := privateServers r @ [svr]\<rparr>
        else if isPublic then r\<lparr>publicServers := publicServers r @ [svr]\<rparr>
        else r)"

definition check_all :: "source_state \<Rightarrow> probe \<Rightarrow> string list \<Rightarrow> serverCache" where
  "check_all s probe order =
     foldl (\<lambda>r svr. if fst (probe svr) then add_reachable s svr r else r)
       \<lparr>privateServers = [], publicServers = []\<rparr> order"

definition UpdateDNSServersCache ::
    "Config \<Rightarrow> probe \<Rightarrow> (string list \<Rightarrow> string list) \<Rightarrow> (metric_call list list \<Rightarrow> metric_call list) \<Rightarrow> nanos \<Rightarrow>
     source_state \<Rightarrow> source_state \<times> metric_call list" where
  "UpdateDNSServersCache c probe finish mix now s =
     (let servers = GetDNSServers s
      in if servers = [] \<or> servers = [''''] then (s, [RecordError ''no_dns_servers'' ''config''])
         else
           let order = finish (unique_servers servers);
               r = check_all s probe order;
               calls = (if EnableMetrics c then [SetUpstreamServersTotal (int (length servers))] else [])
                 @ mix (map (health_metrics c probe) order)
                 @ (if length (privateServers r) + length (publicServers r) = 0 \<and> EnableMetrics c
                    then [RecordError ''no_reachable_servers'' ''health_check''] else [])
           in (s\<lparr>atomicServerCache := Some r, CacheLastUpdated := Some now\<rparr>, calls))"

text \<open>
  The interleaving: \<open>todo\<close> is what the loop has not reached, \<open>in_check\<close> the goroutines before
  the mutex, \<open>in_exit\<close> those past it that still hold their semaphore slot.
\<close>

record health_run =
  todo :: "string list"
  in_check :: "string list"
  in_exit :: "string list"
  taken :: "string list" \<comment> \<open>the order in which the goroutines finished their check\<close>
  found :: serverCache

definition health_start :: "string list \<Rightarrow> health_run" where
  "health_start us = \<lparr>todo = us, in_check = [], in_exit = [], taken = [],
     found = \<lparr>privateServers = [], publicServers = []\<rparr>\<rparr>"

inductive health_step ::
    "Config \<Rightarrow> source_state \<Rightarrow> probe \<Rightarrow> health_run \<Rightarrow> health_run \<Rightarrow> bool" for c s probe where
  spawn: "todo h = svr # rest \<Longrightarrow> length (in_check h) + length (in_exit h) < nat (WorkerCount c) \<Longrightarrow>
    health_step c s probe h (h\<lparr>todo := rest, in_check := svr # in_check h\<rparr>)"
| check: "svr \<in> set (in_check h) \<Longrightarrow>
    health_step c s probe h
      (h\<lparr>in_check := remove1 svr (in_check h), in_exit := svr # in_exit h,
         taken := taken h @ [svr],
         found := (if fst (probe svr) then add_reachable s svr (found h) else found h)\<rparr>)"
| leave: "svr \<in> set (in_exit h) \<Longrightarrow>
    health_step c s probe h (h\<lparr>in_exit := remove1 svr (in_exit h)\<rparr>)"

text \<open>\<open>wg.Wait\<close> returns when every goroutine has called \<open>Done\<close>.\<close>

definition health_done :: "health_run \<Rightarrow> bool" where
  "health_done h \<longleftrightarrow> todo h = [] \<and> in_check h = [] \<and> in_exit h = []"

section \<open>The servers for a client\<close>

definition GetServersForClient ::
    "('c, string) gocache \<Rightarrow> Config \<Rightarrow> arp_world \<Rightarrow> nanos \<Rightarrow> source_state \<Rightarrow> string \<Rightarrow>
     'c client_state \<Rightarrow> (client_panic + string list \<times> string list) \<times> 'c client_state" where
  "GetServersForClient G c w now s clientIP cs =
     (case atomicServerCache s of
        None \<Rightarrow> (Inr ([], PrivateAndPublicFallback s), cs)
      | Some sc \<Rightarrow>
          (case ShouldUsePublicServers G c w now clientIP cs of
             (Inl e, cs') \<Rightarrow> (Inl e, cs')
           | (Inr usePublic, cs') \<Rightarrow>
               if usePublic then
                 (if 0 < length (publicServers sc) then (Inr ([], publicServers sc), cs')
                  else (Inr ([], PublicServersFallback s), cs'))
               else if length (privateServers sc) = 0 \<and> length (publicServers sc) = 0 then
                 (Inr ([], PrivateAndPublicFallback s), cs')
               else (Inr (privateServers sc, publicServers sc), cs')))"


section \<open>What one round of health checks finds\<close>

lemma unique_servers_aux:
  "distinct us \<Longrightarrow> distinct (foldl (\<lambda>us s. if s \<noteq> '''' \<and> s \<notin> set us then us @ [s] else us) us ss) \<and>
     set (foldl (\<lambda>us s. if s \<noteq> '''' \<and> s \<notin> set us then us @ [s] else us) us ss) =
       set us \<union> (set ss - {''''})"
  by (induction ss arbitrary: us) auto

lemma unique_servers_distinct: "distinct (unique_servers ss)"
  and unique_servers_set: "set (unique_servers ss) = set ss - {''''}"
  using unique_servers_aux [of "[]" ss] by (simp_all add: unique_servers_def)

definition found_list :: "source_state \<Rightarrow> probe \<Rightarrow> ServerType \<Rightarrow> string list \<Rightarrow> string list" where
  "found_list s probe ty order = filter (\<lambda>v. fst (probe v) \<and> serverTypeMap s v = ty) order"

lemma check_all_lists:
  "check_all s probe order =
     \<lparr>privateServers = found_list s probe ServerTypePrivate order,
      publicServers = found_list s probe ServerTypePublic order\<rparr>"
proof (induction order rule: rev_induct)
  case (snoc v order)
  then show ?case
    by (simp add: check_all_def found_list_def add_reachable_def categorizeServer_def)
qed (simp add: check_all_def found_list_def)

lemma set_types_other: "v \<notin> set ss \<Longrightarrow> set_types ty ss m v = m v"
  by (induction ss arbitrary: m) auto

lemma set_types_listed: "v \<in> set ss \<Longrightarrow> v \<noteq> '''' \<Longrightarrow> set_types ty ss m v = ty"
proof (induction ss arbitrary: m)
  case (Cons a ss)
  then show ?case
    by (cases "v \<in> set ss") (auto simp: set_types_other)
qed simp

text \<open>A server that is listed as public and as private counts as public.\<close>

definition type_of_server :: "Config \<Rightarrow> string \<Rightarrow> ServerType" where
  "type_of_server c v =
     (if v = '''' then ServerTypeUnknown
      else if v \<in> set (PublicServers c) then ServerTypePublic
      else if v \<in> set (PrivateServers c) then ServerTypePrivate
      else ServerTypeUnknown)"

lemma set_types_empty: "set_types ty ss m '''' = m ''''"
  by (induction ss arbitrary: m) auto

lemma init_types: "serverTypeMap (InitDNSSource c source_init) v = type_of_server c v"
  by (auto simp: InitDNSSource_def source_init_def type_of_server_def set_types_other
      set_types_listed set_types_empty)

section \<open>The source over any sequence of updates\<close>

inductive source_step :: "Config \<Rightarrow> source_state \<Rightarrow> source_state \<Rightarrow> bool" for c where
  update: "mset (finish (unique_servers (GetDNSServers s))) = mset (unique_servers (GetDNSServers s)) \<Longrightarrow>
    source_step c s (fst (UpdateDNSServersCache c probe finish mix now s))"

definition source_reachable :: "Config \<Rightarrow> source_state \<Rightarrow> bool" where
  "source_reachable c s \<longleftrightarrow> (source_step c)\<^sup>*\<^sup>* (InitDNSSource c source_init) s"

definition source_inv :: "Config \<Rightarrow> source_state \<Rightarrow> bool" where
  "source_inv c s \<longleftrightarrow>
     serverTypeMap s = type_of_server c \<and>
     PrivateAndPublicFallback s = PrivateServers c @ PublicServers c \<and>
     PublicServersFallback s = PublicServers c \<and>
     (\<exists>sc. atomicServerCache s = Some sc \<and>
       distinct (privateServers sc) \<and> distinct (publicServers sc) \<and>
       (\<forall>v \<in> set (privateServers sc). type_of_server c v = ServerTypePrivate) \<and>
       (\<forall>v \<in> set (publicServers sc). type_of_server c v = ServerTypePublic))"

lemma source_inv_init: "source_inv c (InitDNSSource c source_init)"
  using init_types [of c] by (auto simp: source_inv_def InitDNSSource_def)

lemma source_inv_step: "source_step c s s' \<Longrightarrow> source_inv c s \<Longrightarrow> source_inv c s'"
proof (induction rule: source_step.induct)
  case (update finish s probe now)
  let ?order = "finish (unique_servers (GetDNSServers s))"
  have "distinct ?order"
    using update(1) unique_servers_distinct by (metis mset_eq_imp_distinct_iff)
  with update(2) show ?case
    by (auto simp: source_inv_def UpdateDNSServersCache_def Let_def check_all_lists found_list_def)
qed

lemma source_reachable_inv: "source_reachable c s \<Longrightarrow> source_inv c s"
  unfolding source_reachable_def
  by (induction rule: rtranclp_induct) (auto intro: source_inv_init source_inv_step)

text \<open>
  The interface the resolver uses: the two lists that the selection gives for a client come
  from the configuration, and the private one only from the servers that are not public.
\<close>

locale server_source =
  fixes select :: "'t \<Rightarrow> string \<Rightarrow> 's \<Rightarrow> (client_panic + string list \<times> string list) \<times> 's"
    and select_inv :: "'s \<Rightarrow> bool"
    and known :: "string set"
  assumes select_total: "select_inv s \<Longrightarrow> \<exists>r. fst (select t ip s) = Inr r"
    and select_keeps: "select_inv s \<Longrightarrow> select_inv (snd (select t ip s))"
    and select_known: "select_inv s \<Longrightarrow> fst (select t ip s) = Inr (privs, pubs) \<Longrightarrow>
      set privs \<union> set pubs \<subseteq> known"
begin

lemma select_cases:
  assumes "select_inv s"
  obtains privs pubs s' where "select t ip s = (Inr (privs, pubs), s')" "select_inv s'"
    "set privs \<union> set pubs \<subseteq> known"
  using select_total [OF assms, of t ip] select_keeps [OF assms, of t ip] select_known [OF assms, of t ip]
  by (metis prod.collapse)

end

lemma type_of_server_member:
  "type_of_server c v = ServerTypePrivate \<Longrightarrow> v \<in> set (PrivateServers c) \<and> v \<notin> set (PublicServers c)"
  "type_of_server c v = ServerTypePublic \<Longrightarrow> v \<in> set (PublicServers c)"
  by (auto simp: type_of_server_def split: if_splits)

text \<open>The choice when the decision for the client is known.\<close>

definition servers_for :: "source_state \<Rightarrow> bool \<Rightarrow> string list \<times> string list" where
  "servers_for s public =
     (case atomicServerCache s of
        None \<Rightarrow> ([], PrivateAndPublicFallback s)
      | Some sc \<Rightarrow>
          if public then ([], if publicServers sc = [] then PublicServersFallback s else publicServers sc)
          else if privateServers sc = [] \<and> publicServers sc = [] then ([], PrivateAndPublicFallback s)
          else (privateServers sc, publicServers sc))"

lemma GetServersForClient_eq:
  assumes "client_inv c cs" and "atomicServerCache s \<noteq> None"
  shows "fst (GetServersForClient G c w now s ip cs) =
      Inr (servers_for s (EnableClientRouting c \<and> public_only c ip (mac_seen G w now ip cs)))"
    and "client_inv c (snd (GetServersForClient G c w now s ip cs))"
proof -
  obtain cs' where "ShouldUsePublicServers G c w now ip cs =
      (Inr (EnableClientRouting c \<and> public_only c ip (mac_seen G w now ip cs)), cs')" "client_inv c cs'"
    using ShouldUse_value [OF assms(1), of G w now ip] by (metis prod.collapse)
  with assms(2) show "fst (GetServersForClient G c w now s ip cs) =
      Inr (servers_for s (EnableClientRouting c \<and> public_only c ip (mac_seen G w now ip cs)))"
    and "client_inv c (snd (GetServersForClient G c w now s ip cs))"
    by (auto simp: GetServersForClient_def servers_for_def split: option.splits)
qed

lemma servers_for_known:
  assumes inv: "source_inv c s" and r: "servers_for s b = (privs, pubs)"
  shows "set privs \<union> set pubs \<subseteq> set (PrivateServers c) \<union> set (PublicServers c)"
    and "set privs \<inter> set (PublicServers c) = {}"
    and "b \<Longrightarrow> privs = [] \<and> set pubs \<subseteq> set (PublicServers c)"
    and "\<not> b \<Longrightarrow> PrivateServers c @ PublicServers c \<noteq> [] \<Longrightarrow> privs @ pubs \<noteq> []"
    and "PublicServers c \<noteq> [] \<Longrightarrow> privs @ pubs \<noteq> []"
proof -
  obtain sc where sc: "atomicServerCache s = Some sc"
    and privs: "\<And>v. v \<in> set (privateServers sc) \<Longrightarrow> v \<in> set (PrivateServers c) \<and> v \<notin> set (PublicServers c)"
    and pubs: "\<And>v. v \<in> set (publicServers sc) \<Longrightarrow> v \<in> set (PublicServers c)"
    using inv type_of_server_member [of c] unfolding source_inv_def by blast
  have fb: "PrivateAndPublicFallback s = PrivateServers c @ PublicServers c"
    "PublicServersFallback s = PublicServers c"
    using inv by (simp_all add: source_inv_def)
  have cases: "(privs, pubs) = (if b then ([], if publicServers sc = [] then PublicServers c else publicServers sc)
      else if privateServers sc = [] \<and> publicServers sc = [] then ([], PrivateServers c @ PublicServers c)
      else (privateServers sc, publicServers sc))"
    using r fb by (auto simp: servers_for_def sc)
  show "set privs \<union> set pubs \<subseteq> set (PrivateServers c) \<union> set (PublicServers c)"
    using cases privs pubs by (auto split: if_splits)
  show "set privs \<inter> set (PublicServers c) = {}"
    using cases privs by (auto split: if_splits)
  show "b \<Longrightarrow> privs = [] \<and> set pubs \<subseteq> set (PublicServers c)"
    using cases pubs by (auto split: if_splits)
  show "\<not> b \<Longrightarrow> PrivateServers c @ PublicServers c \<noteq> [] \<Longrightarrow> privs @ pubs \<noteq> []"
    and "PublicServers c \<noteq> [] \<Longrightarrow> privs @ pubs \<noteq> []"
    using cases by (auto split: if_splits)
qed

text \<open>The selection with its two states side by side.\<close>

definition select_servers ::
    "('c, string) gocache \<Rightarrow> Config \<Rightarrow> arp_world \<times> nanos \<Rightarrow> string \<Rightarrow> source_state \<times> 'c client_state \<Rightarrow>
     (client_panic + string list \<times> string list) \<times> (source_state \<times> 'c client_state)" where
  "select_servers G c t ip s =
     (case GetServersForClient G c (fst t) (snd t) (fst s) ip (snd s) of (r, cs') \<Rightarrow> (r, (fst s, cs')))"

definition source_ok :: "Config \<Rightarrow> source_state \<times> 'c client_state \<Rightarrow> bool" where
  "source_ok c s \<longleftrightarrow> source_inv c (fst s) \<and> client_inv c (snd s)"

lemma select_servers_eq:
  assumes "source_ok c s"
  shows "fst (select_servers G c t ip s) =
      Inr (servers_for (fst s) (EnableClientRouting c \<and>
        public_only c ip (mac_seen G (fst t) (snd t) ip (snd s))))"
    and "source_ok c (snd (select_servers G c t ip s))"
proof -
  have inv: "client_inv c (snd s)" "atomicServerCache (fst s) \<noteq> None"
    using assms by (auto simp: source_ok_def source_inv_def)
  show "fst (select_servers G c t ip s) =
      Inr (servers_for (fst s) (EnableClientRouting c \<and>
        public_only c ip (mac_seen G (fst t) (snd t) ip (snd s))))"
    using GetServersForClient_eq(1) [OF inv, of G "fst t" "snd t" ip]
    by (simp add: select_servers_def case_prod_beta)
  show "source_ok c (snd (select_servers G c t ip s))"
    using GetServersForClient_eq(2) [OF inv, of G "fst t" "snd t" ip] assms
    by (simp add: select_servers_def case_prod_beta source_ok_def)
qed

interpretation configured_servers: server_source
    "select_servers G c" "source_ok c" "set (PrivateServers c) \<union> set (PublicServers c)" for G c
proof
  fix s :: "source_state \<times> 'a client_state" and t ip privs pubs
  assume ok: "source_ok c s"
  show "\<exists>r. fst (select_servers G c t ip s) = Inr r" "source_ok c (snd (select_servers G c t ip s))"
    using select_servers_eq [OF ok] by blast+
  assume "fst (select_servers G c t ip s) = Inr (privs, pubs)"
  then show "set privs \<union> set pubs \<subseteq> set (PrivateServers c) \<union> set (PublicServers c)"
    using ok servers_for_known(1) [of c "fst s"] select_servers_eq(1) [OF ok, of G t ip]
    by (simp add: source_ok_def)
qed


section \<open>The interleaved health check\<close>

definition health_inv :: "Config \<Rightarrow> source_state \<Rightarrow> probe \<Rightarrow> string list \<Rightarrow> health_run \<Rightarrow> bool" where
  "health_inv c s probe us h \<longleftrightarrow>
     mset (todo h) + mset (in_check h) + mset (taken h) = mset us \<and>
     mset (in_exit h) \<subseteq># mset (taken h) \<and>
     length (in_check h) + length (in_exit h) \<le> nat (WorkerCount c) \<and>
     found h = check_all s probe (taken h)"

definition health_measure :: "health_run \<Rightarrow> nat" where
  "health_measure h = 3 * length (todo h) + 2 * length (in_check h) + length (in_exit h)"

lemma health_inv_start: "health_inv c s probe us (health_start us)"
  by (simp add: health_inv_def health_start_def check_all_def)

lemma mset_remove1_add: "x \<in> set xs \<Longrightarrow> mset (remove1 x xs) + {#x#} = mset xs"
  by simp

lemma health_inv_step:
  assumes "health_step c s probe h h'" and "health_inv c s probe us h"
  shows "health_inv c s probe us h'" and "health_measure h' + 1 = health_measure h"
  using assms
proof (induction rule: health_step.induct)
  case (spawn h svr rest)
  {
    case 1
    with spawn show ?case by (auto simp: health_inv_def)
  next
    case 2
    with spawn show ?case by (simp add: health_measure_def)
  }
next
  case (check svr h)
  have len: "length (remove1 svr (in_check h)) + 1 = length (in_check h)"
    using check by (simp add: length_remove1) (metis Suc_pred length_pos_if_in_set)
  {
    case 1
    obtain M where M: "mset (in_check h) = add_mset svr M"
      using check by (metis mset_add set_mset_mset)
    moreover have "check_all s probe (taken h @ [svr]) =
        (if fst (probe svr) then add_reachable s svr (found h) else found h)"
      using 1 by (simp add: health_inv_def check_all_def)
    ultimately show ?case
      using 1 len M by (simp add: health_inv_def)
  next
    case 2
    with len show ?case by (simp add: health_measure_def)
  }
next
  case (leave svr h)
  have len: "length (remove1 svr (in_exit h)) + 1 = length (in_exit h)"
    using leave by (simp add: length_remove1) (metis Suc_pred length_pos_if_in_set)
  {
    case 1
    have "mset (remove1 svr (in_exit h)) \<subseteq># mset (taken h)"
      using 1 by (auto simp: health_inv_def intro: subset_mset.order_trans [OF diff_subset_eq_self])
    with 1 len show ?case by (simp add: health_inv_def)
  next
    case 2
    with len show ?case by (simp add: health_measure_def)
  }
qed

lemma health_reachable_inv:
  "(health_step c s probe)\<^sup>*\<^sup>* (health_start us) h \<Longrightarrow> health_inv c s probe us h"
  by (induction rule: rtranclp_induct) (auto intro: health_inv_start health_inv_step(1))

lemma health_progress:
  assumes "0 < WorkerCount c" and "\<not> health_done h"
  shows "\<exists>h'. health_step c s probe h h'"
proof (cases "in_check h = [] \<and> in_exit h = []")
  case True
  with assms obtain v r where "todo h = v # r"
    by (auto simp: health_done_def neq_Nil_conv)
  with True assms(1) show ?thesis
    by (metis health_step.spawn list.size(3) add_0 zero_less_nat_eq)
next
  case False
  then show ?thesis
    by (metis health_step.check health_step.leave list.set_intros(1) neq_Nil_conv)
qed

lemma health_runs:
  assumes "(health_step c s probe ^^ n) (health_start us) h"
  shows "health_inv c s probe us h \<and> n + health_measure h = 3 * length us"
  using assms
proof (induction n arbitrary: h)
  case 0
  then have "h = health_start us"
    by simp
  moreover have "health_measure (health_start us) = 3 * length us"
    by (simp add: health_measure_def health_start_def)
  ultimately show ?case
    by (simp add: health_inv_start)
next
  case (Suc n)
  then obtain g where g: "(health_step c s probe ^^ n) (health_start us) g" "health_step c s probe g h"
    by auto
  with Suc.IH [OF g(1)] health_inv_step [OF g(2)] show ?case
    by fastforce
qed

section \<open>Properties\<close>

text \<open>
  C14: the concurrent health check terminates and publishes what the handler says. With a
  positive worker count, whatever the interleaving: a run of the goroutines never exceeds
  \<open>WorkerCount\<close> at a time, it is stuck only when all are done, which is after exactly three
  steps per distinct server, and then what they collected is the server cache that the
  handler stores for the order, a permutation of the servers, in which they took the mutex.
\<close>

theorem health_check_implements:
  assumes "0 < WorkerCount c"
    and "GetDNSServers s \<notin> {[], ['''']}"
    and "(health_step c s probe ^^ n) (health_start (unique_servers (GetDNSServers s))) h"
  shows "length (in_check h) + length (in_exit h) \<le> nat (WorkerCount c) \<and>
    (health_done h \<longleftrightarrow> (\<nexists>h'. health_step c s probe h h')) \<and>
    (health_done h \<longleftrightarrow> n = 3 * card (set (GetDNSServers s) - {''''})) \<and>
    (health_done h \<longrightarrow>
      mset (taken h) = mset (unique_servers (GetDNSServers s)) \<and>
      atomicServerCache (fst (UpdateDNSServersCache c probe (\<lambda>_. taken h) mix now s)) = Some (found h))"
proof -
  let ?us = "unique_servers (GetDNSServers s)"
  have inv: "health_inv c s probe ?us h" and n: "n + health_measure h = 3 * length ?us"
    using health_runs [OF assms(3)] by simp_all
  have len: "length ?us = card (set (GetDNSServers s) - {''''})"
    using distinct_card [OF unique_servers_distinct [of "GetDNSServers s"]] by (simp add: unique_servers_set)
  have zero: "health_done h \<longleftrightarrow> health_measure h = 0"
    by (auto simp: health_done_def health_measure_def)
  have "\<nexists>h'. health_step c s probe h h'" if "health_done h"
    using that by (auto simp: health_done_def elim!: health_step.cases)
  then have "health_done h \<longleftrightarrow> (\<nexists>h'. health_step c s probe h h')"
    using health_progress [OF assms(1), of h s probe] by blast
  moreover have "health_done h \<Longrightarrow> mset (taken h) = mset ?us \<and>
      atomicServerCache (fst (UpdateDNSServersCache c probe (\<lambda>_. taken h) mix now s)) = Some (found h)"
    using inv assms(2) by (auto simp: health_inv_def health_done_def UpdateDNSServersCache_def Let_def)
  ultimately show ?thesis
    using inv n len zero by (auto simp: health_inv_def)
qed


definition one_server_config :: Config where
  "one_server_config = (pure_config (\<lambda>_. ''''))\<lparr>WorkerCount := 1, PrivateServers := [''p:53''],
     PublicServers := [''q:53'']\<rparr>"

lemma one_server [simp]: "WorkerCount one_server_config = 1" "PrivateServers one_server_config = [''p:53'']"
  "PublicServers one_server_config = [''q:53'']"
  by (simp_all add: one_server_config_def)

lemma health_check_implements_witness:
  "\<exists>h. (health_step one_server_config (InitDNSSource one_server_config source_init)
       (\<lambda>v. (v = ''p:53'', 7)) ^^ 6) (health_start [''p:53'', ''q:53'']) h \<and>
     health_done h \<and> privateServers (found h) = [''p:53''] \<and> publicServers (found h) = []"
proof -
  let ?s = "InitDNSSource one_server_config source_init"
  let ?p = "\<lambda>v. (v = ''p:53'', 7 :: duration)"
  let ?step = "health_step one_server_config ?s ?p"
  let ?h1 = "(health_start [''p:53'', ''q:53''])\<lparr>todo := [''q:53''], in_check := [''p:53'']\<rparr>"
  let ?f = "\<lparr>privateServers = [''p:53''], publicServers = []\<rparr>"
  let ?h2 = "?h1\<lparr>in_check := [], in_exit := [''p:53''], taken := [''p:53''], found := ?f\<rparr>"
  let ?h3 = "?h2\<lparr>in_exit := []\<rparr>"
  let ?h4 = "?h3\<lparr>todo := [], in_check := [''q:53'']\<rparr>"
  let ?h5 = "?h4\<lparr>in_check := [], in_exit := [''q:53''], taken := [''p:53'', ''q:53'']\<rparr>"
  let ?h6 = "?h5\<lparr>in_exit := []\<rparr>"
  have cat: "add_reachable ?s ''p:53'' \<lparr>privateServers = [], publicServers = []\<rparr> = ?f"
    by (simp add: add_reachable_def categorizeServer_def init_types type_of_server_def)
  have "?step (health_start [''p:53'', ''q:53'']) ?h1"
    using health_step.spawn [of "health_start [''p:53'', ''q:53'']" "''p:53''" "[''q:53'']"
        one_server_config ?s ?p] by (simp add: health_start_def)
  moreover have "?step ?h1 ?h2"
    using health_step.check [of "''p:53''" ?h1 one_server_config ?s ?p] cat
    by (simp add: health_start_def)
  moreover have "?step ?h2 ?h3"
    using health_step.leave [of "''p:53''" ?h2 one_server_config ?s ?p] by simp
  moreover have "?step ?h3 ?h4"
    using health_step.spawn [of ?h3 "''q:53''" "[]" one_server_config ?s ?p]
    by (simp add: health_start_def)
  moreover have "?step ?h4 ?h5"
    using health_step.check [of "''q:53''" ?h4 one_server_config ?s ?p] by (simp add: health_start_def)
  moreover have "?step ?h5 ?h6"
    using health_step.leave [of "''q:53''" ?h5 one_server_config ?s ?p] by simp
  ultimately have run: "(?step ^^ 6) (health_start [''p:53'', ''q:53'']) ?h6"
    by (auto simp: numeral_eq_Suc intro!: relcomppI)
  have us: "unique_servers (GetDNSServers ?s) = [''p:53'', ''q:53'']" "GetDNSServers ?s = [''p:53'', ''q:53'']"
    by (simp_all add: unique_servers_def GetDNSServers_def InitDNSSource_def)
  have r: "(?step ^^ 6) (health_start (unique_servers (GetDNSServers ?s))) ?h6"
    unfolding us(1) by (rule run)
  have w: "0 < WorkerCount one_server_config" and g: "GetDNSServers ?s \<notin> {[], ['''']}"
    unfolding us(2) by simp_all
  have "health_done ?h6 \<longleftrightarrow> 6 = 3 * card (set (GetDNSServers ?s) - {''''})"
    by (rule health_check_implements [OF w g r, THEN conjunct2, THEN conjunct2, THEN conjunct1])
  then have "health_done ?h6"
    unfolding us(2) by simp
  with run show ?thesis
    by (intro exI [of _ ?h6]) (simp add: health_start_def)
qed

text \<open>
  C5: the client policy is enforced. After start-up and any number of health checks, whatever
  they find: a client whose configuration says public only never gets a server that is not
  listed as public, no client gets a publicly listed server as a private one, all servers
  come from the configuration, and when public servers are configured every client gets some
  server, even when none is reachable.
\<close>

theorem GetServersForClient_policy:
  assumes "source_reachable c s" and "client_inv c cs"
    and "fst (GetServersForClient G c w now s ip cs) = Inr (privs, pubs)"
  shows "(EnableClientRouting c \<and> public_only c ip (mac_seen G w now ip cs) \<longrightarrow>
        privs = [] \<and> set pubs \<subseteq> set (PublicServers c)) \<and>
    set privs \<inter> set (PublicServers c) = {} \<and>
    set privs \<union> set pubs \<subseteq> set (PrivateServers c) \<union> set (PublicServers c) \<and>
    (PublicServers c \<noteq> [] \<longrightarrow> privs @ pubs \<noteq> [])"
proof -
  have inv: "source_inv c s"
    by (rule source_reachable_inv [OF assms(1)])
  then have "atomicServerCache s \<noteq> None"
    by (auto simp: source_inv_def)
  note GetServersForClient_eq(1) [OF assms(2) this, of G w now ip]
  with assms(3) have "servers_for s (EnableClientRouting c \<and> public_only c ip (mac_seen G w now ip cs)) =
      (privs, pubs)"
    by simp
  note k = servers_for_known [OF inv this]
  show ?thesis
    using k(1,2,3,5) by blast
qed

lemma GetServersForClient_policy_witness:
  "\<exists>s cs. fst (GetServersForClient alist_cache phone_config phone_world 0 s ''10.0.0.7'' cs) =
      Inr ([], [''1.1.1.1:53'']) \<and> set [''1.1.1.1:53''] \<subseteq> set (PublicServers phone_config)"
proof -
  let ?s = "InitDNSSource phone_config source_init"
  let ?cs = "InitializeClientRouting alist_cache phone_config client_init"
  have s: "source_reachable phone_config ?s"
    by (simp add: source_reachable_def)
  have cs: "client_inv phone_config ?cs"
    by (rule client_inv_init)
  have pub: "PublicServers phone_config = [''1.1.1.1:53'']"
    by (simp add: phone_config_def pure_config_def unset_env GetEnvStringSlice_eq config_consts)
  have r: "fst (GetServersForClient alist_cache phone_config phone_world 0 ?s ''10.0.0.7'' ?cs) =
      Inr ([], [''1.1.1.1:53''])"
    using GetServersForClient_eq(1) [OF cs, of ?s alist_cache phone_world 0 "''10.0.0.7''"]
    unfolding phone_mac_seen
    by (simp add: phone_public phone_routing servers_for_def InitDNSSource_def pub)
  show ?thesis
    using r GetServersForClient_policy [OF s cs r]
    by (intro exI [of _ ?s] exI [of _ ?cs]) (simp add: phone_mac_seen phone_public phone_routing)
qed

end
