(* ===== verification/DomainRouting.thy ===== *)
theory DomainRouting
  imports Config GoNet "HOL-Library.Multiset"
begin

text \<open>
  Domain routing, \<open>domainrouting/domainrouting.go\<close>: the parser of a routing line, the
  loading of one file and of a folder, the atomically swapped table with its readers, the
  start-up and the periodic reload.

  A routing table is an association list with distinct keys (a Go map whose length is
  tested). The files of a folder are loaded by one goroutine each; the order in which their
  results reach the channel is a parameter, constrained to be a permutation of the files.
\<close>

type_synonym table = "(string \<times> string) list"

section \<open>Lines\<close>

definition validateDomain :: "string \<Rightarrow> bool" where
  "validateDomain domain =
     (if domain = '''' \<or> 253 < length domain then False else str_contains domain ''.'')"

definition validateIPPort :: "string \<Rightarrow> bool" where
  "validateIPPort address =
     (case split_host_port address of
        Inl e \<Rightarrow> False
      | Inr (host, port) \<Rightarrow> if port \<noteq> ''53'' then False else parse_ip host \<noteq> None)"

definition normalize_domain :: "string \<Rightarrow> string" where
  "normalize_domain domain = (if \<not> has_suffix domain ''.'' then domain @ ''.'' else domain)"

definition normalize_server :: "string \<Rightarrow> string" where
  "normalize_server ip =
     (if \<not> str_contains ip '':'' then ip @ '':53''
      else if str_contains ip ''::'' \<and> \<not> has_prefix ip ''['' then ''['' @ ip @ '']:53''
      else ip)"

definition processLine :: "string \<Rightarrow> string \<times> string \<times> bool" where
  "processLine line0 =
     (let line = trim_space line0
      in if line = '''' \<or> has_prefix line ''#'' then ('''', '''', False)
         else let parts = split_str ''/'' line
           in if length parts < 3 then ('''', '''', False)
              else let domain = trim_space (parts ! 1); ip = trim_space (parts ! 2)
                in if domain = '''' \<or> ip = '''' then ('''', '''', False)
                   else let domain' = normalize_domain domain; ip' = normalize_server ip
                     in if \<not> validateDomain domain' \<or> \<not> validateIPPort ip'
                        then ('''', '''', False)
                        else (domain', ip', True))"

section \<open>Files and folders\<close>

text \<open>
  What reading a file gives: it cannot be opened, or its bytes, and whether the reads ended
  in an error.
\<close>

datatype file_outcome = OpenFailed | Content string bool

datatype load_error =
  FileOpenError string | FileReadError string | FolderError | NoTxtFiles

definition add_line :: "table \<Rightarrow> string \<Rightarrow> table" where
  "add_line t line =
     (case processLine line of (domain, ip, valid) \<Rightarrow>
        if valid then AList.update domain ip t else t)"

definition loadSingleFile :: "string \<Rightarrow> file_outcome \<Rightarrow> load_error + table" where
  "loadSingleFile path out =
     (case out of
        OpenFailed \<Rightarrow> Inl (FileOpenError path)
      | Content data read_err \<Rightarrow>
          (case scan_lines data of (lines, too_long) \<Rightarrow>
             let localTable = foldl add_line [] lines
             in if too_long \<or> read_err then Inl (FileReadError path) else Inr localTable))"

fun rights :: "('e + 'a) list \<Rightarrow> 'a list" where
  "rights [] = []"
| "rights (Inl e # rs) = rights rs"
| "rights (Inr a # rs) = a # rights rs"

fun lefts :: "('e + 'a) list \<Rightarrow> 'e list" where
  "lefts [] = []"
| "lefts (Inl e # rs) = e # lefts rs"
| "lefts (Inr a # rs) = lefts rs"

definition merge_table :: "table \<Rightarrow> table \<Rightarrow> table" where
  "merge_table final local = foldl (\<lambda>t (domain, ip). AList.update domain ip t) final local"

text \<open>A directory entry is a name and whether it is a directory.\<close>

definition txt_files :: "(string \<times> bool) list \<Rightarrow> string list" where
  "txt_files es = map fst (filter (\<lambda>(name, is_dir). \<not> is_dir \<and> has_suffix name ''.txt'') es)"

definition loadRoutingTable ::
    "(string \<times> bool) list option \<Rightarrow> (string \<Rightarrow> file_outcome) \<Rightarrow>
     (string list \<Rightarrow> string list) \<Rightarrow> load_error + table" where
  "loadRoutingTable listing out arrive =
     (case listing of
        None \<Rightarrow> Inl FolderError
      | Some es \<Rightarrow>
          let txtFiles = txt_files es
          in if txtFiles = [] then Inl NoTxtFiles
             else let results = map (\<lambda>f. loadSingleFile f (out f)) (arrive txtFiles);
                      finalTable = foldl merge_table [] (rights results)
               in (case lefts results of e # _ \<Rightarrow> Inl e | [] \<Rightarrow> Inr finalTable))"

section \<open>The table in use\<close>

text \<open>\<open>None\<close> until the first store.\<close>

record routing_state =
  routingTablePtr :: "table option"
  reloading :: bool \<comment> \<open>the refresh goroutine has its ticker\<close>
  refresh_panic :: bool \<comment> \<open>the refresh goroutine panicked, which ends the process\<close>

definition routing_init :: routing_state where
  "routing_init = \<lparr>routingTablePtr = None, reloading = False, refresh_panic = False\<rparr>"

text \<open>\<open>time.NewTicker\<close> panics unless the interval is positive; the product wraps.\<close>

definition reload_interval :: "Config \<Rightarrow> duration" where
  "reload_interval c = sint (word_of_int (DomainRoutingTableReloadInterval c * second) :: i64)"

definition start_refresh :: "Config \<Rightarrow> routing_state \<Rightarrow> routing_state" where
  "start_refresh c s =
     (if reload_interval c \<le> 0 then s\<lparr>refresh_panic := True\<rparr> else s\<lparr>reloading := True\<rparr>)"

definition GetRoutingTable :: "routing_state \<Rightarrow> table" where
  "GetRoutingTable s = (case routingTablePtr s of Some t \<Rightarrow> t | None \<Rightarrow> [])"

definition LookupDomain :: "routing_state \<Rightarrow> string \<Rightarrow> string option" where
  "LookupDomain s domain =
     (case routingTablePtr s of Some t \<Rightarrow> map_of t domain | None \<Rightarrow> None)"

definition InitializeDomainRouting ::
    "Config \<Rightarrow> load_error + table \<Rightarrow> routing_state \<Rightarrow> routing_state" where
  "InitializeDomainRouting c loaded s =
     (if \<not> EnableDomainRouting c then s
      else if DomainRoutingFolder c = '''' then s
      else case loaded of
        Inl e \<Rightarrow> s
      | Inr table \<Rightarrow>
          if table = [] then s
          else start_refresh c (s\<lparr>routingTablePtr := Some table\<rparr>))"

text \<open>One tick of the refresh goroutine.\<close>

definition reload_tick :: "load_error + table \<Rightarrow> routing_state \<Rightarrow> routing_state" where
  "reload_tick loaded s =
     (if \<not> reloading s then s
      else case loaded of
        Inl e \<Rightarrow> s
      | Inr table \<Rightarrow> if table = [] then s else s\<lparr>routingTablePtr := Some table\<rparr>)"

section \<open>What a valid line yields\<close>

text \<open>An upstream address the program accepts: a literal IP address and port 53.\<close>

definition valid_upstream :: "string \<Rightarrow> bool" where
  "valid_upstream a \<longleftrightarrow>
     (\<exists>host b. split_host_port a = Inr (host, ''53'') \<and> parse_ip host = Some b \<and> length b = 16)"

definition valid_route :: "string \<times> string \<Rightarrow> bool" where
  "valid_route r \<longleftrightarrow>
     has_suffix (fst r) ''.'' \<and> length (fst r) \<le> 253 \<and> valid_upstream (snd r)"

lemma validateIPPort_upstream: "validateIPPort a \<longleftrightarrow> valid_upstream a"
  by (auto simp: validateIPPort_def valid_upstream_def split: sum.splits if_splits
      dest: parse_ip_length)

lemma normalize_domain_suffix: "has_suffix (normalize_domain d) ''.''"
  by (simp add: normalize_domain_def has_suffix_def)

text \<open>Every normalised domain contains a dot, so that test of \<open>validateDomain\<close> never fails here.\<close>

lemma validateDomain_normalized:
  "validateDomain (normalize_domain d) \<longleftrightarrow> length (normalize_domain d) \<le> 253"
  by (auto simp: validateDomain_def normalize_domain_def has_suffix_def suffix_def)

lemma processLine_cases:
  "processLine line = (d, ip, v) \<Longrightarrow>
     \<not> v \<and> d = '''' \<and> ip = '''' \<or>
     v \<and> (\<exists>dom srv ps. split_str ''/'' (trim_space line) = ps \<and> 3 \<le> length ps \<and>
       dom = trim_space (ps ! 1) \<and> srv = trim_space (ps ! 2) \<and> dom \<noteq> '''' \<and> srv \<noteq> '''' \<and>
       \<not> has_prefix (trim_space line) ''#'' \<and>
       d = normalize_domain dom \<and> ip = normalize_server srv \<and>
       length d \<le> 253 \<and> valid_upstream ip)"
  by (auto simp: processLine_def Let_def validateDomain_normalized validateIPPort_upstream
      split: if_splits)

section \<open>Every table holds valid routes under distinct domains\<close>

definition table_ok :: "table \<Rightarrow> bool" where
  "table_ok t \<longleftrightarrow> distinct (map fst t) \<and> (\<forall>r \<in> set t. valid_route r)"

lemma table_ok_Nil [simp]: "table_ok []"
  by (simp add: table_ok_def)

lemma table_ok_update:
  "table_ok t \<Longrightarrow> valid_route (d, ip) \<Longrightarrow> table_ok (AList.update d ip t)"
  using set_alist_update [of d ip t] distinct_keys_update [of t d ip]
  by (auto simp: table_ok_def)

lemma processLine_route: "processLine line = (d, ip, True) \<Longrightarrow> valid_route (d, ip)"
  by (auto dest!: processLine_cases simp: valid_route_def normalize_domain_suffix)

lemma table_ok_add_line: "table_ok t \<Longrightarrow> table_ok (add_line t line)"
  by (auto simp: add_line_def table_ok_update processLine_route split: prod.splits)

lemma table_ok_lines: "table_ok t \<Longrightarrow> table_ok (foldl add_line t ls)"
  by (induction ls arbitrary: t) (auto simp: table_ok_add_line)

lemma table_ok_file: "loadSingleFile path out = Inr t \<Longrightarrow> table_ok t"
  by (auto simp: loadSingleFile_def Let_def table_ok_lines
      split: file_outcome.splits prod.splits if_splits)

lemma table_ok_merge: "table_ok t \<Longrightarrow> \<forall>r \<in> set l. valid_route r \<Longrightarrow> table_ok (merge_table t l)"
  by (induction l arbitrary: t) (auto simp: merge_table_def table_ok_update)

lemma table_ok_merges: "table_ok t \<Longrightarrow> \<forall>l \<in> set ls. table_ok l \<Longrightarrow> table_ok (foldl merge_table t ls)"
proof (induction ls arbitrary: t)
  case (Cons l ls)
  then have "table_ok (merge_table t l)"
    by (intro table_ok_merge) (auto simp: table_ok_def)
  with Cons show ?case
    by simp
qed simp

lemma rights_set: "a \<in> set (rights rs) \<longleftrightarrow> Inr a \<in> set rs"
  by (induction rs rule: rights.induct) auto

lemma lefts_set: "e \<in> set (lefts rs) \<longleftrightarrow> Inl e \<in> set rs"
  by (induction rs rule: lefts.induct) auto

lemma table_ok_folder: "loadRoutingTable listing out arrive = Inr t \<Longrightarrow> table_ok t"
  by (auto simp: loadRoutingTable_def Let_def rights_set
      split: option.splits if_splits list.splits intro!: table_ok_merges
      dest: table_ok_file [OF sym])

section \<open>The table in use over any sequence of loads\<close>

inductive routing_step :: "Config \<Rightarrow> routing_state \<Rightarrow> routing_state \<Rightarrow> bool" for c where
  start: "loaded = loadRoutingTable listing out arrive \<Longrightarrow>
    routing_step c s (InitializeDomainRouting c loaded s)"
| tick: "loaded = loadRoutingTable listing out arrive \<Longrightarrow>
    routing_step c s (reload_tick loaded s)"

inductive routing_reachable :: "Config \<Rightarrow> routing_state \<Rightarrow> bool" for c where
  init: "routing_reachable c routing_init"
| step: "routing_reachable c s \<Longrightarrow> routing_step c s s' \<Longrightarrow> routing_reachable c s'"

definition routing_inv :: "routing_state \<Rightarrow> bool" where
  "routing_inv s \<longleftrightarrow>
     (reloading s \<or> refresh_panic s \<longleftrightarrow> routingTablePtr s \<noteq> None) \<and>
     (\<forall>t. routingTablePtr s = Some t \<longrightarrow> t \<noteq> [] \<and> table_ok t)"

lemma routing_inv_init [simp]: "routing_inv routing_init"
  by (simp add: routing_inv_def routing_init_def)

lemma routing_inv_step: "routing_step c s s' \<Longrightarrow> routing_inv s \<Longrightarrow> routing_inv s'"
proof (induction rule: routing_step.induct)
  case (start loaded listing out arrive s)
  then show ?case
    using table_ok_folder [of listing out arrive]
    by (auto simp: routing_inv_def InitializeDomainRouting_def start_refresh_def split: sum.splits)
next
  case (tick loaded listing out arrive s)
  then show ?case
    using table_ok_folder [of listing out arrive]
    by (auto simp: routing_inv_def reload_tick_def split: sum.splits)
qed

lemma routing_reachable_inv: "routing_reachable c s \<Longrightarrow> routing_inv s"
  by (induction rule: routing_reachable.induct) (auto intro: routing_inv_step)

text \<open>
  The interface the resolver uses: a route that is found names a valid upstream address.
\<close>

locale route_source =
  fixes route_for :: "'s \<Rightarrow> string \<Rightarrow> string option"
    and routes_inv :: "'s \<Rightarrow> bool"
  assumes route_valid: "routes_inv s \<Longrightarrow> route_for s d = Some a \<Longrightarrow> valid_upstream a"
    and route_domain: "routes_inv s \<Longrightarrow> route_for s d = Some a \<Longrightarrow> has_suffix d ''.''"
begin

lemma no_route_unqualified: "routes_inv s \<Longrightarrow> \<not> has_suffix d ''.'' \<Longrightarrow> route_for s d = None"
  using route_domain by (cases "route_for s d") auto

end

definition route_lookup :: "routing_state \<Rightarrow> string \<Rightarrow> string option" where
  "route_lookup s d = map_of (GetRoutingTable s) d"

lemma route_lookup_valid:
  "routing_inv s \<Longrightarrow> route_lookup s d = Some a \<Longrightarrow> valid_route (d, a)"
  by (auto simp: route_lookup_def GetRoutingTable_def routing_inv_def table_ok_def
      split: option.splits dest!: map_of_SomeD)

interpretation table_routes: route_source route_lookup routing_inv
  by unfold_locales (auto dest!: route_lookup_valid simp: valid_route_def)

text \<open>The two readers agree.\<close>

lemma LookupDomain_route: "LookupDomain s d = route_lookup s d"
  by (simp add: LookupDomain_def route_lookup_def GetRoutingTable_def split: option.split)

section \<open>The arrival order of the goroutines\<close>

lemma map_of_merge: "map_of (merge_table t l) = map_of t ++ map_of (rev l)"
  by (induction l arbitrary: t) (auto simp: merge_table_def map_of_update map_add_def fun_eq_iff
      split: option.split)

lemma map_of_rev_distinct: "distinct (map fst l) \<Longrightarrow> map_of (rev l) = map_of l"
  by (rule map_of_inject_set [THEN iffD2]) (auto simp: rev_map [symmetric])

text \<open>The files' tables give no domain two servers.\<close>

definition agree :: "table list \<Rightarrow> bool" where
  "agree ts \<longleftrightarrow>
     (\<forall>t \<in> set ts. \<forall>u \<in> set ts. \<forall>d a b. map_of t d = Some a \<longrightarrow> map_of u d = Some b \<longrightarrow> a = b)"

lemma map_of_merges:
  assumes "\<forall>t \<in> set ts. table_ok t" and "agree ts"
  shows "map_of (foldl merge_table [] ts) d = Some a \<longleftrightarrow> (\<exists>t \<in> set ts. map_of t d = Some a)"
  using assms
proof (induction ts arbitrary: a rule: rev_induct)
  case (snoc t ts)
  have "agree ts"
    using snoc.prems(2) by (auto simp: agree_def)
  then have IH: "map_of (foldl merge_table [] ts) d = Some a \<longleftrightarrow> (\<exists>t \<in> set ts. map_of t d = Some a)" for a
    using snoc.IH snoc.prems(1) by simp
  have t: "map_of (rev t) = map_of t"
    using snoc.prems(1) by (intro map_of_rev_distinct) (simp add: table_ok_def)
  have ag: "map_of t d = Some b \<Longrightarrow> u \<in> set ts \<Longrightarrow> map_of u d = Some a \<Longrightarrow> a = b" for u b
    using snoc.prems(2) unfolding agree_def by (metis in_set_conv_decomp list.set_intros(1) set_append UnCI)
  show ?case
    using IH [of a] ag
    by (cases "map_of t d") (auto simp: map_of_merge t map_add_Some_iff)
qed simp


section \<open>Accepted rules are in canonical form\<close>

lemma trim_space_set: "set (trim_space s) \<subseteq> set s"
proof -
  have "suffix (trim_left s) s"
    by (simp add: trim_left_def strip_front_suffix)
  then have "set (trim_left s) \<subseteq> set s"
    by (rule set_mono_suffix)
  with set_mono_prefix [OF trim_right_prefix [of "trim_left s"]] show ?thesis
    by (simp add: trim_space_def)
qed

lemma trim_right_plain: "s \<noteq> [] \<Longrightarrow> plain_byte (last s) \<Longrightarrow> trim_right s = s"
proof -
  assume s: "s \<noteq> []" "plain_byte (last s)"
  have "\<not> starts_with_any (map rev space_runes) (rev s)"
  proof
    assume "starts_with_any (map rev space_runes) (rev s)"
    then obtain p q where p: "p \<in> set space_runes" "p \<noteq> []" "s = q @ p"
      by (auto simp: starts_with_any_def prefix_def) (metis rev_append rev_rev_ident)
    then have "last s \<in> set p"
      by simp
    with p(1) s(2) show False
      by (auto simp: plain_byte_def)
  qed
  then show "trim_right s = s"
    by (simp add: trim_right_def strip_front_stop)
qed

lemma starts_with_any_append:
  assumes "\<not> starts_with_any space_runes s" and "s \<noteq> []" and "plain_byte c"
  shows "\<not> starts_with_any space_runes (s @ c # t)"
proof
  assume "starts_with_any space_runes (s @ c # t)"
  then obtain p where p: "p \<in> set space_runes" "p \<noteq> []" "prefix p (s @ c # t)"
    by (auto simp: starts_with_any_def)
  have "prefix p s"
  proof (rule ccontr)
    assume "\<not> prefix p s"
    with p(3) obtain r where "p = s @ r" "prefix r (c # t)" "r \<noteq> []"
      by (auto simp: prefix_append)
    then have "c \<in> set p"
      by (auto simp: prefix_Cons)
    with p(1) assms(3) show False
      by (auto simp: plain_byte_def)
  qed
  with p assms(1) show False
    by (auto simp: starts_with_any_def)
qed

lemma plain_bytes [simp]:
  "plain_byte CHR ''.''" "plain_byte CHR '':''" "plain_byte CHR ''3''" "plain_byte CHR ''/''"
  "plain_byte CHR ''[''"
  by (rule plain_byte_ascii; simp add: byte_def)+

lemma trim_space_plain_last:
  "\<not> starts_with_any space_runes s \<Longrightarrow> s \<noteq> [] \<Longrightarrow> plain_byte (last s) \<Longrightarrow> trim_space s = s"
  by (simp add: trim_space_def trim_left_def strip_front_stop trim_right_plain)

lemma split_host_port_suffix: "split_host_port s = Inr (h, p) \<Longrightarrow> suffix p s"
  by (auto simp: split_host_port_def suffix_drop split: option.splits if_splits)

lemma valid_upstream_last: "valid_upstream a \<Longrightarrow> a \<noteq> [] \<and> last a = CHR ''3''"
  by (auto simp: valid_upstream_def suffix_def dest!: split_host_port_suffix)

lemma no_double_colon: "CHR '':'' \<notin> set s \<Longrightarrow> \<not> str_contains (s @ '':53'') ''::''"
  by (induction s) (auto simp: prefix_Cons)

lemma normalize_server_idem: "normalize_server (normalize_server s) = normalize_server s"
  by (auto simp: normalize_server_def no_double_colon has_prefix_def)

lemma normalize_domain_idem: "normalize_domain (normalize_domain s) = normalize_domain s"
  by (simp add: normalize_domain_def has_suffix_def)

lemma trim_normalize_domain:
  "trim_space s = s \<Longrightarrow> s \<noteq> [] \<Longrightarrow> trim_space (normalize_domain s) = normalize_domain s"
  using trim_space_no_leading [of s] starts_with_any_append [of s "CHR ''.''" "[]"]
  by (auto simp: normalize_domain_def intro!: trim_space_plain_last)

lemma leading_normalize_server:
  "trim_space s = s \<Longrightarrow> s \<noteq> [] \<Longrightarrow> \<not> starts_with_any space_runes (normalize_server s)"
  using trim_space_no_leading [of s] starts_with_any_append [of s "CHR '':''" "''53''"]
    starts_with_plain [of "CHR ''[''"]
  by (auto simp: normalize_server_def)

lemma normalize_set:
  "set (normalize_domain d) \<subseteq> insert CHR ''.'' (set d)"
  "set (normalize_server s) \<subseteq> set ''[]:53'' \<union> set s"
  by (auto simp: normalize_domain_def normalize_server_def)

lemma processLine_parts:
  assumes "processLine line = (d, ip, True)"
  shows "trim_space d = d" "trim_space ip = ip" "normalize_domain d = d"
    "normalize_server ip = ip" "CHR ''/'' \<notin> set d" "CHR ''/'' \<notin> set ip"
    "d \<noteq> []" "length d \<le> 253" "valid_upstream ip"
proof -
  define ps where "ps = split_str ''/'' (trim_space line)"
  obtain dom srv where p: "3 \<le> length ps" "dom = trim_space (ps ! 1)" "srv = trim_space (ps ! 2)"
    "dom \<noteq> ''''" "srv \<noteq> ''''" "d = normalize_domain dom" "ip = normalize_server srv"
    "length d \<le> 253" "valid_upstream ip"
    using processLine_cases [OF assms] unfolding ps_def by auto
  have mem: "ps ! 1 \<in> set ps" "ps ! 2 \<in> set ps"
    using p(1) by auto
  then have "CHR ''/'' \<notin> set dom" "CHR ''/'' \<notin> set srv"
    using split_char_pieces [of _ "CHR ''/''" "trim_space line"] trim_space_set p(2,3)
    unfolding ps_def by blast+
  then show "CHR ''/'' \<notin> set d" "CHR ''/'' \<notin> set ip"
    using normalize_set(1) [of dom] normalize_set(2) [of srv] unfolding p(6,7) by auto
  show "trim_space d = d"
    unfolding p(6) using p(2,4) by (intro trim_normalize_domain) (simp_all add: trim_space_idem)
  show "trim_space ip = ip"
    using leading_normalize_server [of srv] valid_upstream_last [OF p(9)] p(3,5,7)
    by (intro trim_space_plain_last) (auto simp: trim_space_idem)
  show "normalize_domain d = d" "normalize_server ip = ip"
    by (simp_all add: p(6,7) normalize_domain_idem normalize_server_idem)
  show "d \<noteq> []"
    using p(4,6) by (simp add: normalize_domain_def)
  show "length d \<le> 253" "valid_upstream ip"
    by (rule p(8), rule p(9))
qed

lemma trim_space_edges_ascii:
  "s = [] \<or> plain_byte (hd s) \<and> plain_byte (last s) \<Longrightarrow> trim_space s = s"
  by (rule trim_space_plain_edges) auto

lemmas line_eval = processLine_def trim_space_edges_ascii plain_byte_ascii byte_defs
  validateDomain_def validateIPPort_def normalize_domain_def normalize_server_def
  has_prefix_def has_suffix_def split_host_port_def parse_ip_def parse_ipv4_def parse_ipv6_def
  octet_def hex_val_def suffix_to_prefix

text \<open>
  C37: an accepted routing rule is in canonical form. When a line yields a domain and a
  server, the domain is absolute and at most 253 bytes long, the server is a literal address
  with port 53, and the rule written out from them is accepted with the same two values.
\<close>

theorem processLine_canonical:
  assumes "processLine line = (d, ip, True)"
  shows "has_suffix d ''.'' \<and> length d \<le> 253 \<and> valid_upstream ip \<and>
    processLine (''/'' @ d @ ''/'' @ ip) = (d, ip, True)"
proof -
  note p = processLine_parts [OF assms]
  let ?l = "''/'' @ d @ ''/'' @ ip"
  have "trim_space ?l = ?l"
    using valid_upstream_last [OF p(9)] by (intro trim_space_plain_edges) auto
  moreover have "split_str ''/'' ?l = ['''', d, ip]"
    using p(5,6) by (simp add: split_char_append split_char_none split_char_Cons)
  moreover have "has_suffix d ''.''"
    using normalize_domain_suffix [of d] p(3) by simp
  moreover have "\<not> has_prefix ?l ''#''"
    by (simp add: has_prefix_def)
  moreover have "ip \<noteq> []"
    using valid_upstream_last [OF p(9)] by simp
  ultimately show ?thesis
    using p by (simp add: processLine_def validateIPPort_upstream
        validateDomain_normalized [of d, simplified p(3)])
qed

lemma processLine_canonical_witness:
  "processLine ''/example.com/8.8.8.8'' = (''example.com.'', ''8.8.8.8:53'', True) \<and>
   processLine ''/example.com./8.8.8.8:53'' = (''example.com.'', ''8.8.8.8:53'', True)"
proof -
  have l: "processLine ''/example.com/8.8.8.8'' = (''example.com.'', ''8.8.8.8:53'', True)"
    by (simp add: line_eval)
  show ?thesis
    using processLine_canonical [OF l] l by simp
qed

text \<open>
  An IPv6 server without port is accepted only when it is abbreviated: a full address is
  taken for a host and port and the rule is dropped without notice, although
  \<open>net.ParseIP\<close> accepts it and the bracketed form with port 53 is accepted.
\<close>

theorem processLine_full_ipv6:
  "parse_ip ''2001:db8:1:2:3:4:5:6'' \<noteq> None \<and>
   processLine ''/a.b/2001:db8:1:2:3:4:5:6'' = ('''', '''', False) \<and>
   processLine ''/a.b/[2001:db8:1:2:3:4:5:6]:53'' = (''a.b.'', ''[2001:db8:1:2:3:4:5:6]:53'', True) \<and>
   processLine ''/a.b/2001:db8::6'' = (''a.b.'', ''[2001:db8::6]:53'', True)"
  by (simp add: line_eval v6_loop.simps)

section \<open>What a load gives\<close>

text \<open>The servers that the valid lines give to a domain, in file order.\<close>

definition servers_of :: "string \<Rightarrow> string list \<Rightarrow> string list" where
  "servers_of d ls =
     map (\<lambda>(_, ip, _). ip) (filter (\<lambda>(d', _, v). v \<and> d' = d) (map processLine ls))"

definition last_opt :: "'a list \<Rightarrow> 'a option" where
  "last_opt xs = (if xs = [] then None else Some (last xs))"

lemma map_of_lines: "map_of (foldl add_line [] ls) d = last_opt (servers_of d ls)"
proof (induction ls rule: rev_induct)
  case (snoc l ls)
  then show ?case
    by (cases "processLine l")
      (auto simp: add_line_def servers_of_def last_opt_def map_of_update split: if_splits)
qed (simp add: servers_of_def last_opt_def)

lemma lefts_empty: "lefts rs = [] \<longleftrightarrow> (\<forall>r \<in> set rs. \<exists>a. r = Inr a)"
  by (induction rs rule: lefts.induct) auto

lemma loadRoutingTable_cases:
  assumes "txt_files es \<noteq> []" and "set (arrive (txt_files es)) = set (txt_files es)"
  shows "(\<exists>t. loadRoutingTable (Some es) out arrive = Inr t) \<longleftrightarrow>
    (\<forall>f \<in> set (txt_files es). \<exists>l. loadSingleFile f (out f) = Inr l)"
proof -
  let ?R = "map (\<lambda>f. loadSingleFile f (out f)) (arrive (txt_files es))"
  have "(\<exists>t. loadRoutingTable (Some es) out arrive = Inr t) \<longleftrightarrow> lefts ?R = []"
    using assms(1) by (cases "lefts ?R") (simp_all add: loadRoutingTable_def)
  also have "\<dots> \<longleftrightarrow> (\<forall>f \<in> set (txt_files es). \<exists>l. loadSingleFile f (out f) = Inr l)"
    using assms(2) by (simp add: lefts_empty)
  finally show ?thesis .
qed

lemma loadRoutingTable_Inr:
  assumes "loadRoutingTable (Some es) out arrive = Inr t"
    and "set (arrive (txt_files es)) = set (txt_files es)"
  obtains rs where "t = foldl merge_table [] rs"
    and "\<And>l. l \<in> set rs \<longleftrightarrow> (\<exists>f \<in> set (txt_files es). loadSingleFile f (out f) = Inr l)"
proof -
  let ?rs = "rights (map (\<lambda>f. loadSingleFile f (out f)) (arrive (txt_files es)))"
  have "t = foldl merge_table [] ?rs"
    using assms(1) by (auto simp: loadRoutingTable_def Let_def split: if_splits list.splits)
  moreover have "l \<in> set ?rs \<longleftrightarrow> (\<exists>f \<in> set (txt_files es). loadSingleFile f (out f) = Inr l)" for l
    using assms(2) by (auto simp: rights_set image_iff) metis+
  ultimately show thesis
    using that by blast
qed

definition file_lines :: "file_outcome \<Rightarrow> string list" where
  "file_lines out = (case out of OpenFailed \<Rightarrow> [] | Content data e \<Rightarrow> fst (scan_lines data))"

lemma loadSingleFile_lookup:
  "loadSingleFile f out = Inr l \<Longrightarrow> map_of l d = last_opt (servers_of d (file_lines out))"
  by (auto simp: loadSingleFile_def file_lines_def map_of_lines Let_def
      split: file_outcome.splits prod.splits if_splits)

text \<open>The files give no domain two servers.\<close>

definition files_agree :: "string list \<Rightarrow> (string \<Rightarrow> file_outcome) \<Rightarrow> bool" where
  "files_agree fs out \<longleftrightarrow>
     (\<forall>f \<in> set fs. \<forall>g \<in> set fs. \<forall>d a b.
        last_opt (servers_of d (file_lines (out f))) = Some a \<longrightarrow>
        last_opt (servers_of d (file_lines (out g))) = Some b \<longrightarrow> a = b)"

text \<open>
  C16: loading a folder does not depend on the order in which the goroutines finish. It
  succeeds exactly when the folder can be listed, holds a text file, and every text file can be
  read to its end; and then, if the files do not contradict each other, a domain is routed to
  a server exactly when some file's last valid rule for the domain names that server.
\<close>

theorem loadRoutingTable_spec:
  assumes "\<And>fs. mset (arrive fs) = mset fs"
  shows "((\<exists>t. loadRoutingTable listing out arrive = Inr t) \<longleftrightarrow>
      (\<exists>es. listing = Some es \<and> txt_files es \<noteq> [] \<and>
        (\<forall>f \<in> set (txt_files es). \<exists>l. loadSingleFile f (out f) = Inr l))) \<and>
    (\<forall>es t. listing = Some es \<longrightarrow> loadRoutingTable listing out arrive = Inr t \<longrightarrow>
      files_agree (txt_files es) out \<longrightarrow>
      (\<forall>d a. map_of t d = Some a \<longleftrightarrow>
        (\<exists>f \<in> set (txt_files es). last_opt (servers_of d (file_lines (out f))) = Some a)))"
proof -
  have s: "set (arrive (txt_files es)) = set (txt_files es)" for es
    using assms by (rule mset_eq_setD)
  note loads = loadRoutingTable_cases [of _ arrive out, OF _ s]
  have some: "\<exists>es. listing = Some es \<and> txt_files es \<noteq> []"
    if "loadRoutingTable listing out arrive = Inr t" for t
    using that by (auto simp: loadRoutingTable_def Let_def split: option.splits if_splits)
  have "map_of t d = Some a \<longleftrightarrow>
      (\<exists>f \<in> set (txt_files es). last_opt (servers_of d (file_lines (out f))) = Some a)"
    if es: "listing = Some es" and t: "loadRoutingTable (Some es) out arrive = Inr t"
      and agr: "files_agree (txt_files es) out" for es t d a
  proof -
    have ne: "txt_files es \<noteq> []"
      using some t es by blast
    obtain rs where rs: "t = foldl merge_table [] rs"
      "\<And>l. l \<in> set rs \<longleftrightarrow> (\<exists>f \<in> set (txt_files es). loadSingleFile f (out f) = Inr l)"
      using loadRoutingTable_Inr [OF t s] by blast
    have "agree rs"
      unfolding agree_def
    proof (intro ballI allI impI)
      fix l m d a b
      assume "l \<in> set rs" "m \<in> set rs" and eq: "map_of l d = Some a" "map_of m d = Some b"
      then obtain f g where fg: "f \<in> set (txt_files es)" "g \<in> set (txt_files es)"
        "loadSingleFile f (out f) = Inr l" "loadSingleFile g (out g) = Inr m"
        using rs(2) by blast
      with eq have "last_opt (servers_of d (file_lines (out f))) = Some a"
        "last_opt (servers_of d (file_lines (out g))) = Some b"
        by (simp_all add: loadSingleFile_lookup)
      with agr fg(1,2) show "a = b"
        unfolding files_agree_def by blast
    qed
    then have "map_of t d = Some a \<longleftrightarrow> (\<exists>l \<in> set rs. map_of l d = Some a)"
      unfolding rs(1) by (intro map_of_merges) (auto simp: rs(2) dest: table_ok_file)
    also have "\<dots> \<longleftrightarrow> (\<exists>f \<in> set (txt_files es). last_opt (servers_of d (file_lines (out f))) = Some a)"
    proof -
      have all: "\<exists>l. loadSingleFile f (out f) = Inr l" if "f \<in> set (txt_files es)" for f
        using loads [OF ne] t that by blast
      have "map_of l d = last_opt (servers_of d (file_lines (out f)))"
        if "loadSingleFile f (out f) = Inr l" for f l
        by (rule loadSingleFile_lookup [OF that])
      with all show ?thesis
        using rs(2) by (metis (lifting))
    qed
    finally show ?thesis .
  qed
  moreover have "(\<exists>t. loadRoutingTable listing out arrive = Inr t) \<longleftrightarrow>
      (\<exists>es. listing = Some es \<and> txt_files es \<noteq> [] \<and>
        (\<forall>f \<in> set (txt_files es). \<exists>l. loadSingleFile f (out f) = Inr l))"
    using some loads by metis
  ultimately show ?thesis
    by blast
qed


text \<open>Two files that agree, loaded in the opposite order.\<close>

definition two_files :: "string \<Rightarrow> file_outcome" where
  "two_files f =
     Content (if f = ''a.txt'' then ''/x.com/1.1.1.1'' @ [char_of (10 :: nat)] @ ''/y.com/2.2.2.2''
       else ''# comment'') False"

lemma loadRoutingTable_spec_witness:
  "\<exists>t. loadRoutingTable (Some [(''a.txt'', False), (''d'', True), (''b.txt'', False)]) two_files rev =
     Inr t \<and> map_of t ''x.com.'' = Some ''1.1.1.1:53''"
proof -
  let ?es = "[(''a.txt'', False), (''d'', True), (''b.txt'', False)]"
  have fs: "txt_files ?es = [''a.txt'', ''b.txt'']"
    by (simp add: txt_files_def has_suffix_def suffix_to_prefix)
  have lines: "file_lines (two_files ''a.txt'') = [''/x.com/1.1.1.1'', ''/y.com/2.2.2.2'']"
    "file_lines (two_files ''b.txt'') = [''# comment'']"
    by (simp_all add: file_lines_def two_files_def scan_lines_def newline_char drop_cr_def
        max_token_size_def byte_def)
  have ok: "\<exists>l. loadSingleFile f (two_files f) = Inr l" for f
    by (simp add: loadSingleFile_def two_files_def scan_lines_def newline_char drop_cr_def
        max_token_size_def byte_def)
  have x: "processLine ''/x.com/1.1.1.1'' = (''x.com.'', ''1.1.1.1:53'', True)"
    "processLine ''/y.com/2.2.2.2'' = (''y.com.'', ''2.2.2.2:53'', True)"
    "processLine ''# comment'' = ('''', '''', False)"
    by (simp_all add: line_eval)
  have agree: "files_agree (txt_files ?es) two_files"
    by (simp add: files_agree_def fs lines servers_of_def x last_opt_def)
  have l: "last_opt (servers_of ''x.com.'' (file_lines (two_files ''a.txt''))) = Some ''1.1.1.1:53''"
    by (simp add: lines servers_of_def x last_opt_def)
  have ne: "txt_files ?es \<noteq> []"
    by (simp add: fs)
  note load = loadRoutingTable_spec [of rev "Some ?es" two_files, OF mset_rev]
  have "\<exists>t. loadRoutingTable (Some ?es) two_files rev = Inr t"
    unfolding conjunct1 [OF load] using ok ne by (intro exI [of _ ?es]) simp
  then obtain t where t: "loadRoutingTable (Some ?es) two_files rev = Inr t"
    by blast
  have "map_of t ''x.com.'' = Some ''1.1.1.1:53'' \<longleftrightarrow>
      (\<exists>f \<in> set (txt_files ?es). last_opt (servers_of ''x.com.'' (file_lines (two_files f))) =
        Some ''1.1.1.1:53'')"
    using conjunct2 [OF load, rule_format, OF refl t agree] .
  with l t show ?thesis
    by (simp add: fs)
qed

section \<open>The routes in use\<close>

text \<open>
  C17: in every state the start-up and any sequence of reloads can reach, a lookup yields only
  addresses the program accepts as upstream, for absolute domains of at most 253 bytes, and a
  table once in use is never lost: no later load, failed or empty, takes it away.
\<close>

theorem routing_reachable_lookup:
  assumes "routing_reachable c s" and "(routing_step c)\<^sup>*\<^sup>* s s'"
  shows "(LookupDomain s' d = Some a \<longrightarrow>
      has_suffix d ''.'' \<and> length d \<le> 253 \<and> valid_upstream a) \<and>
    (GetRoutingTable s \<noteq> [] \<longrightarrow> GetRoutingTable s' \<noteq> [])"
proof -
  have "routing_inv s' \<and> (routingTablePtr s \<noteq> None \<longrightarrow> routingTablePtr s' \<noteq> None)"
    using assms(2)
  proof (induction rule: rtranclp_induct)
    case base
    then show ?case
      using routing_reachable_inv [OF assms(1)] by simp
  next
    case (step t u)
    then have "routing_inv u"
      using routing_inv_step by blast
    moreover have "routingTablePtr t \<noteq> None \<longrightarrow> routingTablePtr u \<noteq> None"
      using step(2) by cases (auto simp: InitializeDomainRouting_def start_refresh_def
          reload_tick_def split: sum.splits)
    ultimately show ?case
      using step by blast
  qed
  moreover from this have "LookupDomain s' d = Some a \<Longrightarrow> valid_route (d, a)"
    unfolding LookupDomain_route by (auto intro: route_lookup_valid)
  ultimately show ?thesis
    by (auto simp: valid_route_def GetRoutingTable_def routing_inv_def split: option.splits)
qed


definition routed_config :: Config where
  "routed_config = (pure_config (\<lambda>_. ''''))\<lparr>EnableDomainRouting := True, DomainRoutingFolder := ''/d''\<rparr>"

definition one_file :: "string \<Rightarrow> file_outcome" where
  "one_file f = Content ''/x.com/1.1.1.1'' False"

definition one_loaded :: "load_error + table" where
  "one_loaded = loadRoutingTable (Some [(''a.txt'', False)]) one_file id"

lemma one_loaded: "one_loaded = Inr [(''x.com.'', ''1.1.1.1:53'')]"
proof -
  have "processLine ''/x.com/1.1.1.1'' = (''x.com.'', ''1.1.1.1:53'', True)"
    by (simp add: line_eval)
  then have "loadSingleFile ''a.txt'' (one_file ''a.txt'') = Inr [(''x.com.'', ''1.1.1.1:53'')]"
    by (simp add: loadSingleFile_def one_file_def scan_lines_def newline_char drop_cr_def
        max_token_size_def byte_def add_line_def)
  then show ?thesis
    by (simp add: one_loaded_def loadRoutingTable_def txt_files_def has_suffix_def suffix_to_prefix
        merge_table_def)
qed

text \<open>A table is loaded, and the reload that follows fails.\<close>

lemma routing_reachable_lookup_witness:
  "\<exists>s s'. (routing_step routed_config)\<^sup>*\<^sup>* s s' \<and> LookupDomain s' ''x.com.'' = Some ''1.1.1.1:53'' \<and>
     valid_upstream ''1.1.1.1:53'' \<and> GetRoutingTable s' \<noteq> []"
proof -
  let ?s = "InitializeDomainRouting routed_config one_loaded routing_init"
  let ?s' = "reload_tick (loadRoutingTable None one_file id) ?s"
  have s: "routing_reachable routed_config ?s"
    unfolding one_loaded_def
    by (rule routing_reachable.step [OF routing_reachable.init]) (rule routing_step.start [OF refl])
  have steps: "(routing_step routed_config)\<^sup>*\<^sup>* ?s ?s'"
    by (rule r_into_rtranclp) (rule routing_step.tick [OF refl])
  have c: "EnableDomainRouting routed_config" "DomainRoutingFolder routed_config = ''/d''"
    by (simp_all add: routed_config_def)
  have p: "routingTablePtr (start_refresh routed_config r) = routingTablePtr r" for r
    by (simp add: start_refresh_def)
  have t: "routingTablePtr ?s = Some [(''x.com.'', ''1.1.1.1:53'')]"
    by (simp add: InitializeDomainRouting_def one_loaded c p)
  have t': "routingTablePtr ?s' = routingTablePtr ?s"
    by (simp add: reload_tick_def loadRoutingTable_def)
  have l: "LookupDomain ?s' ''x.com.'' = Some ''1.1.1.1:53''" "GetRoutingTable ?s \<noteq> []"
    by (simp_all only: LookupDomain_def GetRoutingTable_def t' t) simp_all
  show ?thesis
    using routing_reachable_lookup [OF s steps, of "''x.com.''" "''1.1.1.1:53''"] l steps by blast
qed

end
