(* ===== verification/DnsResolver.thy ===== *)
theory DnsResolver
  imports DnsSource DomainRouting
begin

text \<open>
  The resolver, \<open>dnsresolver/dnsresolver.go\<close>: a query is sent to the routed server of its
  domain alone, or else to the private and then the public servers of the client until one
  answers. The exchange with a server is the parameter \<open>net\<close>, which also gets the number of
  the attempt, so that the same server may behave differently when it is asked again;
  \<open>dns.Fqdn\<close> is the parameter \<open>fqdn\<close>. The resource records are of any type. A nil slice of
  records is \<open>None\<close>. The servers that are contacted and the calls on the metrics recorder are
  recorded in the state, in order.

  The usage statistics are modelled twice: sequentially, and as the threads of
  \<open>incrementServerUsage\<close> with its double-checked lock.
\<close>

record dns_query =
  qname :: string
  qtype :: u16
  RecursionDesired :: bool

text \<open>The result of \<open>dnsClient.Exchange\<close>: a response or nil, the time, whether \<open>err != nil\<close>.\<close>

record 'r exchange =
  response :: "'r list option option"
  rtt :: duration
  failed :: bool

type_synonym 'r net = "nat \<Rightarrow> dns_query \<Rightarrow> string \<Rightarrow> 'r exchange"

record resolver_state =
  dnsUsageStats :: "string \<Rightarrow> i64 option"
  contacted :: "string list"
  recorded :: "metric_call list"

definition prepareDNSQuery :: "(string \<Rightarrow> string) \<Rightarrow> string \<Rightarrow> u16 \<Rightarrow> dns_query" where
  "prepareDNSQuery fqdn domain qt = \<lparr>qname = fqdn domain, qtype = qt, RecursionDesired = True\<rparr>"

definition incrementServerUsage :: "string \<Rightarrow> (string \<Rightarrow> i64 option) \<Rightarrow> string \<Rightarrow> i64 option" where
  "incrementServerUsage server m =
     m(server \<mapsto> (case m server of None \<Rightarrow> 0 | Some n \<Rightarrow> n) + 1)"

text \<open>The answer, and whether the error is nil.\<close>

definition exchangeWithServer ::
    "Config \<Rightarrow> 'r net \<Rightarrow> dns_query \<Rightarrow> string \<Rightarrow> resolver_state \<Rightarrow>
     ('r list option \<times> bool) \<times> resolver_state" where
  "exchangeWithServer c net m svr s0 =
     (let x = net (length (contacted s0)) m svr;
          s = s0\<lparr>contacted := contacted s0 @ [svr]\<rparr>
      in case response x of
        Some answer \<Rightarrow>
          if \<not> failed x then
            ((answer, True),
             s\<lparr>dnsUsageStats := incrementServerUsage svr (dnsUsageStats s),
               recorded := recorded s @
                 (if EnableMetrics c then [RecordUpstreamQuery svr ''success'' (rtt x)] else [])\<rparr>)
          else ((None, False), s\<lparr>recorded := recorded s @
                 (if EnableMetrics c then [RecordUpstreamQuery svr ''error'' (rtt x),
                    RecordError ''upstream_query_failed'' ''dns_exchange''] else [])\<rparr>)
      | None \<Rightarrow> ((None, \<not> failed x), s\<lparr>recorded := recorded s @
                 (if EnableMetrics c then [RecordUpstreamQuery svr ''error'' (rtt x),
                    RecordError ''upstream_query_failed'' ''dns_exchange''] else [])\<rparr>))"

text \<open>One of the two loops: \<open>Some answer\<close> when it returns, \<open>None\<close> when it runs out.\<close>

fun try_servers ::
    "Config \<Rightarrow> 'r net \<Rightarrow> dns_query \<Rightarrow> string list \<Rightarrow> resolver_state \<Rightarrow>
     'r list option option \<times> resolver_state" where
  "try_servers c net m [] s = (None, s)"
| "try_servers c net m (svr # ss) s =
     (case exchangeWithServer c net m svr s of
        ((answer, True), s') \<Rightarrow> (Some answer, s')
      | ((answer, False), s') \<Rightarrow> try_servers c net m ss s')"

definition upstreamDNSQuery ::
    "Config \<Rightarrow> 'r net \<Rightarrow> string list \<Rightarrow> string list \<Rightarrow> dns_query \<Rightarrow> resolver_state \<Rightarrow>
     'r list option \<times> resolver_state" where
  "upstreamDNSQuery c net privs pubs m s =
     (if length pubs = 0 \<and> length privs = 0 then (None, s)
      else case try_servers c net m privs s of
        (Some answer, s1) \<Rightarrow> (answer, s1)
      | (None, s1) \<Rightarrow>
          if length pubs = 0 then (None, s1)
          else case try_servers c net m pubs s1 of
            (Some answer, s2) \<Rightarrow> (answer, s2)
          | (None, s2) \<Rightarrow> (None, s2))"

text \<open>What the resolver reads and changes besides its own state.\<close>

record ('c, 'r) resolver_env =
  env_cfg :: Config
  env_gocache :: "('c, string) gocache"
  env_net :: "'r net"
  env_fqdn :: "string \<Rightarrow> string"

definition ResolverForClient ::
    "('c, 'r) resolver_env \<Rightarrow> arp_world \<times> nanos \<Rightarrow> string \<Rightarrow> u16 \<Rightarrow> string \<Rightarrow>
     source_state \<times> 'c client_state \<Rightarrow> resolver_state \<Rightarrow>
     (client_panic + 'r list option) \<times> (source_state \<times> 'c client_state) \<times> resolver_state" where
  "ResolverForClient e t domain qt clientIP src s =
     (let m = prepareDNSQuery (env_fqdn e) domain qt
      in case select_servers (env_gocache e) (env_cfg e) t clientIP src of
        (Inl p, src') \<Rightarrow> (Inl p, src', s)
      | (Inr (privs, pubs), src') \<Rightarrow>
          (case upstreamDNSQuery (env_cfg e) (env_net e) privs pubs m s of
             (answer, s') \<Rightarrow> (Inr answer, src', s')))"

definition ResolverForDomain ::
    "('c, 'r) resolver_env \<Rightarrow> arp_world \<times> nanos \<Rightarrow> routing_state \<Rightarrow> string \<Rightarrow> u16 \<Rightarrow> string \<Rightarrow>
     source_state \<times> 'c client_state \<Rightarrow> resolver_state \<Rightarrow>
     (client_panic + 'r list option) \<times> (source_state \<times> 'c client_state) \<times> resolver_state" where
  "ResolverForDomain e t rs domain qt clientIP src s =
     (let m = prepareDNSQuery (env_fqdn e) domain qt
      in case map_of (GetRoutingTable rs) domain of
        Some svr \<Rightarrow>
          (case upstreamDNSQuery (env_cfg e) (env_net e) [svr] [] m s of
             (result, s') \<Rightarrow> (Inr result, src, s'))
      | None \<Rightarrow> ResolverForClient e t domain qt clientIP src s)"

definition GetServerUsageStats :: "resolver_state \<Rightarrow> string \<Rightarrow> i64 option" where
  "GetServerUsageStats s = dnsUsageStats s"

text \<open>
  The periodic health check: a ticker, and what each tick does. (The function has the name of the
  one of \<open>dnssource\<close> that it calls.)
\<close>

definition StartDNSServersUpdate ::
    "Config \<Rightarrow> ticker_panic + (probe \<Rightarrow> (string list \<Rightarrow> string list) \<Rightarrow>
       (metric_call list list \<Rightarrow> metric_call list) \<Rightarrow> nanos \<Rightarrow> source_state \<Rightarrow>
       source_state \<times> metric_call list)" where
  "StartDNSServersUpdate c =
     (case NewTicker (CacheRefresh c) of Inl p \<Rightarrow> Inl p | Inr _ \<Rightarrow> Inr (UpdateDNSServersCache c))"

section \<open>The attempts of a query\<close>

text \<open>An attempt ends the query when there is no error; without a response the answer is nil.\<close>

definition attempt_answer :: "'r exchange \<Rightarrow> 'r list option" where
  "attempt_answer x = (case response x of Some a \<Rightarrow> a | None \<Rightarrow> None)"

lemma exchange_result:
  "fst (exchangeWithServer c net m svr s) =
     (let x = net (length (contacted s)) m svr
      in (if failed x then None else attempt_answer x, \<not> failed x))"
  "contacted (snd (exchangeWithServer c net m svr s)) = contacted s @ [svr]"
  by (auto simp: exchangeWithServer_def attempt_answer_def Let_def split: option.splits)

lemma exchange_usage:
  "dnsUsageStats (snd (exchangeWithServer c net m svr s)) =
     (let x = net (length (contacted s)) m svr
      in if \<not> failed x \<and> response x \<noteq> None then incrementServerUsage svr (dnsUsageStats s)
         else dnsUsageStats s)"
  by (auto simp: exchangeWithServer_def Let_def split: option.splits)

lemma try_servers_Cons:
  "try_servers c net m (svr # ss) s =
     (let x = net (length (contacted s)) m svr; s' = snd (exchangeWithServer c net m svr s)
      in if failed x then try_servers c net m ss s' else (Some (attempt_answer x), s'))"
  using exchange_result(1) [of c net m svr s]
  by (cases "exchangeWithServer c net m svr s") (auto simp: Let_def split: bool.splits if_splits)

lemma try_servers_append:
  "try_servers c net m (xs @ ys) s =
     (case try_servers c net m xs s of
        (Some a, s') \<Rightarrow> (Some a, s')
      | (None, s') \<Rightarrow> try_servers c net m ys s')"
  by (induction xs arbitrary: s)
    (auto simp: try_servers_Cons Let_def simp del: try_servers.simps(2))

lemma upstream_try:
  "upstreamDNSQuery c net privs pubs m s =
     (case try_servers c net m (privs @ pubs) s of
        (Some a, s') \<Rightarrow> (a, s')
      | (None, s') \<Rightarrow> (None, s'))"
  by (auto simp: upstreamDNSQuery_def try_servers_append split: prod.splits option.splits)


definition attempt :: "'r net \<Rightarrow> dns_query \<Rightarrow> string list \<Rightarrow> resolver_state \<Rightarrow> nat \<Rightarrow> 'r exchange" where
  "attempt net m ss s i = net (length (contacted s) + i) m (ss ! i)"

lemma attempt_Suc:
  "contacted s' = contacted s @ [svr] \<Longrightarrow> attempt net m (svr # ss) s (Suc i) = attempt net m ss s' i"
  by (simp add: attempt_def)

lemma try_servers_first:
  "i < length ss \<Longrightarrow> \<not> failed (attempt net m ss s i) \<Longrightarrow> (\<forall>j < i. failed (attempt net m ss s j)) \<Longrightarrow>
     fst (try_servers c net m ss s) = Some (attempt_answer (attempt net m ss s i)) \<and>
     contacted (snd (try_servers c net m ss s)) = contacted s @ take (Suc i) ss \<and>
     dnsUsageStats (snd (try_servers c net m ss s)) =
       (if response (attempt net m ss s i) \<noteq> None
        then incrementServerUsage (ss ! i) (dnsUsageStats s) else dnsUsageStats s)"
proof (induction ss arbitrary: s i)
  case (Cons svr ss)
  let ?s' = "snd (exchangeWithServer c net m svr s)"
  note c' = exchange_result(2) [of c net m svr s]
  show ?case
  proof (cases i)
    case 0
    then show ?thesis
      using Cons.prems c' exchange_usage [of c net m svr s]
      by (simp add: try_servers_Cons attempt_def Let_def del: try_servers.simps(2))
  next
    case (Suc k)
    have f: "failed (net (length (contacted s)) m svr)"
      using Cons.prems(3) Suc by (auto simp: attempt_def dest: spec [of _ 0])
    have u: "dnsUsageStats ?s' = dnsUsageStats s"
      using f by (simp add: exchange_usage Let_def)
    have "\<forall>j < k. failed (attempt net m ss ?s' j)"
      using Cons.prems(3) Suc attempt_Suc [OF c'] by (metis Suc_mono)
    with Cons.IH [of k ?s'] Cons.prems Suc f u c' show ?thesis
      by (simp add: try_servers_Cons Let_def attempt_Suc [OF c'] del: try_servers.simps(2))
  qed
qed simp

lemma try_servers_none:
  "(\<forall>j < length ss. failed (attempt net m ss s j)) \<Longrightarrow>
     fst (try_servers c net m ss s) = None \<and>
     contacted (snd (try_servers c net m ss s)) = contacted s @ ss \<and>
     dnsUsageStats (snd (try_servers c net m ss s)) = dnsUsageStats s"
proof (induction ss arbitrary: s)
  case (Cons svr ss)
  let ?s' = "snd (exchangeWithServer c net m svr s)"
  note c' = exchange_result(2) [of c net m svr s]
  have f: "failed (net (length (contacted s)) m svr)"
    using Cons.prems by (auto simp: attempt_def dest: spec [of _ 0])
  have "\<forall>j < length ss. failed (attempt net m ss ?s' j)"
    using Cons.prems attempt_Suc [OF c'] by (metis Suc_mono length_Cons)
  with Cons.IH [of ?s'] f c' show ?case
    by (simp add: try_servers_Cons Let_def exchange_usage del: try_servers.simps(2))
qed simp

lemma try_servers_prefix:
  "\<exists>k. contacted (snd (try_servers c net m ss s)) = contacted s @ take k ss"
proof (cases "\<forall>j < length ss. failed (attempt net m ss s j)")
  case True
  then show ?thesis
    using try_servers_none [OF True, of c] by (metis take_all order_refl)
next
  case False
  let ?P = "\<lambda>j. j < length ss \<and> \<not> failed (attempt net m ss s j)"
  obtain i where i: "?P i" "\<forall>j < i. \<not> ?P j"
    using False exists_least_iff [of ?P] by blast
  then have "\<forall>j < i. failed (attempt net m ss s j)"
    by auto
  with i(1) show ?thesis
    using try_servers_first [of i ss net m s c] by blast
qed

lemma upstream_contacts:
  "\<exists>k. contacted (snd (upstreamDNSQuery c net privs pubs m s)) = contacted s @ take k (privs @ pubs)"
  using try_servers_prefix [of c net m "privs @ pubs" s]
  by (auto simp: upstream_try split: prod.splits option.splits)

text \<open>What a server source guarantees of a query that is resolved with it.\<close>

context server_source
begin

lemma resolve_contacts:
  assumes "select_inv src" and "select t ip src = (Inr (privs, pubs), src')"
  shows "set (contacted (snd (upstreamDNSQuery c net privs pubs m s))) \<subseteq> set (contacted s) \<union> known"
  using upstream_contacts [of c net privs pubs m s] select_known [OF assms(1), of t ip privs pubs] assms(2)
  by (auto dest!: in_set_takeD)

end

section \<open>Properties of a query\<close>

text \<open>
  C15: a query asks the private servers and then the public ones, in order, until one exchange
  ends without error. The answer is that of the first such exchange, nothing is asked after
  it, and only a server that returned a response is counted; when every exchange fails all
  servers have been asked, the answer is nil and nothing is counted.
\<close>

theorem upstreamDNSQuery_spec:
  fixes privs pubs :: "string list" and s :: resolver_state
  shows "(\<forall>i < length (privs @ pubs). \<not> failed (attempt net m (privs @ pubs) s i) \<and> (\<forall>j < i. failed (attempt net m (privs @ pubs) s j)) \<longrightarrow>
      (\<exists>s'. upstreamDNSQuery c net privs pubs m s = (attempt_answer (attempt net m (privs @ pubs) s i), s') \<and>
        contacted s' = contacted s @ take (Suc i) (privs @ pubs) \<and>
        dnsUsageStats s' = (if response (attempt net m (privs @ pubs) s i) \<noteq> None
          then incrementServerUsage ((privs @ pubs) ! i) (dnsUsageStats s) else dnsUsageStats s))) \<and>
    ((\<forall>i < length (privs @ pubs). failed (attempt net m (privs @ pubs) s i)) \<longrightarrow>
      (\<exists>s'. upstreamDNSQuery c net privs pubs m s = (None, s') \<and>
        contacted s' = contacted s @ privs @ pubs \<and> dnsUsageStats s' = dnsUsageStats s))"
proof (intro conjI allI impI)
  fix i
  assume "i < length (privs @ pubs)" and "\<not> failed (attempt net m (privs @ pubs) s i) \<and> (\<forall>j < i. failed (attempt net m (privs @ pubs) s j))"
  then show "\<exists>s'. upstreamDNSQuery c net privs pubs m s = (attempt_answer (attempt net m (privs @ pubs) s i), s') \<and>
        contacted s' = contacted s @ take (Suc i) (privs @ pubs) \<and>
        dnsUsageStats s' = (if response (attempt net m (privs @ pubs) s i) \<noteq> None
          then incrementServerUsage ((privs @ pubs) ! i) (dnsUsageStats s) else dnsUsageStats s)"
    using try_servers_first [of i "privs @ pubs" net m s c]
    by (cases "try_servers c net m (privs @ pubs) s") (simp add: upstream_try)
next
  assume "\<forall>i < length (privs @ pubs). failed (attempt net m (privs @ pubs) s i)"
  then show "\<exists>s'. upstreamDNSQuery c net privs pubs m s = (None, s') \<and>
        contacted s' = contacted s @ privs @ pubs \<and> dnsUsageStats s' = dnsUsageStats s"
    using try_servers_none [of "privs @ pubs" net m s c]
    by (cases "try_servers c net m (privs @ pubs) s") (simp add: upstream_try)
qed

definition quiet_resolver :: resolver_state where
  "quiet_resolver = \<lparr>dnsUsageStats = (\<lambda>_. None), contacted = [], recorded = []\<rparr>"

text \<open>The private server fails, the first public one answers.\<close>

definition first_fails :: "nat net" where
  "first_fails n m svr = \<lparr>response = (if n = 0 then None else Some (Some [n])), rtt = 1, failed = (n = 0)\<rparr>"

definition some_query :: dns_query where
  "some_query = prepareDNSQuery (\<lambda>d. d) ''x.com.'' 1"

lemma upstreamDNSQuery_spec_witness:
  "\<exists>s'. upstreamDNSQuery phone_config first_fails [''p:53''] [''q:53'', ''r:53''] some_query quiet_resolver = (Some [1], s') \<and>
     contacted s' = [''p:53'', ''q:53''] \<and>
     dnsUsageStats s' = incrementServerUsage ''q:53'' (\<lambda>_. None)"
proof -
  have "attempt first_fails some_query [''p:53'', ''q:53'', ''r:53''] quiet_resolver 1 =
      \<lparr>response = Some (Some [1]), rtt = 1, failed = False\<rparr>"
    "failed (attempt first_fails some_query [''p:53'', ''q:53'', ''r:53''] quiet_resolver 0)"
    by (simp_all add: attempt_def first_fails_def quiet_resolver_def)
  then show ?thesis
    using upstreamDNSQuery_spec [THEN conjunct1, rule_format, of 1 "[''p:53'']" "[''q:53'', ''r:53'']"
        first_fails some_query quiet_resolver phone_config]
    by (simp add: attempt_answer_def quiet_resolver_def)
qed


lemma ResolverForClient_eq:
  assumes "source_ok (env_cfg e) src"
  obtains privs pubs src' where "source_ok (env_cfg e) src'"
    "servers_for (fst src) (EnableClientRouting (env_cfg e) \<and>
       public_only (env_cfg e) ip (mac_seen (env_gocache e) (fst t) (snd t) ip (snd src))) = (privs, pubs)"
    "ResolverForClient e t domain qt ip src s =
       (let u = upstreamDNSQuery (env_cfg e) (env_net e) privs pubs
                  (prepareDNSQuery (env_fqdn e) domain qt) s
        in (Inr (fst u), src', snd u))"
proof -
  obtain privs pubs src' where sel: "select_servers (env_gocache e) (env_cfg e) t ip src = (Inr (privs, pubs), src')"
    and ok: "source_ok (env_cfg e) src'"
    using configured_servers.select_cases [OF assms] by metis
  moreover have "servers_for (fst src) (EnableClientRouting (env_cfg e) \<and>
       public_only (env_cfg e) ip (mac_seen (env_gocache e) (fst t) (snd t) ip (snd src))) = (privs, pubs)"
    using select_servers_eq(1) [OF assms, of "env_gocache e" t ip] sel by simp
  ultimately show thesis
    by (intro that [of src' privs pubs]) (simp_all add: ResolverForClient_def Let_def case_prod_beta)
qed

lemma single_server:
  "upstreamDNSQuery c net [svr] [] m s =
     (let x = net (length (contacted s)) m svr
      in (if failed x then None else attempt_answer x, snd (exchangeWithServer c net m svr s)))"
  by (simp add: upstream_try try_servers_Cons Let_def del: try_servers.simps(2))

text \<open>
  A routed domain is resolved by its server alone. In every reachable routing state, a
  query for a domain in the table is sent to the server of the table, an accepted address,
  and to no other even when that server fails, and the client's routing plays no part.
\<close>

theorem ResolverForDomain_routed:
  assumes "routing_reachable c rs" and "LookupDomain rs domain = Some a"
  shows "valid_upstream a \<and>
    (let x = env_net e (length (contacted s)) (prepareDNSQuery (env_fqdn e) domain qt) a
     in \<exists>s'. ResolverForDomain e t rs domain qt ip src s =
          (Inr (if failed x then None else attempt_answer x), src, s') \<and>
        contacted s' = contacted s @ [a])"
proof -
  have route: "route_lookup rs domain = Some a"
    using assms(2) by (simp add: LookupDomain_route)
  have "valid_upstream a"
    by (rule table_routes.route_valid [OF routing_reachable_inv [OF assms(1)] route])
  moreover have "map_of (GetRoutingTable rs) domain = Some a"
    using route by (simp add: route_lookup_def)
  ultimately show ?thesis
    using exchange_result(2) [of "env_cfg e" "env_net e" "prepareDNSQuery (env_fqdn e) domain qt" a s]
    by (simp add: ResolverForDomain_def single_server Let_def)
qed

definition test_env :: "(string alist_store, nat) resolver_env" where
  "test_env = \<lparr>env_cfg = phone_config, env_gocache = alist_cache, env_net = first_fails,
     env_fqdn = (\<lambda>d. d)\<rparr>"

lemma ResolverForDomain_routed_witness:
  "\<exists>rs src s'. ResolverForDomain test_env (phone_world, 0) rs ''x.com.'' 1 ''10.0.0.7'' src quiet_resolver = (Inr None, src, s') \<and>
     contacted s' = [''1.1.1.1:53'']"
proof -
  let ?rs = "InitializeDomainRouting routed_config one_loaded routing_init"
  have rs: "routing_reachable routed_config ?rs"
    unfolding one_loaded_def
    by (rule routing_reachable.step [OF routing_reachable.init]) (rule routing_step.start [OF refl])
  have "EnableDomainRouting routed_config" "DomainRoutingFolder routed_config = ''/d''"
    by (simp_all add: routed_config_def)
  then have l: "LookupDomain ?rs ''x.com.'' = Some ''1.1.1.1:53''"
    by (simp add: InitializeDomainRouting_def one_loaded start_refresh_def LookupDomain_def)
  show ?thesis
    using ResolverForDomain_routed [OF rs l, of test_env quiet_resolver 1 "(phone_world, 0)" "''10.0.0.7''" "(source_init, client_init)"]
    by (auto simp: test_env_def first_fails_def quiet_resolver_def Let_def)
qed

text \<open>
  C4: where the queries of a client go. After start-up and any health checks, with any routing
  table: resolving never panics, and every server that is contacted is the routed one, when
  the domain is routed, and otherwise a configured server, which for a public-only client is
  one of the public servers.
\<close>

theorem ResolverForDomain_contacts:
  assumes "source_reachable (env_cfg e) src" and "client_inv (env_cfg e) cs"
  defines "c \<equiv> env_cfg e"
  shows "\<exists>answer src' s' new. ResolverForDomain e t rs domain qt ip (src, cs) s = (Inr answer, src', s') \<and>
    contacted s' = contacted s @ new \<and>
    (\<forall>svr \<in> set new.
       case LookupDomain rs domain of
         Some a \<Rightarrow> svr = a
       | None \<Rightarrow> svr \<in> set (PublicServers c) \<or>
           svr \<in> set (PrivateServers c) \<and>
             \<not> (EnableClientRouting c \<and>
               public_only c ip (mac_seen (env_gocache e) (fst t) (snd t) ip cs)))"
proof (cases "LookupDomain rs domain")
  case (Some a)
  then have "map_of (GetRoutingTable rs) domain = Some a"
    by (simp add: LookupDomain_route route_lookup_def)
  with Some show ?thesis
    using exchange_result(2) [of "env_cfg e" "env_net e" "prepareDNSQuery (env_fqdn e) domain qt" a s]
    by (simp add: ResolverForDomain_def single_server Let_def)
next
  case None
  then have route: "map_of (GetRoutingTable rs) domain = None"
    by (simp add: LookupDomain_route route_lookup_def)
  have inv: "source_inv c src"
    unfolding c_def by (rule source_reachable_inv [OF assms(1)])
  have ok: "source_ok (env_cfg e) (src, cs)"
    using inv assms(2) by (simp add: source_ok_def c_def)
  obtain privs pubs src' where sel: "servers_for src (EnableClientRouting c \<and>
       public_only c ip (mac_seen (env_gocache e) (fst t) (snd t) ip cs)) = (privs, pubs)"
    and res: "ResolverForClient e t domain qt ip (src, cs) s =
       (let u = upstreamDNSQuery c (env_net e) privs pubs (prepareDNSQuery (env_fqdn e) domain qt) s
        in (Inr (fst u), src', snd u))"
    using ResolverForClient_eq [OF ok, of ip t domain qt s] unfolding c_def fst_conv snd_conv by metis
  obtain k where k: "contacted (snd (upstreamDNSQuery c (env_net e) privs pubs
      (prepareDNSQuery (env_fqdn e) domain qt) s)) = contacted s @ take k (privs @ pubs)"
    using upstream_contacts by blast
  note known = servers_for_known [OF inv sel]
  have "svr \<in> set (PublicServers c) \<or> svr \<in> set (PrivateServers c) \<and>
      \<not> (EnableClientRouting c \<and> public_only c ip (mac_seen (env_gocache e) (fst t) (snd t) ip cs))"
    if "svr \<in> set (take k (privs @ pubs))" for svr
    using in_set_takeD [OF that] known(1,3) by auto
  with k None route res show ?thesis
    by (simp add: ResolverForDomain_def Let_def)
qed

lemma ResolverForDomain_contacts_witness:
  "\<exists>src cs answer src' s' new.
     ResolverForDomain test_env (phone_world, 0) routing_init ''y.com.'' 1 ''10.0.0.7'' (src, cs) quiet_resolver =
       (Inr answer, src', s') \<and>
     contacted s' = new \<and> set new \<subseteq> set (PublicServers phone_config)"
proof -
  let ?s = "InitDNSSource phone_config source_init"
  let ?cs = "InitializeClientRouting alist_cache phone_config client_init"
  have c: "env_cfg test_env = phone_config" "env_gocache test_env = alist_cache"
    by (simp_all add: test_env_def)
  have s: "source_reachable (env_cfg test_env) ?s" and cs: "client_inv (env_cfg test_env) ?cs"
    unfolding c using client_inv_init by (simp_all add: source_reachable_def)
  have none: "LookupDomain routing_init ''y.com.'' = None"
    by (simp add: LookupDomain_def routing_init_def)
  have q: "contacted quiet_resolver = []"
    by (simp add: quiet_resolver_def)
  note r = ResolverForDomain_contacts [OF s cs, of "(phone_world, 0)" routing_init "''y.com.''" 1
      "''10.0.0.7''" quiet_resolver]
  show ?thesis
    using r unfolding c fst_conv snd_conv phone_mac_seen none q
    by (simp add: phone_public phone_routing) blast
qed


section \<open>Concurrent usage counters\<close>

text \<open>
  The map holds pointers to counters, here indices. A thread of \<open>incrementServerUsage\<close> reads
  the map under the read lock, on a miss reads it again and extends it under the write lock,
  and at last adds one to its counter atomically, under no lock.
\<close>

datatype usage_pc = ReadMap | TakeLock | AddOne nat | Finished

record usage_state =
  usage_ids :: "string \<Rightarrow> nat option"
  counters :: "i64 list"
  threads :: "(string \<times> usage_pc) list"

inductive usage_step :: "usage_state \<Rightarrow> usage_state \<Rightarrow> bool" where
  read: "i < length (threads u) \<Longrightarrow> threads u ! i = (svr, ReadMap) \<Longrightarrow>
    usage_step u (u\<lparr>threads := (threads u)[i :=
      (svr, case usage_ids u svr of Some a \<Rightarrow> AddOne a | None \<Rightarrow> TakeLock)]\<rparr>)"
| lock_found: "i < length (threads u) \<Longrightarrow> threads u ! i = (svr, TakeLock) \<Longrightarrow>
    usage_ids u svr = Some a \<Longrightarrow>
    usage_step u (u\<lparr>threads := (threads u)[i := (svr, AddOne a)]\<rparr>)"
| lock_new: "i < length (threads u) \<Longrightarrow> threads u ! i = (svr, TakeLock) \<Longrightarrow>
    usage_ids u svr = None \<Longrightarrow>
    usage_step u (u\<lparr>usage_ids := (usage_ids u)(svr \<mapsto> length (counters u)),
      counters := counters u @ [0],
      threads := (threads u)[i := (svr, AddOne (length (counters u)))]\<rparr>)"
| add: "i < length (threads u) \<Longrightarrow> threads u ! i = (svr, AddOne a) \<Longrightarrow>
    usage_step u (u\<lparr>counters := (counters u)[a := counters u ! a + 1],
      threads := (threads u)[i := (svr, Finished)]\<rparr>)"

text \<open>The snapshot of \<open>GetServerUsageStats\<close>.\<close>

definition usage_stats :: "usage_state \<Rightarrow> string \<Rightarrow> i64 option" where
  "usage_stats u svr = map_option (\<lambda>a. counters u ! a) (usage_ids u svr)"

definition usage_start :: "string list \<Rightarrow> usage_state" where
  "usage_start svrs = \<lparr>usage_ids = (\<lambda>_. None), counters = [], threads = map (\<lambda>v. (v, ReadMap)) svrs\<rparr>"

definition holds :: "string \<times> usage_pc \<Rightarrow> nat \<Rightarrow> bool" where
  "holds t a \<longleftrightarrow> snd t = AddOne a"

definition done_count :: "string \<Rightarrow> usage_state \<Rightarrow> nat" where
  "done_count svr u = length (filter (\<lambda>t. t = (svr, Finished)) (threads u))"

definition usage_inv :: "string list \<Rightarrow> usage_state \<Rightarrow> bool" where
  "usage_inv svrs u \<longleftrightarrow>
     map fst (threads u) = svrs \<and>
     (\<forall>v w a. usage_ids u v = Some a \<longrightarrow> a < length (counters u) \<and> (usage_ids u w = Some a \<longrightarrow> v = w)) \<and>
     (\<forall>v a. (v, AddOne a) \<in> set (threads u) \<longrightarrow> usage_ids u v = Some a) \<and>
     (\<forall>v. (v, Finished) \<in> set (threads u) \<longrightarrow> usage_ids u v \<noteq> None) \<and>
     (\<forall>v a. usage_ids u v = Some a \<longrightarrow>
        v \<in> set svrs \<and> counters u ! a = of_nat (done_count v u))"

lemma usage_invI:
  assumes "map fst (threads u) = svrs"
    and "\<And>v a. usage_ids u v = Some a \<Longrightarrow> a < length (counters u)"
    and "\<And>v w a. usage_ids u v = Some a \<Longrightarrow> usage_ids u w = Some a \<Longrightarrow> v = w"
    and "\<And>v a. (v, AddOne a) \<in> set (threads u) \<Longrightarrow> usage_ids u v = Some a"
    and "\<And>v. (v, Finished) \<in> set (threads u) \<Longrightarrow> usage_ids u v \<noteq> None"
    and "\<And>v a. usage_ids u v = Some a \<Longrightarrow> v \<in> set svrs"
    and "\<And>v a. usage_ids u v = Some a \<Longrightarrow> counters u ! a = of_nat (done_count v u)"
  shows "usage_inv svrs u"
  using assms unfolding usage_inv_def by blast

lemma usage_inv_start: "usage_inv svrs (usage_start svrs)"
  by (auto simp: usage_inv_def usage_start_def comp_def)

lemma filter_update_length:
  "i < length xs \<Longrightarrow> xs ! i = x \<Longrightarrow> \<not> P x \<Longrightarrow>
     length (filter P (xs[i := y])) = length (filter P xs) + (if P y then 1 else 0)"
proof (induction xs arbitrary: i)
  case (Cons z xs)
  then show ?case by (cases i) auto
qed simp

lemma done_count_update:
  assumes "i < length (threads u)" "threads u ! i = (svr, pc)" "pc \<noteq> Finished"
    "threads u' = (threads u)[i := (svr, pc')]"
  shows "done_count v u' = done_count v u + (if v = svr \<and> pc' = Finished then 1 else 0)"
  unfolding done_count_def assms(4)
  using assms(1-3) by (subst filter_update_length [where x = "(svr, pc)"]) auto

lemma set_update_cases: "x \<in> set (xs[i := y]) \<Longrightarrow> x = y \<or> x \<in> set xs"
  using set_update_subset_insert by fastforce

lemma map_fst_update:
  "i < length xs \<Longrightarrow> xs ! i = (v, p) \<Longrightarrow> map fst (xs[i := (v, q)]) = map fst xs"
  by (simp add: map_update) (metis fst_conv list_update_id map_update nth_map)

lemma usage_inv_step: "usage_step u u' \<Longrightarrow> usage_inv svrs u \<Longrightarrow> usage_inv svrs u'"
proof (induction rule: usage_step.induct)
  case (read i u svr)
  have "done_count v (u\<lparr>threads := (threads u)[i :=
      (svr, case usage_ids u svr of Some a \<Rightarrow> AddOne a | None \<Rightarrow> TakeLock)]\<rparr>) = done_count v u" for v
    using done_count_update [OF read(1,2), of _ _ v] by (simp split: option.split)
  with read show ?case
    by (auto simp: usage_inv_def map_fst_update dest!: set_update_cases split: option.splits)
next
  case (lock_found i u svr a)
  have "done_count v (u\<lparr>threads := (threads u)[i := (svr, AddOne a)]\<rparr>) = done_count v u" for v
    using done_count_update [OF lock_found(1,2), of _ _ v] by simp
  with lock_found show ?case
    by (auto simp: usage_inv_def map_fst_update dest!: set_update_cases)
next
  case (lock_new i u svr)
  let ?u' = "u\<lparr>usage_ids := (usage_ids u)(svr \<mapsto> length (counters u)),
      counters := counters u @ [0],
      threads := (threads u)[i := (svr, AddOne (length (counters u)))]\<rparr>"
  have d: "done_count v ?u' = done_count v u" for v
    using done_count_update [OF lock_new(1,2), of ?u' _ v] by simp
  have "(svr, Finished) \<notin> set (threads u)"
    using lock_new(3,4) by (auto simp: usage_inv_def)
  then have "done_count svr u = 0"
    by (auto simp: done_count_def filter_empty_conv)
  note zero = this
  have svr: "svr \<in> set svrs"
    using lock_new(1,2,4) unfolding usage_inv_def by (metis fst_conv length_map nth_map nth_mem)
  have lt: "a < length (counters u)" if "usage_ids u v = Some a" for v a
    using that lock_new(4) by (auto simp: usage_inv_def)
  have inj: "v = w" if "usage_ids u v = Some a" "usage_ids u w = Some a" for v w a
    using that lock_new(4) unfolding usage_inv_def by blast
  have "map fst (threads ?u') = svrs"
    using lock_new by (simp add: usage_inv_def map_fst_update)
  moreover have "a < length (counters ?u')" if "usage_ids ?u' v = Some a" for v a
    using that lt [of v a] by (simp split: if_splits)
  moreover have "v = w" if "usage_ids ?u' v = Some a" "usage_ids ?u' w = Some a" for v w a
    using that lt [of v a] lt [of w a] inj [of v a w] by (simp split: if_splits)
  moreover have "usage_ids ?u' v = Some a" if "(v, AddOne a) \<in> set (threads ?u')" for v a
    using that lock_new(3,4) by (auto simp: usage_inv_def dest!: set_update_cases)
  moreover have "usage_ids ?u' v \<noteq> None" if "(v, Finished) \<in> set (threads ?u')" for v
    using that lock_new(3,4) by (auto simp: usage_inv_def dest!: set_update_cases)
  moreover have "v \<in> set svrs \<and> counters ?u' ! a = of_nat (done_count v ?u')"
    if "usage_ids ?u' v = Some a" for v a
    using that lt [of v a] lock_new(3,4) svr zero unfolding d
    by (simp add: usage_inv_def nth_append split: if_splits)
  ultimately show ?case
    unfolding usage_inv_def by blast
next
  case (add i u svr a)
  let ?u' = "u\<lparr>counters := (counters u)[a := counters u ! a + 1], threads := (threads u)[i := (svr, Finished)]\<rparr>"
  have d: "done_count v ?u' = done_count v u + (if v = svr then 1 else 0)" for v
    using done_count_update [OF add(1,2), of ?u' Finished v] by simp
  have a: "usage_ids u svr = Some a"
    using add by (auto simp: usage_inv_def) (metis nth_mem)
  have al: "a < length (counters u)" "\<And>v. usage_ids u v = Some a \<Longrightarrow> v = svr"
    using a add(3) by (auto simp: usage_inv_def)
  have "counters ?u' ! b = of_nat (done_count v ?u')" if b: "usage_ids u v = Some b" for v b
  proof -
    have old: "counters u ! b = of_nat (done_count v u)"
      using add(3) b by (simp add: usage_inv_def)
    show ?thesis
    proof (cases "v = svr")
      case True
      with a b have "b = a" by simp
      with True old al(1) show ?thesis
        unfolding d by simp
    next
      case False
      with al(2) b have "b \<noteq> a" by blast
      with False old show ?thesis
        unfolding d by simp
    qed
  qed
  moreover have "map fst (threads ?u') = svrs"
    using add by (simp add: usage_inv_def map_fst_update)
  moreover have "usage_ids u v = Some b" if "(v, AddOne b) \<in> set (threads ?u')" for v b
    using that add(3) by (auto simp: usage_inv_def dest!: set_update_cases)
  moreover have "usage_ids u v \<noteq> None" if "(v, Finished) \<in> set (threads ?u')" for v
    using that add(3) a by (auto simp: usage_inv_def dest!: set_update_cases)
  moreover have "b < length (counters ?u')" "usage_ids u w = Some b \<Longrightarrow> v = w" "v \<in> set svrs"
    if "usage_ids u v = Some b" for v w b
    using that add(3) unfolding usage_inv_def by (simp, blast, blast)
  ultimately show ?case
    by (intro usage_invI) simp_all
qed

text \<open>The same increments, one after the other.\<close>

lemma sequential_usage:
  "fold incrementServerUsage svrs (\<lambda>_. None) svr =
     (if svr \<in> set svrs then Some (of_nat (length (filter (\<lambda>v. v = svr) svrs))) else None)"
proof (induction svrs rule: rev_induct)
  case (snoc x xs)
  have "svr \<notin> set xs \<Longrightarrow> filter (\<lambda>v. v = svr) xs = []"
    by (auto simp: filter_empty_conv)
  with snoc show ?case
    by (auto simp: incrementServerUsage_def)
qed simp

text \<open>
  C27: no use of a server is lost. Whatever the interleaving of the threads that count uses,
  once all have finished the statistics are those of the increments made one after the other;
  counting is modulo 2 to the power 64.
\<close>

theorem usage_no_lost_update:
  assumes "usage_step\<^sup>*\<^sup>* (usage_start svrs) u"
    and "\<forall>t \<in> set (threads u). snd t = Finished"
  shows "usage_stats u = fold incrementServerUsage svrs (\<lambda>_. None)"
proof
  fix svr
  have inv: "usage_inv svrs u"
    using assms(1) by (induction rule: rtranclp_induct) (auto intro: usage_inv_start usage_inv_step)
  then have fst: "map fst (threads u) = svrs"
    by (simp add: usage_inv_def)
  have "t = (svr, Finished) \<longleftrightarrow> fst t = svr" if "t \<in> set (threads u)" for t
    using assms(2) [rule_format, OF that] by (cases t) auto
  then have "filter (\<lambda>t. t = (svr, Finished)) (threads u) = filter (\<lambda>t. fst t = svr) (threads u)"
    by (rule filter_cong [OF refl])
  then have cnt: "done_count svr u = length (filter (\<lambda>v. v = svr) svrs)"
    unfolding done_count_def fst [symmetric] by (simp add: filter_map comp_def)
  have "svr \<in> set svrs \<longleftrightarrow> usage_ids u svr \<noteq> None"
  proof
    assume "svr \<in> set svrs"
    then obtain t where "t \<in> set (threads u)" "fst t = svr"
      using fst by auto
    with assms(2) have "(svr, Finished) \<in> set (threads u)"
      by (metis prod.collapse)
    with inv show "usage_ids u svr \<noteq> None"
      by (auto simp: usage_inv_def)
  next
    assume "usage_ids u svr \<noteq> None"
    with inv show "svr \<in> set svrs"
      by (auto simp: usage_inv_def)
  qed
  with inv cnt show "usage_stats u svr = fold incrementServerUsage svrs (\<lambda>_. None) svr"
    by (auto simp: sequential_usage usage_stats_def usage_inv_def)
qed


lemma usage_no_lost_update_witness:
  "\<exists>u. usage_step\<^sup>*\<^sup>* (usage_start [''q:53'', ''q:53'']) u \<and> usage_stats u ''q:53'' = Some 2"
proof -
  let ?v = "''q:53''"
  let ?u0 = "usage_start [?v, ?v]"
  let ?u1 = "?u0\<lparr>threads := [(?v, TakeLock), (?v, ReadMap)]\<rparr>"
  let ?u2 = "?u1\<lparr>threads := [(?v, TakeLock), (?v, TakeLock)]\<rparr>"
  let ?u3 = "?u2\<lparr>usage_ids := [?v \<mapsto> 0], counters := [0], threads := [(?v, AddOne 0), (?v, TakeLock)]\<rparr>"
  let ?u4 = "?u3\<lparr>counters := [1], threads := [(?v, Finished), (?v, TakeLock)]\<rparr>"
  let ?u5 = "?u4\<lparr>threads := [(?v, Finished), (?v, AddOne 0)]\<rparr>"
  let ?u6 = "?u5\<lparr>counters := [2], threads := [(?v, Finished), (?v, Finished)]\<rparr>"
  have "usage_step ?u0 ?u1"
    using usage_step.read [of 0 ?u0 ?v] by (simp add: usage_start_def)
  moreover have "usage_step ?u1 ?u2"
    using usage_step.read [of 1 ?u1 ?v] by (simp add: usage_start_def)
  moreover have "usage_step ?u2 ?u3"
    using usage_step.lock_new [of 0 ?u2 ?v] by (simp add: usage_start_def)
  moreover have "usage_step ?u3 ?u4"
    using usage_step.add [of 0 ?u3 ?v 0] by simp
  moreover have "usage_step ?u4 ?u5"
    using usage_step.lock_found [of 1 ?u4 ?v 0] by simp
  moreover have "usage_step ?u5 ?u6"
    using usage_step.add [of 1 ?u5 ?v 0] by simp
  ultimately have run: "usage_step\<^sup>*\<^sup>* ?u0 ?u6"
    by (meson converse_rtranclp_into_rtranclp rtranclp.rtrancl_refl)
  have "usage_stats ?u6 = fold incrementServerUsage [?v, ?v] (\<lambda>_. None)"
    by (rule usage_no_lost_update [OF run]) simp
  then have "usage_stats ?u6 ?v = Some 2"
    by (simp add: incrementServerUsage_def)
  with run show ?thesis by blast
qed

end
