(* ===== verification/Metrics.thy ===== *)
theory Metrics
  imports Env GoTime DnsSource
begin

text \<open>
  The metrics recorder, \<open>metric/fast_metrics.go\<close> with \<open>metric/optimized_common.go\<close>: the
  counters, the bounded channel of updates that drops what does not fit, the goroutine that
  collects updates into batches and applies them to Prometheus, the drain at shutdown, and
  the helpers on counter maps.

  What is applied to Prometheus (a third-party library) is the output, a list of
  \<open>prom_op\<close>. A \<open>sync.Map\<close> of counters is an association list with distinct keys; an operation
  that ranges over it takes the order as a parameter. The channel is a list that never
  exceeds its capacity; a send on a full channel takes the default branch.
\<close>

section \<open>Updates\<close>

record metricUpdate =
  Type :: u8
  Value :: rat
  Duration :: duration
  Labels :: "string list"

definition MetricTypeDNSQuery :: u8 where "MetricTypeDNSQuery = 0"
definition MetricTypeCacheHit :: u8 where "MetricTypeCacheHit = 1"
definition MetricTypeCacheMiss :: u8 where "MetricTypeCacheMiss = 2"
definition MetricTypeError :: u8 where "MetricTypeError = 3"
definition MetricTypeUpstreamQuery :: u8 where "MetricTypeUpstreamQuery = 4"
definition MetricTypeCacheSize :: u8 where "MetricTypeCacheSize = 5"
definition MetricTypeUpstreamServerReachable :: u8 where "MetricTypeUpstreamServerReachable = 6"
definition MetricTypeUpstreamServersTotal :: u8 where "MetricTypeUpstreamServersTotal = 7"
definition MetricTypeDeviceIPDNSQuery :: u8 where "MetricTypeDeviceIPDNSQuery = 8"
definition MetricTypeDomainQuery :: u8 where "MetricTypeDomainQuery = 9"
definition MetricTypeDomainHit :: u8 where "MetricTypeDomainHit = 10"

lemmas metric_types = MetricTypeDNSQuery_def MetricTypeCacheHit_def MetricTypeCacheMiss_def
  MetricTypeError_def MetricTypeUpstreamQuery_def MetricTypeCacheSize_def
  MetricTypeUpstreamServerReachable_def MetricTypeUpstreamServersTotal_def
  MetricTypeDeviceIPDNSQuery_def MetricTypeDomainQuery_def MetricTypeDomainHit_def

definition createMetricUpdate :: "u8 \<Rightarrow> rat \<Rightarrow> duration \<Rightarrow> string list \<Rightarrow> metricUpdate" where
  "createMetricUpdate ty v d ls = \<lparr>Type = ty, Value = v, Duration = d, Labels = ls\<rparr>"

definition createCounterUpdate :: "u8 \<Rightarrow> string list \<Rightarrow> metricUpdate" where
  "createCounterUpdate ty ls = createMetricUpdate ty 0 0 ls"

definition createGaugeUpdate :: "u8 \<Rightarrow> rat \<Rightarrow> string list \<Rightarrow> metricUpdate" where
  "createGaugeUpdate ty v ls = createMetricUpdate ty v 0 ls"

definition createCounterHistogramUpdate :: "u8 \<Rightarrow> duration \<Rightarrow> string list \<Rightarrow> metricUpdate" where
  "createCounterHistogramUpdate ty d ls = createMetricUpdate ty 0 d ls"

definition NewMetricUpdate :: "u8 \<Rightarrow> string list \<Rightarrow> metricUpdate" where
  "NewMetricUpdate ty ls = createCounterUpdate ty ls"

definition NewDNSQueryUpdate :: "string \<Rightarrow> string \<Rightarrow> duration \<Rightarrow> metricUpdate" where
  "NewDNSQueryUpdate qt status d = createCounterHistogramUpdate MetricTypeDNSQuery d [qt, status]"

definition NewUpstreamQueryUpdate :: "string \<Rightarrow> string \<Rightarrow> duration \<Rightarrow> metricUpdate" where
  "NewUpstreamQueryUpdate server status d =
     createCounterHistogramUpdate MetricTypeUpstreamQuery d [server, status]"

definition NewErrorUpdate :: "string \<Rightarrow> string \<Rightarrow> metricUpdate" where
  "NewErrorUpdate ty source = createCounterUpdate MetricTypeError [ty, source]"

definition NewUpstreamServerReachableUpdate :: "string \<Rightarrow> bool \<Rightarrow> metricUpdate" where
  "NewUpstreamServerReachableUpdate server reachable =
     createGaugeUpdate MetricTypeUpstreamServerReachable (if reachable then 1 else 0) [server]"

definition f64_of_int :: "int \<Rightarrow> rat" where
  "f64_of_int z = (if z < 0 then - f64_of_nat (nat (- z)) else f64_of_nat (nat z))"

definition NewCacheSizeUpdate :: "int \<Rightarrow> metricUpdate" where
  "NewCacheSizeUpdate sz = createGaugeUpdate MetricTypeCacheSize (f64_of_int sz) []"

definition NewUpstreamServersTotalUpdate :: "int \<Rightarrow> metricUpdate" where
  "NewUpstreamServersTotalUpdate n =
     createGaugeUpdate MetricTypeUpstreamServersTotal (f64_of_int n) []"

definition NewDeviceIPDNSQueryUpdate :: "string \<Rightarrow> u64 \<Rightarrow> metricUpdate" where
  "NewDeviceIPDNSQueryUpdate ip cnt =
     createGaugeUpdate MetricTypeDeviceIPDNSQuery (f64_of_nat (unat cnt)) [ip]"

definition NewDomainQueryUpdate :: "string \<Rightarrow> string \<Rightarrow> metricUpdate" where
  "NewDomainQueryUpdate domain status = createCounterUpdate MetricTypeDomainQuery [domain, status]"

definition NewDomainHitUpdate :: "string \<Rightarrow> u64 \<Rightarrow> metricUpdate" where
  "NewDomainHitUpdate domain hitCount =
     createGaugeUpdate MetricTypeDomainHit (f64_of_nat (unat hitCount)) [domain]"

section \<open>Applying an update\<close>

definition metricLabelRequirements :: "u8 \<Rightarrow> nat option" where
  "metricLabelRequirements =
     [MetricTypeDNSQuery \<mapsto> 2, MetricTypeError \<mapsto> 2, MetricTypeUpstreamQuery \<mapsto> 2,
      MetricTypeUpstreamServerReachable \<mapsto> 1, MetricTypeDeviceIPDNSQuery \<mapsto> 1,
      MetricTypeDomainQuery \<mapsto> 2, MetricTypeDomainHit \<mapsto> 1, MetricTypeCacheHit \<mapsto> 0,
      MetricTypeCacheMiss \<mapsto> 0, MetricTypeCacheSize \<mapsto> 0, MetricTypeUpstreamServersTotal \<mapsto> 0]"

definition validateLabelsOptimized :: "u8 \<Rightarrow> string list \<Rightarrow> bool" where
  "validateLabelsOptimized ty labels =
     (case metricLabelRequirements ty of Some required \<Rightarrow> required \<le> length labels | None \<Rightarrow> True)"

text \<open>The calls on the Prometheus metrics, each named by its variable.\<close>

datatype prom_op =
  Inc string "string list" | Set string "string list" rat | Observe string "string list" duration
| AddSeconds string duration

definition processMetricUpdate :: "metricUpdate \<Rightarrow> prom_op list" where
  "processMetricUpdate u =
     (let labels = Labels u; ty = Type u; n = length labels
      in if ty = MetricTypeDNSQuery then
           (if 2 \<le> n then [Inc ''dnsQueriesTotal'' [labels ! 0, labels ! 1],
              Observe ''dnsQueryDuration'' [labels ! 0, labels ! 1] (Duration u)] else [])
         else if ty = MetricTypeCacheHit then [Inc ''cacheHitsTotal'' []]
         else if ty = MetricTypeCacheMiss then [Inc ''cacheMissesTotal'' []]
         else if ty = MetricTypeError then
           (if 2 \<le> n then [Inc ''errorsTotal'' [labels ! 0, labels ! 1]] else [])
         else if ty = MetricTypeUpstreamQuery then
           (if 2 \<le> n then [Inc ''upstreamQueriesTotal'' [labels ! 0, labels ! 1],
              Observe ''upstreamQueryDuration'' [labels ! 0, labels ! 1] (Duration u)] else [])
         else if ty = MetricTypeCacheSize then [Set ''cacheSize'' [] (Value u)]
         else if ty = MetricTypeUpstreamServerReachable then
           (if 1 \<le> n then [Set ''upstreamServersReachable'' [labels ! 0] (Value u)] else [])
         else if ty = MetricTypeUpstreamServersTotal then [Set ''upstreamServersTotal'' [] (Value u)]
         else if ty = MetricTypeDeviceIPDNSQuery then
           (if 1 \<le> n then [Set ''deviceIPDNSQueries'' [labels ! 0] (Value u)] else [])
         else if ty = MetricTypeDomainQuery then
           (if 2 \<le> n then [Inc ''domainQueriesTotal'' [labels ! 0, labels ! 1]] else [])
         else if ty = MetricTypeDomainHit then
           (if 1 \<le> n then [Set ''domainHitsTotal'' [labels ! 0] (Value u)] else [])
         else [])"

definition ProcessMetricUpdatesBatch :: "metricUpdate list \<Rightarrow> prom_op list" where
  "ProcessMetricUpdatesBatch updates = concat (map processMetricUpdate updates)"

definition flushUpdates :: "metricUpdate list \<Rightarrow> prom_op list" where
  "flushUpdates updates = concat (map processMetricUpdate updates)"

section \<open>Counter maps\<close>

type_synonym counts = "(string \<times> u64) list"

text \<open>The new cnt, and the map: an existing counter plus one (wrapping), or a new one at 1.\<close>

definition atomicIncrement :: "string \<Rightarrow> counts \<Rightarrow> u64 \<times> counts" where
  "atomicIncrement key m =
     (case map_of m key of
        Some n \<Rightarrow> (n + 1, AList.update key (n + 1) m)
      | None \<Rightarrow> (1, AList.update key 1 m))"

definition atomicGet :: "string \<Rightarrow> counts \<Rightarrow> u64" where
  "atomicGet key m = (case map_of m key of Some n \<Rightarrow> n | None \<Rightarrow> 0)"

definition getAllCounts :: "counts \<Rightarrow> string \<Rightarrow> u64 option" where
  "getAllCounts m = map_of m"

text \<open>\<open>srt\<close> is what \<open>sort.Slice\<close> makes of the items; slicing to a negative length panics.\<close>

definition getTopItems :: "(counts \<Rightarrow> counts) \<Rightarrow> counts \<Rightarrow> int \<Rightarrow> counts option" where
  "getTopItems srt m n =
     (let items = srt m; n' = (if int (length items) < n then int (length items) else n)
      in if n' < 0 then None else Some (take (nat n') items))"


section \<open>The recorder\<close>

record recorder =
  dnsQueriesCount :: u64
  cacheHitsCount :: u64
  cacheMissesCount :: u64
  errorsCount :: u64
  deviceIPCounts :: counts
  domainQueryCounts :: counts
  domainHitCounts :: counts
  metricUpdates :: "metricUpdate list" \<comment> \<open>the channel\<close>
  channelSize :: nat
  drainTimeout :: duration
  maxDrainUpdates :: int
  drainBatchSize :: int
  sent :: "metricUpdate list" \<comment> \<open>every update the channel has accepted\<close>

text \<open>
  \<open>make\<close> of a channel or of an empty slice for updates, by its size. A size that is negative or beyond the
  address space panics; one that the memory does not hold ends the process at once, without
  deferred functions. Which sizes are which is the runtime's, hence a parameter, negative ones apart.
\<close>

datatype alloc = Allocated | OutOfRange | OutOfMemory

record allocator =
  chan_alloc :: "int \<Rightarrow> alloc"
  slice_alloc :: "int \<Rightarrow> alloc"

definition make_chan :: "allocator \<Rightarrow> int \<Rightarrow> alloc" where
  "make_chan al n = (if n < 0 then OutOfRange else chan_alloc al n)"

definition make_slice :: "allocator \<Rightarrow> int \<Rightarrow> alloc" where
  "make_slice al n = (if n < 0 then OutOfRange else slice_alloc al n)"

text \<open>
  \<open>NewFastMetricsRecorder\<close> also starts the batch goroutine, with a ticker and a slice; a size
  that cannot be allocated or a delay that is not positive ends the process there.
\<close>

datatype metrics_panic = ChannelSize alloc | BatchSize alloc | BadTickerDelay

definition NewFastMetricsRecorder ::
    "environ \<Rightarrow> allocator \<Rightarrow> util_caches \<Rightarrow> (metrics_panic + recorder \<times> int \<times> duration) \<times> util_caches" where
  "NewFastMetricsRecorder env al st =
     (let (batchSize, s1) = GetEnvInt env ''METRICS_BATCH_SIZE'' 500 st;
          (batchDelay, s2) = GetEnvDuration env ''METRICS_BATCH_DELAY'' (100 * millisecond) s1;
          (chanSize, s3) = GetEnvInt env ''METRICS_CHANNEL_SIZE'' 10000 s2;
          (drainTime, s4) = GetEnvDuration env ''METRICS_DRAIN_TIMEOUT'' (5 * second) s3;
          (maxDrain, s5) = GetEnvInt env ''METRICS_MAX_DRAIN_UPDATES'' 1000 s4;
          (drainBatch, s6) = GetEnvInt env ''METRICS_DRAIN_BATCH_SIZE'' 50 s5
      in (if make_chan al chanSize \<noteq> Allocated then Inl (ChannelSize (make_chan al chanSize))
          else if batchDelay \<le> 0 then Inl BadTickerDelay
          else if make_slice al batchSize \<noteq> Allocated then Inl (BatchSize (make_slice al batchSize))
          else Inr (\<lparr>dnsQueriesCount = 0, cacheHitsCount = 0, cacheMissesCount = 0,
                 errorsCount = 0, deviceIPCounts = [], domainQueryCounts = [], domainHitCounts = [],
                 metricUpdates = [], channelSize = nat chanSize, drainTimeout = drainTime,
                 maxDrainUpdates = maxDrain, drainBatchSize = drainBatch, sent = []\<rparr>,
               batchSize, batchDelay), s6))"

definition try_send :: "metricUpdate \<Rightarrow> recorder \<Rightarrow> recorder" where
  "try_send u f =
     (if length (metricUpdates f) < channelSize f
      then f\<lparr>metricUpdates := metricUpdates f @ [u], sent := sent f @ [u]\<rparr> else f)"

definition incrementDeviceIPCount :: "string \<Rightarrow> recorder \<Rightarrow> recorder" where
  "incrementDeviceIPCount ip f = f\<lparr>deviceIPCounts := snd (atomicIncrement ip (deviceIPCounts f))\<rparr>"

definition incrementDomainQueryCount :: "string \<Rightarrow> recorder \<Rightarrow> recorder" where
  "incrementDomainQueryCount d f = f\<lparr>domainQueryCounts := snd (atomicIncrement d (domainQueryCounts f))\<rparr>"

definition incrementDomainHitCount :: "string \<Rightarrow> recorder \<Rightarrow> u64 \<times> recorder" where
  "incrementDomainHitCount d f =
     (case atomicIncrement d (domainHitCounts f) of (n, m) \<Rightarrow> (n, f\<lparr>domainHitCounts := m\<rparr>))"

definition FastRecordDNSQueryWithDeviceIPAndDomain ::
    "string \<Rightarrow> string \<Rightarrow> string \<Rightarrow> string \<Rightarrow> duration \<Rightarrow> recorder \<Rightarrow> recorder" where
  "FastRecordDNSQueryWithDeviceIPAndDomain queryType status deviceIP domain d f =
     (let f1 = f\<lparr>dnsQueriesCount := dnsQueriesCount f + 1\<rparr>;
          f2 = (if deviceIP \<noteq> '''' then incrementDeviceIPCount deviceIP f1 else f1);
          f3 = (if domain \<noteq> '''' then
                  try_send (NewDomainQueryUpdate domain status) (incrementDomainQueryCount domain f2)
                else f2)
      in try_send (NewDNSQueryUpdate queryType status d) f3)"

definition FastRecordDNSQueryWithDeviceIP ::
    "string \<Rightarrow> string \<Rightarrow> string \<Rightarrow> duration \<Rightarrow> recorder \<Rightarrow> recorder" where
  "FastRecordDNSQueryWithDeviceIP queryType status deviceIP d f =
     FastRecordDNSQueryWithDeviceIPAndDomain queryType status deviceIP '''' d f"

definition FastRecordDNSQuery :: "string \<Rightarrow> string \<Rightarrow> duration \<Rightarrow> recorder \<Rightarrow> recorder" where
  "FastRecordDNSQuery queryType status d f = FastRecordDNSQueryWithDeviceIP queryType status '''' d f"

definition FastRecordCacheHit :: "recorder \<Rightarrow> recorder" where
  "FastRecordCacheHit f =
     try_send (NewMetricUpdate MetricTypeCacheHit []) (f\<lparr>cacheHitsCount := cacheHitsCount f + 1\<rparr>)"

definition InlineCacheHit :: "recorder \<Rightarrow> recorder" where
  "InlineCacheHit f = f\<lparr>cacheHitsCount := cacheHitsCount f + 1\<rparr>"

definition InlineCacheHitWithDomain :: "string \<Rightarrow> recorder \<Rightarrow> u64 \<times> recorder" where
  "InlineCacheHitWithDomain d f = incrementDomainHitCount d (f\<lparr>cacheHitsCount := cacheHitsCount f + 1\<rparr>)"

definition FastRecordCacheMiss :: "recorder \<Rightarrow> recorder" where
  "FastRecordCacheMiss f =
     try_send (NewMetricUpdate MetricTypeCacheMiss []) (f\<lparr>cacheMissesCount := cacheMissesCount f + 1\<rparr>)"

definition FastRecordUpstreamQuery :: "string \<Rightarrow> string \<Rightarrow> duration \<Rightarrow> recorder \<Rightarrow> recorder" where
  "FastRecordUpstreamQuery server status d f = try_send (NewUpstreamQueryUpdate server status d) f"

definition FastSetUpstreamServerReachable :: "string \<Rightarrow> bool \<Rightarrow> recorder \<Rightarrow> recorder" where
  "FastSetUpstreamServerReachable server r f = try_send (NewUpstreamServerReachableUpdate server r) f"

definition FastSetUpstreamServersTotal :: "int \<Rightarrow> recorder \<Rightarrow> recorder" where
  "FastSetUpstreamServersTotal n f = try_send (NewUpstreamServersTotalUpdate n) f"

definition FastUpdateCacheSize :: "int \<Rightarrow> recorder \<Rightarrow> recorder" where
  "FastUpdateCacheSize sz f = try_send (NewCacheSizeUpdate sz) f"

definition FastRecordError :: "string \<Rightarrow> string \<Rightarrow> recorder \<Rightarrow> recorder" where
  "FastRecordError ty source f =
     try_send (NewErrorUpdate ty source) (f\<lparr>errorsCount := errorsCount f + 1\<rparr>)"

text \<open>\<open>ord\<close> is the order in which the copied map is ranged over.\<close>

definition FastUpdateDeviceIPMetrics :: "(counts \<Rightarrow> counts) \<Rightarrow> recorder \<Rightarrow> recorder" where
  "FastUpdateDeviceIPMetrics ord f =
     foldl (\<lambda>g (ip, cnt). try_send (NewDeviceIPDNSQueryUpdate ip cnt) g) f (ord (deviceIPCounts f))"

definition FastRecordDomainHit :: "string \<Rightarrow> recorder \<Rightarrow> recorder" where
  "FastRecordDomainHit d f =
     (case incrementDomainHitCount d f of (n, f1) \<Rightarrow> try_send (NewDomainHitUpdate d n) f1)"

definition FastUpdateDomainMetrics :: "(counts \<Rightarrow> counts) \<Rightarrow> recorder \<Rightarrow> recorder" where
  "FastUpdateDomainMetrics ord f =
     foldl (\<lambda>g (d, cnt). try_send (NewDomainHitUpdate d cnt) g) f (ord (domainHitCounts f))"

definition GetStats :: "recorder \<Rightarrow> u64 \<times> u64 \<times> u64 \<times> u64" where
  "GetStats f = (dnsQueriesCount f, cacheHitsCount f, cacheMissesCount f, errorsCount f)"

definition GetDeviceIPCount :: "string \<Rightarrow> recorder \<Rightarrow> u64" where
  "GetDeviceIPCount ip f = atomicGet ip (deviceIPCounts f)"

definition GetTopDeviceIPs :: "(counts \<Rightarrow> counts) \<Rightarrow> recorder \<Rightarrow> int \<Rightarrow> counts option" where
  "GetTopDeviceIPs srt f n = getTopItems srt (deviceIPCounts f) n"

text \<open>The recorder behind the interface of the server source.\<close>

fun record_call :: "metric_call \<Rightarrow> recorder \<Rightarrow> recorder" where
  "record_call (RecordError ty source) f = FastRecordError ty source f"
| "record_call (SetUpstreamServersTotal n) f = FastSetUpstreamServersTotal n f"
| "record_call (SetUpstreamServerReachable svr b) f = FastSetUpstreamServerReachable svr b f"
| "record_call (RecordUpstreamQuery svr st d) f = FastRecordUpstreamQuery svr st d f"

section \<open>The batch goroutine\<close>

record batcher =
  rec :: recorder
  updates :: "metricUpdate list" \<comment> \<open>the current batch\<close>
  deviceIPUpdateCounter :: nat
  applied :: "prom_op list" \<comment> \<open>everything applied to Prometheus so far\<close>
  synced :: "prom_op list" \<comment> \<open>what of it the synchronisation of the counters applied\<close>
  stopped :: bool

definition syncAtomicCountersToPrometheus :: "recorder \<Rightarrow> prom_op list" where
  "syncAtomicCountersToPrometheus f =
     (if 0 < cacheHitsCount f then processMetricUpdate (NewMetricUpdate MetricTypeCacheHit []) else []) @
     (if 0 < cacheMissesCount f then processMetricUpdate (NewMetricUpdate MetricTypeCacheMiss []) else [])"

definition flush_if_full :: "int \<Rightarrow> batcher \<Rightarrow> batcher" where
  "flush_if_full batchSize b =
     (if batchSize \<le> int (length (updates b))
      then b\<lparr>applied := applied b @ flushUpdates (updates b), updates := []\<rparr> else b)"

text \<open>
  \<open>drainMetricUpdates\<close>; \<open>in_time i\<close> is the i-th test of the deadline. What the channel still
  holds at the end is lost. \<open>None\<close>: the slice for a batch cannot be made, and the process ends.
\<close>

fun drain_loop ::
    "(nat \<Rightarrow> bool) \<Rightarrow> int \<Rightarrow> int \<Rightarrow> nat \<Rightarrow> metricUpdate list \<Rightarrow> metricUpdate list \<Rightarrow>
     prom_op list \<times> metricUpdate list" where
  "drain_loop in_time maxU batchSize n pending [] = (flushUpdates pending, [])"
| "drain_loop in_time maxU batchSize n pending (u # ch) =
     (if in_time n \<and> int n < maxU then
        (let pending' = pending @ [u]
         in if batchSize \<le> int (length pending')
            then (case drain_loop in_time maxU batchSize (n + 1) [] ch of
                    (ops, rest) \<Rightarrow> (flushUpdates pending' @ ops, rest))
            else drain_loop in_time maxU batchSize (n + 1) pending' ch)
      else (flushUpdates pending, u # ch))"

definition drainMetricUpdates :: "allocator \<Rightarrow> (nat \<Rightarrow> bool) \<Rightarrow> recorder \<Rightarrow> (prom_op list \<times> recorder) option" where
  "drainMetricUpdates al in_time f =
     (if make_slice al (drainBatchSize f) \<noteq> Allocated then None
      else case drain_loop in_time (maxDrainUpdates f) (drainBatchSize f) 0 [] (metricUpdates f) of
        (ops, rest) \<Rightarrow> Some (ops, f\<lparr>metricUpdates := rest\<rparr>))"

text \<open>One iteration of the loop, by the branch that \<open>select\<close> takes.\<close>

definition on_update :: "int \<Rightarrow> batcher \<Rightarrow> batcher" where
  "on_update batchSize b =
     (case metricUpdates (rec b) of
        [] \<Rightarrow> b
      | u # ch \<Rightarrow> flush_if_full batchSize
          (b\<lparr>rec := (rec b)\<lparr>metricUpdates := ch\<rparr>, updates := updates b @ [u]\<rparr>))"

definition on_tick :: "int \<Rightarrow> (counts \<Rightarrow> counts) \<Rightarrow> batcher \<Rightarrow> batcher" where
  "on_tick batchSize ord b =
     (let b1 = (if updates b \<noteq> [] then b\<lparr>applied := applied b @ flushUpdates (updates b), updates := []\<rparr>
                else b);
          ops = syncAtomicCountersToPrometheus (rec b1);
          b2 = b1\<lparr>applied := applied b1 @ ops, synced := synced b1 @ ops\<rparr>;
          k = deviceIPUpdateCounter b2 + 1;
          b3 = (if 10 \<le> k then b2\<lparr>rec := FastUpdateDomainMetrics ord (FastUpdateDeviceIPMetrics ord (rec b2)),
                                  deviceIPUpdateCounter := 0\<rparr>
                else b2\<lparr>deviceIPUpdateCounter := k\<rparr>)
      in flush_if_full batchSize b3)"

definition on_done :: "allocator \<Rightarrow> (nat \<Rightarrow> bool) \<Rightarrow> batcher \<Rightarrow> batcher option" where
  "on_done al in_time b =
     (let b1 = (if updates b \<noteq> [] then b\<lparr>applied := applied b @ flushUpdates (updates b)\<rparr> else b)
      in case drainMetricUpdates al in_time (rec b1) of
        None \<Rightarrow> None
      | Some (ops, f) \<Rightarrow> Some (b1\<lparr>applied := applied b1 @ ops, rec := f, updates := [], stopped := True\<rparr>))"


section \<open>Steps\<close>

text \<open>Every way the program records something.\<close>

inductive record_step :: "recorder \<Rightarrow> recorder \<Rightarrow> bool" where
  query: "record_step f (FastRecordDNSQueryWithDeviceIPAndDomain qt st ip dmn d f)"
| hit: "record_step f (FastRecordCacheHit f)"
| inline_hit: "record_step f (InlineCacheHit f)"
| inline_domain_hit: "record_step f (snd (InlineCacheHitWithDomain dmn f))"
| miss: "record_step f (FastRecordCacheMiss f)"
| upstream: "record_step f (FastRecordUpstreamQuery svr st d f)"
| reached: "record_step f (FastSetUpstreamServerReachable svr b f)"
| servers: "record_step f (FastSetUpstreamServersTotal n f)"
| sized: "record_step f (FastUpdateCacheSize n f)"
| err: "record_step f (FastRecordError ty src f)"
| devices: "record_step f (FastUpdateDeviceIPMetrics ord f)"
| domain_hit: "record_step f (FastRecordDomainHit dmn f)"
| domains: "record_step f (FastUpdateDomainMetrics ord f)"

text \<open>
  The program records, or the goroutine takes one branch of its \<open>select\<close>. The process ends, and there is
  no step, when the drain cannot make its slice.
\<close>

inductive batch_step :: "allocator \<Rightarrow> int \<Rightarrow> batcher \<Rightarrow> batcher \<Rightarrow> bool" for al batchSize where
  records: "record_step (rec b) f \<Longrightarrow> batch_step al batchSize b (b\<lparr>rec := f\<rparr>)"
| update: "\<not> stopped b \<Longrightarrow> batch_step al batchSize b (on_update batchSize b)"
| tick: "\<not> stopped b \<Longrightarrow> batch_step al batchSize b (on_tick batchSize ord b)"
| shutdown: "\<not> stopped b \<Longrightarrow> on_done al in_time b = Some b' \<Longrightarrow> batch_step al batchSize b b'"

definition batch_start :: "recorder \<Rightarrow> batcher" where
  "batch_start f = \<lparr>rec = f, updates = [], deviceIPUpdateCounter = 0, applied = [], synced = [], stopped = False\<rparr>"

section \<open>The channel\<close>

text \<open>Recording appends the same updates to the channel and to what it has accepted.\<close>

definition extends_by :: "recorder \<Rightarrow> recorder \<Rightarrow> metricUpdate list \<Rightarrow> bool" where
  "extends_by f f' us \<longleftrightarrow>
     metricUpdates f' = metricUpdates f @ us \<and> sent f' = sent f @ us \<and>
     channelSize f' = channelSize f \<and> maxDrainUpdates f' = maxDrainUpdates f \<and>
     (length (metricUpdates f) \<le> channelSize f \<longrightarrow> length (metricUpdates f') \<le> channelSize f) \<and>
     (\<forall>u \<in> set us. processMetricUpdate u \<noteq> [])"

lemma extends_by_refl: "extends_by f f []"
  by (simp add: extends_by_def)

lemma extends_by_trans: "extends_by f g us \<Longrightarrow> extends_by g h vs \<Longrightarrow> extends_by f h (us @ vs)"
  by (auto simp: extends_by_def)

lemma extends_by_same:
  "metricUpdates f' = metricUpdates f \<Longrightarrow> sent f' = sent f \<Longrightarrow> channelSize f' = channelSize f \<Longrightarrow>
     maxDrainUpdates f' = maxDrainUpdates f \<Longrightarrow> extends_by f f' []"
  by (simp add: extends_by_def)

lemma extends_try_send: "processMetricUpdate u \<noteq> [] \<Longrightarrow> \<exists>us. extends_by f (try_send u f) us"
  by (cases "length (metricUpdates f) < channelSize f")
    (auto simp: try_send_def extends_by_def intro: exI [of _ "[u]"] exI [of _ "[]"])

lemmas update_builders = NewDNSQueryUpdate_def NewUpstreamQueryUpdate_def NewErrorUpdate_def
  NewUpstreamServerReachableUpdate_def NewCacheSizeUpdate_def NewUpstreamServersTotalUpdate_def
  NewDeviceIPDNSQueryUpdate_def NewDomainQueryUpdate_def NewDomainHitUpdate_def NewMetricUpdate_def
  createCounterHistogramUpdate_def createCounterUpdate_def createGaugeUpdate_def createMetricUpdate_def

lemma built_updates_apply:
  "processMetricUpdate (NewDNSQueryUpdate qt st d) \<noteq> []"
  "processMetricUpdate (NewUpstreamQueryUpdate svr st d) \<noteq> []"
  "processMetricUpdate (NewErrorUpdate ty src) \<noteq> []"
  "processMetricUpdate (NewUpstreamServerReachableUpdate svr b) \<noteq> []"
  "processMetricUpdate (NewCacheSizeUpdate n) \<noteq> []"
  "processMetricUpdate (NewUpstreamServersTotalUpdate n) \<noteq> []"
  "processMetricUpdate (NewDeviceIPDNSQueryUpdate ip c) \<noteq> []"
  "processMetricUpdate (NewDomainQueryUpdate dmn st) \<noteq> []"
  "processMetricUpdate (NewDomainHitUpdate dmn c) \<noteq> []"
  "processMetricUpdate (NewMetricUpdate MetricTypeCacheHit []) \<noteq> []"
  "processMetricUpdate (NewMetricUpdate MetricTypeCacheMiss []) \<noteq> []"
  by (simp_all add: update_builders processMetricUpdate_def metric_types Let_def)

lemma extends_send_after:
  "extends_by f g us \<Longrightarrow> processMetricUpdate u \<noteq> [] \<Longrightarrow> \<exists>vs. extends_by f (try_send u g) vs"
  using extends_try_send extends_by_trans by blast

lemma extends_fold_pairs:
  "(\<And>k c. processMetricUpdate (h k c) \<noteq> []) \<Longrightarrow>
     \<exists>us. extends_by f (foldl (\<lambda>g (k, c). try_send (h k c) g) f xs) us"
  by (induction xs rule: rev_induct) (auto intro: extends_by_refl extends_send_after)

lemma extends_counts:
  "\<exists>us. extends_by f (FastUpdateDeviceIPMetrics ord f) us"
  "\<exists>us. extends_by f (FastUpdateDomainMetrics ord f) us"
  unfolding FastUpdateDeviceIPMetrics_def FastUpdateDomainMetrics_def
  by (rule extends_fold_pairs, rule built_updates_apply)+

lemma extends_query:
  "\<exists>us. extends_by f (FastRecordDNSQueryWithDeviceIPAndDomain qt st ip dmn d f) us"
proof -
  let ?f1 = "f\<lparr>dnsQueriesCount := dnsQueriesCount f + 1\<rparr>"
  let ?f2 = "if ip \<noteq> '''' then incrementDeviceIPCount ip ?f1 else ?f1"
  have 2: "extends_by f ?f2 []"
    by (rule extends_by_same) (simp_all add: incrementDeviceIPCount_def)
  have "extends_by f (incrementDomainQueryCount dmn ?f2) []"
    using 2 by (simp add: extends_by_def incrementDomainQueryCount_def)
  then have "\<exists>us. extends_by f (try_send (NewDomainQueryUpdate dmn st) (incrementDomainQueryCount dmn ?f2)) us"
    by (rule extends_send_after) (rule built_updates_apply)
  with 2 obtain us where "extends_by f (if dmn \<noteq> '''' then
      try_send (NewDomainQueryUpdate dmn st) (incrementDomainQueryCount dmn ?f2) else ?f2) us"
    by (cases "dmn \<noteq> ''''") auto
  from extends_send_after [OF this built_updates_apply(1)] show ?thesis
    by (simp only: FastRecordDNSQueryWithDeviceIPAndDomain_def Let_def)
qed

lemma extends_after:
  "extends_by f g [] \<Longrightarrow> processMetricUpdate u \<noteq> [] \<Longrightarrow> \<exists>vs. extends_by f (try_send u g) vs"
  by (rule extends_send_after)

lemma record_step_extends: "record_step f f' \<Longrightarrow> \<exists>us. extends_by f f' us"
proof (induction rule: record_step.induct)
  case (inline_hit f)
  show ?case
    by (intro exI, rule extends_by_same) (simp_all add: InlineCacheHit_def)
next
  case (inline_domain_hit f dmn)
  show ?case
    by (intro exI, rule extends_by_same)
      (simp_all add: InlineCacheHitWithDomain_def incrementDomainHitCount_def case_prod_beta)
next
  case (domain_hit f dmn)
  show ?case
    unfolding FastRecordDomainHit_def case_prod_beta
    by (intro extends_after [OF extends_by_same] built_updates_apply)
      (simp_all add: incrementDomainHitCount_def case_prod_beta)
next
  case (err f ty src)
  show ?case
    unfolding FastRecordError_def
    by (intro extends_after [OF extends_by_same] built_updates_apply) simp_all
next
  case (hit f)
  show ?case
    unfolding FastRecordCacheHit_def
    by (intro extends_after [OF extends_by_same] built_updates_apply) simp_all
next
  case (miss f)
  show ?case
    unfolding FastRecordCacheMiss_def
    by (intro extends_after [OF extends_by_same] built_updates_apply) simp_all
qed (simp_all add: extends_query extends_counts FastRecordUpstreamQuery_def
    FastSetUpstreamServerReachable_def FastSetUpstreamServersTotal_def FastUpdateCacheSize_def
    extends_try_send built_updates_apply)


section \<open>Conservation\<close>

lemma flushUpdates_append [simp]: "flushUpdates (us @ vs) = flushUpdates us @ flushUpdates vs"
  by (simp add: flushUpdates_def)

lemma flushUpdates_Nil [simp]: "flushUpdates [] = []"
  by (simp add: flushUpdates_def)

lemma flushUpdates_Cons: "flushUpdates (u # us) = flushUpdates [u] @ flushUpdates us"
  by (simp add: flushUpdates_def)

text \<open>The number of updates the drain takes from the channel.\<close>

fun drain_count :: "(nat \<Rightarrow> bool) \<Rightarrow> int \<Rightarrow> nat \<Rightarrow> nat \<Rightarrow> nat" where
  "drain_count in_time maxU n 0 = 0"
| "drain_count in_time maxU n (Suc k) =
     (if in_time n \<and> int n < maxU then Suc (drain_count in_time maxU (n + 1) k) else 0)"

lemma drain_loop_eq:
  "drain_loop in_time maxU batchSize n pending ch =
     (let k = drain_count in_time maxU n (length ch)
      in (flushUpdates (pending @ take k ch), drop k ch))"
  by (induction in_time maxU batchSize n pending ch rule: drain_loop.induct)
    (auto simp: Let_def intro: flushUpdates_Cons [symmetric])

lemma drain_count_le: "drain_count in_time maxU n k \<le> k"
  by (induction in_time maxU n k rule: drain_count.induct) auto

lemma drain_count_all:
  "(\<forall>i < n + k. in_time i) \<Longrightarrow> drain_count in_time maxU n k = nat (min (int k) (maxU - int n))"
  by (induction in_time maxU n k rule: drain_count.induct) auto

text \<open>What the synchronisation applies is appended to one side of a shuffle, the updates to the other.\<close>

lemma append_in_shuffles_self: "xs @ ys \<in> shuffles xs ys"
  by (induction xs ys rule: shuffles.induct) (auto simp: Cons_in_shuffles_leftI)

lemma shuffles_snoc_right:
  "zs \<in> shuffles xs ys \<Longrightarrow> zs @ us \<in> shuffles xs (ys @ us)"
proof (induction xs ys arbitrary: zs rule: shuffles.induct)
  case (1 ys)
  then show ?case by simp
next
  case (2 xs)
  then show ?case by (simp add: append_in_shuffles_self)
next
  case (3 x xs y ys)
  then show ?case by auto
qed

lemma shuffles_snoc_left: "zs \<in> shuffles xs ys \<Longrightarrow> zs @ us \<in> shuffles (xs @ us) ys"
  using shuffles_snoc_right [of zs ys xs us] by (simp add: shuffles_commutes)

definition counter_ops :: "prom_op set" where
  "counter_ops = {Inc ''cacheHitsTotal'' [], Inc ''cacheMissesTotal'' []}"

lemma set_sync: "set (syncAtomicCountersToPrometheus f) \<subseteq> counter_ops"
  by (auto simp: syncAtomicCountersToPrometheus_def counter_ops_def update_builders
      processMetricUpdate_def metric_types)

definition batch_inv :: "batcher \<Rightarrow> metricUpdate list \<Rightarrow> bool" where
  "batch_inv b past \<longleftrightarrow>
     sent (rec b) = past @ updates b @ metricUpdates (rec b) \<and>
     length (metricUpdates (rec b)) \<le> channelSize (rec b) \<and>
     applied b \<in> shuffles (flushUpdates past) (synced b) \<and> set (synced b) \<subseteq> counter_ops \<and>
     (\<forall>u \<in> set (sent (rec b)). processMetricUpdate u \<noteq> [])"

lemma batch_inv_flush:
  "batch_inv b past \<Longrightarrow>
     batch_inv (b\<lparr>applied := applied b @ flushUpdates (updates b), updates := []\<rparr>) (past @ updates b)"
  by (simp add: batch_inv_def shuffles_snoc_left)

lemma batch_inv_sync:
  "batch_inv b past \<Longrightarrow> set ops \<subseteq> counter_ops \<Longrightarrow>
     batch_inv (b\<lparr>applied := applied b @ ops, synced := synced b @ ops\<rparr>) past"
  by (simp add: batch_inv_def shuffles_snoc_right)

lemma batch_inv_flush_if_full:
  "batch_inv b past \<Longrightarrow> \<exists>t. batch_inv (flush_if_full n b) t \<and> prefix past t"
  by (cases "n \<le> int (length (updates b))")
    (auto simp: flush_if_full_def dest: batch_inv_flush intro: exI [of _ "past @ updates b"] exI [of _ past])

lemma batch_inv_record:
  assumes "batch_inv b past" and "extends_by (rec b) f us"
  shows "batch_inv (b\<lparr>rec := f\<rparr>) past"
  using assms by (auto simp: batch_inv_def extends_by_def)

lemma batch_inv_update:
  assumes "batch_inv b past"
  shows "\<exists>t. batch_inv (on_update n b) t \<and> prefix past t"
proof (cases "metricUpdates (rec b)")
  case Nil
  with assms show ?thesis by (auto simp: on_update_def)
next
  case (Cons u ch)
  let ?b = "b\<lparr>rec := (rec b)\<lparr>metricUpdates := ch\<rparr>, updates := updates b @ [u]\<rparr>"
  have "batch_inv ?b past"
    using assms Cons by (auto simp: batch_inv_def)
  from batch_inv_flush_if_full [OF this] Cons show ?thesis
    by (simp add: on_update_def)
qed

lemma batch_inv_tick:
  assumes "batch_inv b past"
  shows "\<exists>t. batch_inv (on_tick n ord b) t \<and> prefix past t"
proof -
  let ?t = "past @ updates b"
  define b1 where "b1 = (if updates b \<noteq> [] then
      b\<lparr>applied := applied b @ flushUpdates (updates b), updates := []\<rparr> else b)"
  let ?ops = "syncAtomicCountersToPrometheus (rec b1)"
  define b2 where "b2 = b1\<lparr>applied := applied b1 @ ?ops, synced := synced b1 @ ?ops\<rparr>"
  define k where "k = deviceIPUpdateCounter b2 + 1"
  define f where "f = FastUpdateDomainMetrics ord (FastUpdateDeviceIPMetrics ord (rec b2))"
  have "batch_inv b1 ?t"
    using assms batch_inv_flush [OF assms] by (auto simp: b1_def)
  then have 2: "batch_inv b2 ?t"
    unfolding b2_def using set_sync by (rule batch_inv_sync)
  obtain us where "extends_by (rec b2) f us"
    unfolding f_def using extends_counts extends_by_trans by metis
  from batch_inv_record [OF 2 this] have 3: "batch_inv (b2\<lparr>rec := f, deviceIPUpdateCounter := 0\<rparr>) ?t"
    by (simp add: batch_inv_def)
  have 4: "batch_inv (b2\<lparr>deviceIPUpdateCounter := k\<rparr>) ?t"
    using 2 by (simp add: batch_inv_def)
  have "on_tick n ord b = flush_if_full n (if 10 \<le> k then b2\<lparr>rec := f, deviceIPUpdateCounter := 0\<rparr>
      else b2\<lparr>deviceIPUpdateCounter := k\<rparr>)"
    unfolding on_tick_def Let_def b1_def [symmetric] b2_def [symmetric] k_def [symmetric] f_def [symmetric]
    by simp
  then obtain t where "batch_inv (on_tick n ord b) t" "prefix ?t t"
    using batch_inv_flush_if_full [OF 3] batch_inv_flush_if_full [OF 4] by (cases "10 \<le> k") auto
  then show ?thesis
    by (meson prefix_order.trans prefixI)
qed

text \<open>What the branch of \<open>Done\<close> leaves.\<close>

lemma on_done_eq:
  "on_done al in_time b =
     (if make_slice al (drainBatchSize (rec b)) \<noteq> Allocated then None
      else let ch = metricUpdates (rec b);
               k = drain_count in_time (maxDrainUpdates (rec b)) 0 (length ch)
        in Some (b\<lparr>applied := applied b @ flushUpdates (updates b) @ flushUpdates (take k ch),
             rec := (rec b)\<lparr>metricUpdates := drop k ch\<rparr>, updates := [], stopped := True\<rparr>))"
  by (simp add: on_done_def drainMetricUpdates_def drain_loop_eq Let_def)

lemma batch_inv_done:
  assumes "batch_inv b past" and "on_done al in_time b = Some b'"
  shows "\<exists>k. batch_inv b' (past @ updates b @ take k (metricUpdates (rec b)))"
proof -
  let ?k = "drain_count in_time (maxDrainUpdates (rec b)) 0 (length (metricUpdates (rec b)))"
  have "batch_inv b' (past @ updates b @ take ?k (metricUpdates (rec b)))"
    using assms shuffles_snoc_left [of "applied b" "flushUpdates past" "synced b"
        "flushUpdates (updates b @ take ?k (metricUpdates (rec b)))"]
    by (auto simp: on_done_eq Let_def batch_inv_def split: if_splits)
  then show ?thesis by blast
qed

lemma batch_step_inv:
  "batch_step al n b b' \<Longrightarrow> batch_inv b past \<Longrightarrow> \<exists>t. batch_inv b' t \<and> prefix past t"
proof (induction rule: batch_step.induct)
  case (records b f)
  then show ?case
    using record_step_extends batch_inv_record by blast
next
  case (shutdown b in_time b')
  then show ?case
    using batch_inv_done [of b past al in_time b'] by (meson prefixI)
qed (auto intro: batch_inv_update batch_inv_tick)

lemma batch_reachable_inv:
  assumes "(batch_step al n)\<^sup>*\<^sup>* (batch_start f) b" and "metricUpdates f = []" and "sent f = []"
  shows "\<exists>t. batch_inv b t"
  using assms(1)
proof (induction rule: rtranclp_induct)
  case base
  then show ?case
    using assms(2,3) by (intro exI [of _ "[]"]) (simp add: batch_inv_def batch_start_def)
next
  case (step b b')
  then show ?case
    using batch_step_inv by blast
qed

text \<open>
  C19: updates are applied to Prometheus exactly once and in order. In every reachable state of
  the recorder and its batch goroutine: the channel is within its size; what the channel ever
  accepted is what was taken from it for good, then the current batch, then the channel; what
  has been applied is an interleaving of what applying the taken updates makes, in their order,
  and of what the periodic synchronisation made, which increments only the two cache counters;
  and no accepted update is one that applying ignores.
\<close>

theorem metrics_conservation:
  assumes "(batch_step al n)\<^sup>*\<^sup>* (batch_start f) b" and "metricUpdates f = []" and "sent f = []"
  shows "length (metricUpdates (rec b)) \<le> channelSize (rec b) \<and>
    (\<exists>past. sent (rec b) = past @ updates b @ metricUpdates (rec b) \<and>
      applied b \<in> shuffles (flushUpdates past) (synced b)) \<and>
    set (synced b) \<subseteq> {Inc ''cacheHitsTotal'' [], Inc ''cacheMissesTotal'' []} \<and>
    (\<forall>u \<in> set (sent (rec b)). processMetricUpdate u \<noteq> [])"
  using batch_reachable_inv [OF assms] by (auto simp: batch_inv_def counter_ops_def)

text \<open>
  C35: what a graceful shutdown loses. The process ends in a panic (or for want of memory) when
  the slice of the drain cannot be made, as for a negative batch size. Otherwise, if the drain stays
  within its time, shutting down applies the current batch and the oldest updates in the
  channel up to the drain limit (none for a negative limit), in order, and exactly the updates beyond
  the limit are never applied.
\<close>

theorem metrics_shutdown_drains:
  assumes "\<forall>i < length (metricUpdates (rec b)). in_time i"
  defines "k \<equiv> nat (min (int (length (metricUpdates (rec b)))) (maxDrainUpdates (rec b)))"
  shows "case on_done al in_time b of
      None \<Rightarrow> make_slice al (drainBatchSize (rec b)) \<noteq> Allocated
    | Some b' \<Rightarrow> make_slice al (drainBatchSize (rec b)) = Allocated \<and>
        applied b' = applied b @ flushUpdates (updates b) @ flushUpdates (take k (metricUpdates (rec b))) \<and>
        updates b' = [] \<and> metricUpdates (rec b') = drop k (metricUpdates (rec b)) \<and> stopped b'"
proof -
  have "k = drain_count in_time (maxDrainUpdates (rec b)) 0 (length (metricUpdates (rec b)))"
    using drain_count_all [of 0 "length (metricUpdates (rec b))" in_time "maxDrainUpdates (rec b)"] assms
    by simp
  then show ?thesis
    by (simp add: on_done_eq Let_def)
qed


definition small_recorder :: recorder where
  "small_recorder = \<lparr>dnsQueriesCount = 0, cacheHitsCount = 0, cacheMissesCount = 0, errorsCount = 0,
     deviceIPCounts = [], domainQueryCounts = [], domainHitCounts = [], metricUpdates = [],
     channelSize = 2, drainTimeout = second, maxDrainUpdates = 1, drainBatchSize = 50, sent = []\<rparr>"

text \<open>An allocator for which only the sign matters.\<close>

definition roomy :: allocator where
  "roomy = \<lparr>chan_alloc = (\<lambda>_. Allocated), slice_alloc = (\<lambda>_. Allocated)\<rparr>"

lemma roomy_alloc [simp]:
  "make_chan roomy n = (if n < 0 then OutOfRange else Allocated)"
  "make_slice roomy n = (if n < 0 then OutOfRange else Allocated)"
  by (simp_all add: make_chan_def make_slice_def roomy_def)

lemma metrics_conservation_witness:
  "\<exists>b past. (batch_step roomy 500)\<^sup>*\<^sup>* (batch_start small_recorder) b \<and> cacheMissesCount (rec b) = 1 \<and>
     sent (rec b) = past @ updates b @ metricUpdates (rec b)"
proof -
  let ?b = "(batch_start small_recorder)\<lparr>rec := FastRecordCacheMiss small_recorder\<rparr>"
  have "record_step (rec (batch_start small_recorder)) (FastRecordCacheMiss small_recorder)"
    by (simp add: batch_start_def record_step.miss)
  then have run: "(batch_step roomy 500)\<^sup>*\<^sup>* (batch_start small_recorder) ?b"
    by (intro r_into_rtranclp batch_step.records)
  have "metricUpdates small_recorder = []" "sent small_recorder = []"
    by (simp_all add: small_recorder_def)
  note c = metrics_conservation [OF run this]
  have "cacheMissesCount (rec ?b) = 1"
    by (simp add: FastRecordCacheMiss_def try_send_def small_recorder_def)
  with c run show ?thesis by blast
qed

lemma metrics_shutdown_drains_witness:
  "\<exists>b b'. length (metricUpdates (rec b)) = 2 \<and> on_done roomy (\<lambda>_. True) b = Some b' \<and>
     length (metricUpdates (rec b')) = 1"
proof -
  let ?b = "batch_start (FastRecordCacheMiss (FastRecordCacheHit small_recorder))"
  have l: "length (metricUpdates (rec ?b)) = 2" and m: "maxDrainUpdates (rec ?b) = 1"
    by (simp_all add: batch_start_def FastRecordCacheMiss_def FastRecordCacheHit_def try_send_def
        small_recorder_def)
  have d: "drainBatchSize (rec ?b) = 50"
    by (simp add: batch_start_def FastRecordCacheMiss_def FastRecordCacheHit_def try_send_def
        small_recorder_def)
  have "\<forall>i < length (metricUpdates (rec ?b)). True"
    by simp
  from metrics_shutdown_drains [OF this, of roomy] l m d obtain b' where
    "on_done roomy (\<lambda>_. True) ?b = Some b'" "metricUpdates (rec b') = drop 1 (metricUpdates (rec ?b))"
    by (cases "on_done roomy (\<lambda>_. True) ?b") auto
  with l show ?thesis
    by (intro exI [of _ ?b] exI [of _ b']) simp
qed

section \<open>Labels\<close>

text \<open>
  Applying an update agrees with the table of label requirements: something is applied to
  Prometheus exactly when the type is in the table and there are enough labels; no type lacks
  a case and no case reads a label that may be missing.
\<close>

theorem processMetricUpdate_labels:
  "processMetricUpdate u \<noteq> [] \<longleftrightarrow>
     metricLabelRequirements (Type u) \<noteq> None \<and> validateLabelsOptimized (Type u) (Labels u)"
  by (simp add: processMetricUpdate_def validateLabelsOptimized_def metricLabelRequirements_def
      metric_types Let_def)

section \<open>The synchronised counters\<close>

lemma try_send_counts [simp]:
  "cacheHitsCount (try_send u f) = cacheHitsCount f"
  "cacheMissesCount (try_send u f) = cacheMissesCount f"
  by (simp_all add: try_send_def)

lemma fold_send_counts:
  "cacheHitsCount (foldl (\<lambda>g (k, c). try_send (h k c) g) f xs) = cacheHitsCount f"
  "cacheMissesCount (foldl (\<lambda>g (k, c). try_send (h k c) g) f xs) = cacheMissesCount f"
  by (induction xs arbitrary: f) (auto simp: case_prod_beta)

lemma on_tick_idle:
  assumes "updates b = []"
  shows "applied (on_tick n ord b) = applied b @ syncAtomicCountersToPrometheus (rec b)"
    and "updates (on_tick n ord b) = []"
    and "cacheHitsCount (rec (on_tick n ord b)) = cacheHitsCount (rec b)"
  using assms
  by (simp_all add: on_tick_def Let_def flush_if_full_def FastUpdateDomainMetrics_def
      FastUpdateDeviceIPMetrics_def fold_send_counts)

text \<open>
  The hit counter of Prometheus counts ticks. Once a single hit has been counted, every
  tick of the batch goroutine adds one more hit to Prometheus, although no hit has occurred.
\<close>

theorem sync_counts_ticks:
  assumes "0 < cacheHitsCount (rec b)" and "updates b = []"
  shows "cacheHitsCount (rec ((on_tick n ord ^^ k) b)) = cacheHitsCount (rec b) \<and>
    length (filter ((=) (Inc ''cacheHitsTotal'' [])) (applied ((on_tick n ord ^^ k) b))) =
      length (filter ((=) (Inc ''cacheHitsTotal'' [])) (applied b)) + k"
proof -
  have "updates ((on_tick n ord ^^ k) b) = [] \<and>
      cacheHitsCount (rec ((on_tick n ord ^^ k) b)) = cacheHitsCount (rec b) \<and>
      length (filter ((=) (Inc ''cacheHitsTotal'' [])) (applied ((on_tick n ord ^^ k) b))) =
        length (filter ((=) (Inc ''cacheHitsTotal'' [])) (applied b)) + k"
    using assms
    by (induction k) (auto simp: on_tick_idle syncAtomicCountersToPrometheus_def update_builders
        processMetricUpdate_def metric_types)
  then show ?thesis by blast
qed

lemma sync_counts_ticks_witness:
  "length (filter ((=) (Inc ''cacheHitsTotal'' []))
     (applied ((on_tick 500 id ^^ 7) (batch_start (InlineCacheHit small_recorder))))) = 7"
proof -
  let ?b = "batch_start (InlineCacheHit small_recorder)"
  have "0 < cacheHitsCount (rec ?b)" "updates ?b = []" "applied ?b = []"
    by (simp_all add: batch_start_def InlineCacheHit_def small_recorder_def)
  with sync_counts_ticks [where b = ?b and n = 500 and ord = id and k = 7] show ?thesis by simp
qed

section \<open>The largest counts\<close>

text \<open>
  \<open>getTopItems\<close> returns the n largest counts, or all when there are fewer, in descending
  order, whatever order the sort gives to equal counts.
\<close>

theorem getTopItems_spec:
  assumes "mset (srt m) = mset m" and "sorted_wrt (\<lambda>x y. snd y \<le> snd x) (srt m)" and "0 \<le> n"
  shows "\<exists>items. getTopItems srt m n = Some items \<and>
    length items = min (nat n) (length m) \<and> mset items \<subseteq># mset m \<and>
    sorted_wrt (\<lambda>x y. snd y \<le> snd x) items \<and>
    (\<forall>x \<in># mset items. \<forall>y \<in># mset m - mset items. snd y \<le> snd x)"
proof -
  let ?k = "nat (if int (length (srt m)) < n then int (length (srt m)) else n)"
  have split: "mset m = mset (take ?k (srt m)) + mset (drop ?k (srt m))"
    unfolding assms(1) [symmetric] by (metis append_take_drop_id mset_append)
  have len: "length (srt m) = length m"
    using assms(1) by (rule mset_eq_length)
  have "sorted_wrt (\<lambda>x y. snd y \<le> snd x) (take ?k (srt m) @ drop ?k (srt m))"
    using assms(2) by simp
  then have sorted: "sorted_wrt (\<lambda>x y. snd y \<le> snd x) (take ?k (srt m))"
    "\<forall>x \<in> set (take ?k (srt m)). \<forall>y \<in> set (drop ?k (srt m)). snd y \<le> snd x"
    unfolding sorted_wrt_append by blast+
  have "getTopItems srt m n = Some (take ?k (srt m))"
    using assms(3) by (simp add: getTopItems_def Let_def)
  moreover have "length (take ?k (srt m)) = min (nat n) (length m)"
    using len by auto
  moreover have "mset m - mset (take ?k (srt m)) = mset (drop ?k (srt m))"
    unfolding split by simp
  ultimately show ?thesis
    using sorted split by (metis mset_subset_eq_add_left set_mset_mset)
qed

lemma getTopItems_spec_witness:
  "\<exists>items. getTopItems rev [(''a'', 1), (''b'', 2), (''c'', 5)] 2 = Some items \<and> length items = 2"
  using getTopItems_spec [of rev "[(''a'', 1), (''b'', 2), (''c'', 5)]" 2]
  by (auto simp: min_def)

end
