(* ===== verification/SysMetrics.thy ===== *)
theory SysMetrics
  imports Metrics
begin

text \<open>
  The rest of package \<open>metric\<close>: the cache of system metrics of \<open>optimized_common.go\<close>, the
  conditional timers and the global recorder of \<open>fast_metrics.go\<close>, and the periodic update
  of \<open>metric.go\<close>.

  \<open>runtime.NumGoroutine\<close> and \<open>runtime.ReadMemStats\<close> are the parameters \<open>gor\<close> and \<open>mem\<close>,
  functions of the time at which they are read. An operation gets the times at which it
  reads the clock. The goroutine count is kept in 32 bits.
\<close>

section \<open>The cache of system metrics\<close>

record sys_cache =
  lastUpdateNanos :: nanos
  cacheDurationNanos :: duration
  cachedGoroutines :: "32 word"
  cachedMemoryUsage :: u64

record sys_source =
  getGoroutineCountFn :: "nanos \<Rightarrow> int"
  getMemoryUsageFn :: "nanos \<Rightarrow> u64"

definition updateCacheLocked :: "sys_source \<Rightarrow> nanos \<Rightarrow> sys_cache \<Rightarrow> sys_cache" where
  "updateCacheLocked src now s =
     s\<lparr>cachedGoroutines := word_of_int (getGoroutineCountFn src now),
       cachedMemoryUsage := getMemoryUsageFn src now, lastUpdateNanos := now\<rparr>"

definition NewSystemMetricsCache :: "duration \<Rightarrow> sys_source \<Rightarrow> nanos \<Rightarrow> sys_cache" where
  "NewSystemMetricsCache d src now =
     updateCacheLocked src now
       \<lparr>lastUpdateNanos = 0, cacheDurationNanos = d, cachedGoroutines = 0, cachedMemoryUsage = 0\<rparr>"

definition isCacheFresh :: "nanos \<Rightarrow> sys_cache \<Rightarrow> bool" where
  "isCacheFresh now s \<longleftrightarrow> now - lastUpdateNanos s < cacheDurationNanos s"

text \<open>
  The slow path, under the mutex: \<open>t2\<close> is the second look at the clock, \<open>t3\<close> the update.
\<close>

definition refresh :: "sys_source \<Rightarrow> nanos \<Rightarrow> nanos \<Rightarrow> sys_cache \<Rightarrow> sys_cache" where
  "refresh src t2 t3 s = (if isCacheFresh t2 s then s else updateCacheLocked src t3 s)"

definition GetGoroutineCount ::
    "sys_source \<Rightarrow> nanos \<Rightarrow> nanos \<Rightarrow> nanos \<Rightarrow> sys_cache \<Rightarrow> int \<times> sys_cache" where
  "GetGoroutineCount src t1 t2 t3 s =
     (if isCacheFresh t1 s then (sint (cachedGoroutines s), s)
      else let s' = refresh src t2 t3 s in (sint (cachedGoroutines s'), s'))"

definition GetMemoryUsage ::
    "sys_source \<Rightarrow> nanos \<Rightarrow> nanos \<Rightarrow> nanos \<Rightarrow> sys_cache \<Rightarrow> u64 \<times> sys_cache" where
  "GetMemoryUsage src t1 t2 t3 s =
     (if isCacheFresh t1 s then (cachedMemoryUsage s, s)
      else let s' = refresh src t2 t3 s in (cachedMemoryUsage s', s'))"

definition GetBothMetrics ::
    "sys_source \<Rightarrow> nanos \<Rightarrow> nanos \<Rightarrow> nanos \<Rightarrow> sys_cache \<Rightarrow> (int \<times> u64) \<times> sys_cache" where
  "GetBothMetrics src t1 t2 t3 s =
     (if isCacheFresh t1 s then ((sint (cachedGoroutines s), cachedMemoryUsage s), s)
      else let s' = refresh src t2 t3 s in ((sint (cachedGoroutines s'), cachedMemoryUsage s'), s'))"

section \<open>Timers\<close>

text \<open>The zero time of a disabled timer is never read.\<close>

record ConditionalTimer =
  timer_start :: nanos
  enabled :: bool

definition StartConditionalTimer :: "bool \<Rightarrow> nanos \<Rightarrow> ConditionalTimer" where
  "StartConditionalTimer on now =
     (if on then \<lparr>timer_start = now, enabled = True\<rparr> else \<lparr>timer_start = 0, enabled = False\<rparr>)"

definition Elapsed :: "ConditionalTimer \<Rightarrow> nanos \<Rightarrow> duration" where
  "Elapsed ct now = (if enabled ct then now - timer_start ct else 0)"

definition StartDNSQueryTimer :: "bool \<Rightarrow> nanos \<Rightarrow> ConditionalTimer" where
  "StartDNSQueryTimer metricsEnabled now = StartConditionalTimer metricsEnabled now"

definition StartCacheTimer :: "bool \<Rightarrow> nanos \<Rightarrow> ConditionalTimer" where
  "StartCacheTimer metricsEnabled now = StartConditionalTimer metricsEnabled now"

section \<open>The global recorder\<close>

record metrics_global =
  fastMetricsInstance :: "(recorder \<times> int \<times> duration) option"
  fastMetricsOnce :: bool
  metrics_caches :: util_caches

text \<open>A panic inside \<open>Once.Do\<close> counts as done: later calls return the nil instance.\<close>

definition GetFastMetricsInstance ::
    "environ \<Rightarrow> allocator \<Rightarrow> metrics_global \<Rightarrow>
     (metrics_panic + (recorder \<times> int \<times> duration) option) \<times> metrics_global" where
  "GetFastMetricsInstance env al g =
     (if fastMetricsOnce g then (Inr (fastMetricsInstance g), g)
      else case NewFastMetricsRecorder env al (metrics_caches g) of
        (Inl p, u) \<Rightarrow> (Inl p, g\<lparr>fastMetricsOnce := True, metrics_caches := u\<rparr>)
      | (Inr r, u) \<Rightarrow>
          (Inr (Some r), g\<lparr>fastMetricsInstance := Some r, fastMetricsOnce := True, metrics_caches := u\<rparr>))"

section \<open>The periodic update\<close>

definition UpdateDeviceIPDNSMetrics :: "counts \<Rightarrow> prom_op list" where
  "UpdateDeviceIPDNSMetrics m = map (\<lambda>(ip, n). Set ''deviceIPDNSQueries'' [ip] (f64_of_nat (unat n))) m"

definition UpdateDomainHitMetrics :: "counts \<Rightarrow> prom_op list" where
  "UpdateDomainHitMetrics m = map (\<lambda>(d, n). Set ''domainHitsTotal'' [d] (f64_of_nat (unat n))) m"

definition updateSystemMetrics ::
    "sys_source \<Rightarrow> nanos \<Rightarrow> nanos \<Rightarrow> nanos \<Rightarrow> (counts \<Rightarrow> counts) \<Rightarrow> recorder option \<Rightarrow> sys_cache \<Rightarrow>
     prom_op list \<times> sys_cache" where
  "updateSystemMetrics src t1 t2 t3 ord inst s =
     (case GetBothMetrics src t1 t2 t3 s of ((goroutines, memUsage), s') \<Rightarrow>
        ([Set ''goroutineCount'' [] (f64_of_int goroutines),
          Set ''memoryUsage'' [] (f64_of_nat (unat memUsage))] @
         (case inst of
            None \<Rightarrow> []
          | Some f \<Rightarrow> UpdateDeviceIPDNSMetrics (ord (deviceIPCounts f)) @
                     UpdateDomainHitMetrics (ord (domainHitCounts f))), s'))"

text \<open>One tick of \<open>StartMetricsUpdater\<close>.\<close>

definition updater_tick ::
    "duration \<Rightarrow> sys_source \<Rightarrow> nanos \<Rightarrow> nanos \<Rightarrow> nanos \<Rightarrow> (counts \<Rightarrow> counts) \<Rightarrow> recorder option \<Rightarrow>
     sys_cache \<Rightarrow> prom_op list \<times> sys_cache" where
  "updater_tick interval src t1 t2 t3 ord inst s =
     (case updateSystemMetrics src t1 t2 t3 ord inst s of
        (ops, s') \<Rightarrow> (AddSeconds ''serverUptime'' interval # ops, s'))"

section \<open>Properties\<close>

text \<open>Both cached values are the sample of one time.\<close>

definition sys_inv :: "sys_source \<Rightarrow> sys_cache \<Rightarrow> bool" where
  "sys_inv src s \<longleftrightarrow>
     cachedGoroutines s = word_of_int (getGoroutineCountFn src (lastUpdateNanos s)) \<and>
     cachedMemoryUsage s = getMemoryUsageFn src (lastUpdateNanos s)"

lemma sys_inv_update: "sys_inv src (updateCacheLocked src now s)"
  by (simp add: sys_inv_def updateCacheLocked_def)

lemma sys_inv_new: "sys_inv src (NewSystemMetricsCache d src now)"
  unfolding NewSystemMetricsCache_def by (rule sys_inv_update)

lemma refresh_cases:
  assumes "sys_inv src s" and "0 < cacheDurationNanos s" and "t2 \<le> t3"
  shows "sys_inv src (refresh src t2 t3 s) \<and> t2 - lastUpdateNanos (refresh src t2 t3 s) < cacheDurationNanos s"
  using assms by (auto simp: refresh_def isCacheFresh_def updateCacheLocked_def sys_inv_def)

lemma sint_small: "- (2 ^ 31) \<le> x \<Longrightarrow> x < 2 ^ 31 \<Longrightarrow> sint (word_of_int x :: 32 word) = x"
  by (simp add: signed_take_bit_int_eq_self sint_sbintrunc')

text \<open>
  The cached system metrics are recent and consistent. Both values that a call returns
  were sampled at the same time, less than the cache duration before the call or during it,
  and while the goroutine count fits in 32 bits the count is the sampled one; the cache stays
  consistent.
\<close>

theorem GetBothMetrics_recent:
  assumes "sys_inv src s" and "0 < cacheDurationNanos s" and "t1 \<le> t2" and "t2 \<le> t3"
    and "\<And>t. 0 \<le> getGoroutineCountFn src t \<and> getGoroutineCountFn src t < 2 ^ 31"
  shows "\<exists>t s'. GetBothMetrics src t1 t2 t3 s = ((getGoroutineCountFn src t, getMemoryUsageFn src t), s') \<and>
    t1 - cacheDurationNanos s < t \<and> sys_inv src s' \<and>
    fst (GetGoroutineCount src t1 t2 t3 s) = getGoroutineCountFn src t \<and>
    fst (GetMemoryUsage src t1 t2 t3 s) = getMemoryUsageFn src t"
proof -
  define s' where "s' = (if isCacheFresh t1 s then s else refresh src t2 t3 s)"
  have inv: "sys_inv src s'" and recent: "t1 - lastUpdateNanos s' < cacheDurationNanos s"
    using assms(1-3) refresh_cases [OF assms(1,2,4)] by (auto simp: s'_def isCacheFresh_def)
  have "sint (cachedGoroutines s') = getGoroutineCountFn src (lastUpdateNanos s')"
    using inv assms(5) [of "lastUpdateNanos s'"] by (simp add: sys_inv_def sint_small)
  moreover have "cachedMemoryUsage s' = getMemoryUsageFn src (lastUpdateNanos s')"
    using inv by (simp add: sys_inv_def)
  ultimately show ?thesis
    using inv recent
    by (intro exI [of _ "lastUpdateNanos s'"] exI [of _ s'])
      (auto simp: GetBothMetrics_def GetGoroutineCount_def GetMemoryUsage_def s'_def Let_def
        split: if_splits)
qed

lemma GetBothMetrics_recent_witness:
  "\<exists>t. fst (GetBothMetrics \<lparr>getGoroutineCountFn = (\<lambda>t. t mod 100), getMemoryUsageFn = (\<lambda>t. 7)\<rparr> 20 20 21
     (NewSystemMetricsCache 5 \<lparr>getGoroutineCountFn = (\<lambda>t. t mod 100), getMemoryUsageFn = (\<lambda>t. 7)\<rparr> 3)) = (t mod 100, 7) \<and>
     15 < t"
proof -
  let ?src = "\<lparr>getGoroutineCountFn = (\<lambda>t. t mod 100), getMemoryUsageFn = (\<lambda>t. 7)\<rparr>"
  have d: "cacheDurationNanos (NewSystemMetricsCache 5 ?src 3) = 5"
    by (simp add: NewSystemMetricsCache_def updateCacheLocked_def)
  have "0 \<le> getGoroutineCountFn ?src t \<and> getGoroutineCountFn ?src t < 2 ^ 31" for t
    by simp
  from GetBothMetrics_recent [OF sys_inv_new, of 5 ?src 3 20 20 21, unfolded d, OF _ _ _ this]
  show ?thesis by auto
qed

end
