(* ===== verification/Cache.thy ===== *)
theory Cache
  imports DnsResolver SysMetrics "HOL-Library.Signed_Division"
begin

text \<open>
  The answer cache, \<open>cache/cache.go\<close> with \<open>cache/access_tracker.go\<close>: cache keys, the time an
  answer is kept, the access tracker and the cached resolver. The cache itself is a go-cache
  (the parameter \<open>ce_dns\<close>); its values are slices of resource records, where \<open>None\<close> is the nil
  slice. A resource record is what the code reads of it: name, type, time to live, and for
  A and AAAA records the address bytes.
\<close>

datatype rr_body = A_record ip | AAAA_record ip | Other_record string | Nil_record

record RR =
  rr_name :: string
  Rrtype :: u16
  Ttl :: u32
  rr_data :: rr_body

text \<open>
  The nil interface of type \<open>dns.RR\<close>. No server answer holds it; a cache loaded from disk can (see theory
  \<open>Persistence\<close>).
\<close>

definition nil_rr :: RR where
  "nil_rr = \<lparr>rr_name = '''', Rrtype = 0, Ttl = 0, rr_data = Nil_record\<rparr>"

definition TypeA :: u16 where "TypeA = 1"
definition TypeAAAA :: u16 where "TypeAAAA = 28"

section \<open>Keys\<close>

definition CacheKey :: "(string \<Rightarrow> string) \<Rightarrow> string \<Rightarrow> u16 \<Rightarrow> string" where
  "CacheKey fqdn domain0 qt =
     (let domain = fqdn domain0
      in if qt = 1 then domain @ SuffixA
         else if qt = 28 then domain @ SuffixAAAA
         else if qt = 5 then domain @ SuffixCNAME
         else if qt = 15 then domain @ SuffixMX
         else if qt = 16 then domain @ SuffixTXT
         else domain @ '':'' @ nat_dec (unat qt))"

lemma nat_dec_small:
  "nat_dec 1 = ''1''" "nat_dec 5 = ''5''" "nat_dec 15 = ''15''" "nat_dec 16 = ''16''"
  "nat_dec 28 = ''28''"
proof -
  have "char_of (49 :: nat) = CHR ''1''" "char_of (50 :: nat) = CHR ''2''"
    "char_of (53 :: nat) = CHR ''5''" "char_of (54 :: nat) = CHR ''6''" "char_of (56 :: nat) = CHR ''8''"
    by code_simp+
  then show "nat_dec 1 = ''1''" "nat_dec 5 = ''5''" "nat_dec 15 = ''15''" "nat_dec 16 = ''16''"
    "nat_dec 28 = ''28''"
    by (simp_all add: nat_dec.simps)
qed

lemma CacheKey_uniform: "CacheKey fqdn d qt = fqdn d @ '':'' @ nat_dec (unat qt)"
  by (simp add: CacheKey_def Let_def SuffixA_def SuffixAAAA_def SuffixCNAME_def SuffixMX_def
      SuffixTXT_def nat_dec_small
      nat_dec_small(1)[unfolded One_nat_def])

section \<open>How long an answer is kept\<close>

definition initInvalidAnswers :: "ip \<times> ip" where
  "initInvalidAnswers =
     ((case parse_ip ARecordInvalidAnswer of None \<Rightarrow> []
       | Some a \<Rightarrow> (case to4 a of None \<Rightarrow> [] | Some a4 \<Rightarrow> a4)),
      (case parse_ip AAAARecordInvalidAnswer of None \<Rightarrow> []
       | Some a \<Rightarrow> (case to16 a of None \<Rightarrow> [] | Some a16 \<Rightarrow> if to4 a = None then a16 else [])))"

fun bytesEqual_from :: "ip \<Rightarrow> ip \<Rightarrow> nat \<Rightarrow> nat \<Rightarrow> bool" where
  "bytesEqual_from a b i 0 = True"
| "bytesEqual_from a b i (Suc k) = (if a ! i \<noteq> b ! i then False else bytesEqual_from a b (i + 1) k)"

definition bytesEqual :: "ip \<Rightarrow> ip \<Rightarrow> bool" where
  "bytesEqual a b = (if length a \<noteq> length b then False else bytesEqual_from a b 0 (length a))"

definition invalid_answer :: "ip \<times> ip \<Rightarrow> RR \<Rightarrow> bool" where
  "invalid_answer bad rr =
     (if Rrtype rr = TypeA \<and> 0 < length (fst bad) then
        (case rr_data rr of A_record a \<Rightarrow> bytesEqual a (fst bad) | _ \<Rightarrow> False)
      else if Rrtype rr = TypeAAAA \<and> 0 < length (snd bad) then
        (case rr_data rr of AAAA_record a \<Rightarrow> bytesEqual a (snd bad) | _ \<Rightarrow> False)
      else False)"

text \<open>The loop: \<open>None\<close> when it returns the default, else the smallest time to live.\<close>

fun ttl_loop :: "ip \<times> ip \<Rightarrow> u32 \<Rightarrow> RR list \<Rightarrow> u32 option" where
  "ttl_loop bad minTTL [] = Some minTTL"
| "ttl_loop bad minTTL (rr # rrs) =
     (if Ttl rr = 0 then None
      else let minTTL' = (if Ttl rr < minTTL then Ttl rr else minTTL)
        in if invalid_answer bad rr then None else ttl_loop bad minTTL' rrs)"

definition calculateTTL :: "duration \<Rightarrow> RR list \<Rightarrow> duration" where
  "calculateTTL dflt answers =
     (if length answers = 0 then dflt
      else case ttl_loop initInvalidAnswers MinTTL answers of
        None \<Rightarrow> dflt
      | Some minTTL \<Rightarrow>
          let ttlDuration = sint (word_of_int (uint minTTL) * word_of_int second :: i64)
          in if ttlDuration < MinCacheTTL then MinCacheTTL
             else if MaxCacheTTL < ttlDuration then MaxCacheTTL
             else ttlDuration)"

section \<open>The access tracker\<close>

record AccessInfo =
  AccessCount :: i64
  LastAccessNanos :: nanos
  FirstAccessNanos :: nanos
  Domain :: string
  QueryType :: u16

type_synonym tracker = "(string \<times> AccessInfo) list"

definition NewAccessTracker :: tracker where "NewAccessTracker = []"

definition TrackAccess :: "nanos \<Rightarrow> string \<Rightarrow> string \<Rightarrow> u16 \<Rightarrow> tracker \<Rightarrow> tracker" where
  "TrackAccess now key domain qt m =
     (case map_of m key of
        Some ai \<Rightarrow> AList.update key (ai\<lparr>AccessCount := AccessCount ai + 1, LastAccessNanos := now\<rparr>) m
      | None \<Rightarrow> AList.update key
          \<lparr>AccessCount = 1, LastAccessNanos = now, FirstAccessNanos = now, Domain = domain, QueryType = qt\<rparr> m)"

definition GetAccessInfo :: "string \<Rightarrow> tracker \<Rightarrow> AccessInfo option" where
  "GetAccessInfo key m = map_of m key"

definition GetFrequentlyAccessed :: "i64 \<Rightarrow> tracker \<Rightarrow> string list" where
  "GetFrequentlyAccessed minCount m = map fst (filter (\<lambda>(k, ai). minCount \<le>s AccessCount ai) m)"

text \<open>\<open>keys\<close> are those of the cache's unexpired items.\<close>

definition CleanupExpiredEntries :: "string list \<Rightarrow> tracker \<Rightarrow> tracker" where
  "CleanupExpiredEntries keys m = filter (\<lambda>(k, ai). k \<in> set keys) m"

section \<open>The cached resolver\<close>

text \<open>What is fixed: configuration, external code and the variables \<open>Init\<close> sets.\<close>

record ('c, 'd) cache_env =
  ce_res :: "('d, RR) resolver_env"
  ce_dns :: "('c, RR list option) gocache"
  DefaultDNSCacheTTL :: duration
  MetricsOn :: bool \<comment> \<open>\<open>EnableMetrics\<close> of package \<open>cache\<close>\<close>
  DomainRoutingOn :: bool \<comment> \<open>\<open>EnableDomainRouting\<close> of package \<open>cache\<close>\<close>

record ('c, 'd) world =
  DnsCache :: 'c
  accessTracker :: tracker
  metrics :: recorder
  sources :: "source_state \<times> 'd client_state"
  resolver :: resolver_state
  routing :: routing_state

text \<open>The times of a call: the lookup, the resolution, the write.\<close>

record call_times =
  t_get :: nanos
  t_resolve :: nanos
  t_set :: nanos

definition LoadFromCache :: "('c, 'd) cache_env \<Rightarrow> nanos \<Rightarrow> string \<Rightarrow> 'c \<Rightarrow> RR list option option" where
  "LoadFromCache ce now key c = gc_get (ce_dns ce) c now key"

text \<open>The calls of a resolution on the recorder, which the resolver lists in its state, reach it.\<close>

definition record_calls :: "resolver_state \<Rightarrow> resolver_state \<Rightarrow> recorder \<Rightarrow> recorder" where
  "record_calls rs rs' f = fold record_call (drop (length (recorded rs)) (recorded rs')) f"

definition resolve_query ::
    "('c, 'd) cache_env \<Rightarrow> arp_world \<times> nanos \<Rightarrow> string \<Rightarrow> u16 \<Rightarrow> string \<Rightarrow> ('c, 'd) world \<Rightarrow>
     (client_panic + RR list option) \<times> ('c, 'd) world" where
  "resolve_query ce t domain qt clientIP w =
     (case (if DomainRoutingOn ce
            then ResolverForDomain (ce_res ce) t (routing w) domain qt clientIP (sources w) (resolver w)
            else ResolverForClient (ce_res ce) t domain qt clientIP (sources w) (resolver w)) of
        (r, src, rs) \<Rightarrow>
          (r, w\<lparr>sources := src, resolver := rs, metrics := record_calls (resolver w) rs (metrics w)\<rparr>))"

text \<open>The lifetime of an answer; \<open>len(nil)\<close> is 0, and division truncates.\<close>

definition answer_ttl :: "('c, 'd) cache_env \<Rightarrow> RR list option \<Rightarrow> duration" where
  "answer_ttl ce answers =
     (case answers of
        None \<Rightarrow> DefaultDNSCacheTTL ce sdiv NegativeResponseTTLDivisor
      | Some rrs \<Rightarrow>
          if length rrs = 0 then DefaultDNSCacheTTL ce sdiv NegativeResponseTTLDivisor
          else calculateTTL (DefaultDNSCacheTTL ce) rrs)"

definition on_hit ::
    "('c, 'd) cache_env \<Rightarrow> nanos \<Rightarrow> string \<Rightarrow> string \<Rightarrow> u16 \<Rightarrow> ('c, 'd) world \<Rightarrow> ('c, 'd) world" where
  "on_hit ce now key domain qt w =
     (let w1 = (if MetricsOn ce then
                  w\<lparr>metrics := (if domain \<noteq> '''' then snd (InlineCacheHitWithDomain domain (metrics w))
                                else InlineCacheHit (metrics w))\<rparr>
                else w)
      in if EnableStaleUpdater (env_cfg (ce_res ce))
         then w1\<lparr>accessTracker := TrackAccess now key domain qt (accessTracker w1)\<rparr> else w1)"

definition ResolverWithCache ::
    "('c, 'd) cache_env \<Rightarrow> arp_world \<Rightarrow> call_times \<Rightarrow> string \<Rightarrow> u16 \<Rightarrow> string \<Rightarrow> ('c, 'd) world \<Rightarrow>
     (client_panic + RR list option) \<times> ('c, 'd) world" where
  "ResolverWithCache ce aw tm domain qt clientIP w =
     (let key = CacheKey (env_fqdn (ce_res ce)) domain qt
      in case LoadFromCache ce (t_get tm) key (DnsCache w) of
        Some answers \<Rightarrow> (Inr answers, on_hit ce (t_get tm) key domain qt w)
      | None \<Rightarrow>
          (case resolve_query ce (aw, t_resolve tm) domain qt clientIP w of
             (Inl p, w1) \<Rightarrow> (Inl p, w1)
           | (Inr answers, w1) \<Rightarrow>
               let w2 = w1\<lparr>DnsCache := gc_set (ce_dns ce) (DnsCache w1) (t_set tm) key answers
                             (answer_ttl ce answers)\<rparr>
               in (Inr answers,
                   if MetricsOn ce then w2\<lparr>metrics := FastRecordCacheMiss (metrics w2)\<rparr> else w2)))"

text \<open>The statistics logger of \<open>stats.go\<close>: its ticker, and one tick.\<close>

definition StartCacheStatsLogger :: "Config \<Rightarrow> ticker_panic + duration" where
  "StartCacheStatsLogger c = NewTicker (DNSStatslog c)"

definition stats_tick :: "('c, 'd) cache_env \<Rightarrow> nanos \<Rightarrow> ('c, 'd) world \<Rightarrow> ('c, 'd) world" where
  "stats_tick ce now w =
     (let itemCount = length (gc_items (ce_dns ce) (DnsCache w) now)
      in if itemCount = 0 then w
         else if MetricsOn ce
         then w\<lparr>metrics := FastUpdateCacheSize (int itemCount) (metrics w)\<rparr> else w)"

section \<open>Reference definitions\<close>

lemma less_Suc_all: "(\<forall>j < Suc k. P j) \<longleftrightarrow> P 0 \<and> (\<forall>j < k. P (Suc j))"
  by (metis less_Suc_eq_0_disj)

lemma bytesEqual_from_eq:
  "bytesEqual_from a b i k \<longleftrightarrow> (\<forall>j < k. a ! (i + j) = b ! (i + j))"
  by (induction k arbitrary: i) (simp_all add: less_Suc_all)

lemma bytesEqual_iff: "bytesEqual a b \<longleftrightarrow> a = b"
  by (auto simp: bytesEqual_def bytesEqual_from_eq intro: nth_equalityI)


lemma invalid_addresses: "initInvalidAnswers = ([0, 0, 0, 0], replicate 16 0)"
  by code_simp

definition blocked :: "RR \<Rightarrow> bool" where
  "blocked rr \<longleftrightarrow>
     Rrtype rr = TypeA \<and> rr_data rr = A_record [0, 0, 0, 0] \<or>
     Rrtype rr = TypeAAAA \<and> rr_data rr = AAAA_record (replicate 16 0)"

lemma invalid_answer_iff: "invalid_answer initInvalidAnswers rr \<longleftrightarrow> blocked rr"
  by (cases "rr_data rr")
    (auto simp: invalid_answer_def blocked_def invalid_addresses bytesEqual_iff TypeA_def TypeAAAA_def)

definition keep_default :: "RR \<Rightarrow> bool" where
  "keep_default rr \<longleftrightarrow> Ttl rr = 0 \<or> blocked rr"

lemma ttl_loop_eq:
  "ttl_loop initInvalidAnswers m rrs =
     (if \<exists>rr \<in> set rrs. keep_default rr then None else Some (foldl min m (map Ttl rrs)))"
proof (induction rrs arbitrary: m)
  case (Cons rr rrs)
  have "(if Ttl rr < m then Ttl rr else m) = min m (Ttl rr)"
    by (auto simp: min_def not_le not_less intro: order.antisym)
  with Cons show ?case
    by (simp add: keep_default_def invalid_answer_iff Let_def)
qed simp

lemma foldl_min_Min: "foldl min (m :: u32) xs = Min (insert m (set xs))"
proof (induction xs arbitrary: m)
  case (Cons x xs)
  have "Min (insert m (insert x (set xs))) = Min (insert (min m x) (set xs))"
    by (cases "xs = []") (simp_all add: ac_simps)
  with Cons show ?case by simp
qed simp

lemma foldl_min_Max: "xs \<noteq> [] \<Longrightarrow> foldl min MinTTL xs = Min (set xs)"
proof -
  assume "xs \<noteq> []"
  then have "Min (insert MinTTL (set xs)) = min MinTTL (Min (set xs))" by simp
  also have "\<dots> = Min (set xs)"
    by (simp add: MinTTL_def min_absorb2)
  finally show ?thesis by (simp add: foldl_min_Min)
qed

lemma seconds_no_overflow:
  "sint (word_of_int (uint (m :: u32)) * word_of_int second :: i64) = uint m * second"
proof -
  have "uint m < 2 ^ 32" "0 \<le> uint m"
    using uint_lt2p [of m] by simp_all
  then have "0 \<le> uint m * second" "uint m * second < 2 ^ 63"
    by (simp_all add: second_def)
  then have "signed_take_bit 63 (uint m * second) = uint m * second"
    by (simp add: signed_take_bit_int_eq_self)
  then show ?thesis
    by (simp only: wi_hom_mult sint_sbintrunc') simp
qed

lemma calculateTTL_eq:
  "calculateTTL dflt rrs =
     (if rrs = [] \<or> (\<exists>rr \<in> set rrs. Ttl rr = 0 \<or> blocked rr) then dflt
      else max MinCacheTTL (min MaxCacheTTL (uint (Min (Ttl ` set rrs)) * second)))"
proof (cases "rrs = []")
  case False
  then have m: "foldl min MinTTL (map Ttl rrs) = Min (Ttl ` set rrs)"
    using foldl_min_Max [of "map Ttl rrs"] by simp
  have clamp: "(if d < MinCacheTTL then MinCacheTTL else if MaxCacheTTL < d then MaxCacheTTL else d) =
      max MinCacheTTL (min MaxCacheTTL d)" for d
    by (auto simp: config_consts unit_defs)
  show ?thesis
    using False
    by (simp add: calculateTTL_def ttl_loop_eq keep_default_def m
        seconds_no_overflow [simplified] Let_def clamp)
qed (simp add: calculateTTL_def)

text \<open>
  C18: the lifetime of an answer equals its specification: the default when the answer is
  empty, has a record with time to live 0 or a blocking address (\<open>0.0.0.0\<close> or \<open>::\<close> in a
  record of the matching type), wherever it stands; otherwise the smallest time to live in
  seconds, kept between 30 seconds and 24 hours. The conversion to nanoseconds never
  overflows.
\<close>

theorem calculateTTL_spec:
  "calculateTTL dflt rrs =
     (if rrs = [] \<or> (\<exists>rr \<in> set rrs. Ttl rr = 0 \<or> blocked rr) then dflt
      else max MinCacheTTL (min MaxCacheTTL (uint (Min (Ttl ` set rrs)) * second)))"
  by (rule calculateTTL_eq)

section \<open>Keys separate domains and types\<close>

lemma nat_dec_no_colon: "CHR '':'' \<notin> set (nat_dec n)"
  using nat_dec_digits [of "CHR '':''" n] by (auto simp: is_digit_def byte_def)

lemma sep_append_eq:
  "c \<notin> set xs \<Longrightarrow> c \<notin> set xs' \<Longrightarrow> xs @ c # ys = xs' @ c # ys' \<Longrightarrow> xs = xs' \<and> ys = ys'"
proof (induction xs arbitrary: xs')
  case Nil
  then show ?case by (cases xs') auto
next
  case (Cons x xs)
  then show ?case by (cases xs') auto
qed

lemma append_sep_eq:
  assumes "c \<notin> set ys" "c \<notin> set ys'" "xs @ c # ys = xs' @ c # ys'"
  shows "xs = xs' \<and> ys = ys'"
proof -
  have "rev ys @ c # rev xs = rev ys' @ c # rev xs'"
    using arg_cong [OF assms(3), of rev] by simp
  then have "rev ys = rev ys' \<and> rev xs = rev xs'"
    using assms(1,2) by (intro sep_append_eq) simp_all
  then show ?thesis by simp
qed

text \<open>
  C33: the key of a query determines its domain in absolute form and its type, whatever the
  bytes of the domain (a colon included), so two different questions never share an entry; the
  precomputed suffixes agree with the general case.
\<close>

theorem CacheKey_injective:
  "CacheKey fqdn d qt = fqdn d @ '':'' @ nat_dec (unat qt) \<and>
   (CacheKey fqdn d qt = CacheKey fqdn d' qt' \<longleftrightarrow> fqdn d = fqdn d' \<and> qt = qt')"
  using append_sep_eq [OF nat_dec_no_colon nat_dec_no_colon, of "fqdn d" "unat qt" "fqdn d'" "unat qt'"]
  by (auto simp: CacheKey_uniform unsigned_word_eqI)


section \<open>The life of an entry\<close>

lemma calculateTTL_bounds:
  assumes "MinCacheTTL \<le> dflt" and "dflt \<le> MaxCacheTTL"
  shows "MinCacheTTL \<le> calculateTTL dflt rrs \<and> calculateTTL dflt rrs \<le> MaxCacheTTL"
proof -
  have "calculateTTL dflt rrs = dflt \<or>
      (\<exists>t. calculateTTL dflt rrs = max MinCacheTTL (min MaxCacheTTL t))"
    by (auto simp: calculateTTL_eq)
  moreover have "MinCacheTTL \<le> MaxCacheTTL"
    by (simp add: config_consts unit_defs)
  ultimately show ?thesis
    using assms by auto
qed

lemma negative_ttl:
  "0 \<le> DefaultDNSCacheTTL ce \<Longrightarrow>
     DefaultDNSCacheTTL ce sdiv NegativeResponseTTLDivisor = DefaultDNSCacheTTL ce div 4"
  by (simp add: signed_divide_int_def config_consts sgn_if)

lemma answer_ttl_range:
  assumes "valid_config c" and "DefaultDNSCacheTTL ce = CacheTTL c"
  shows "answer_ttl ce a \<le> 24 * hour \<and>
    (if a = None \<or> a = Some [] then answer_ttl ce a = CacheTTL c div 4 \<and> 7500 * millisecond \<le> answer_ttl ce a
     else 30 * second \<le> answer_ttl ce a)"
proof -
  have d: "MinCacheTTL \<le> CacheTTL c" "CacheTTL c \<le> MaxCacheTTL"
    using assms(1) by (simp_all add: valid_config_def)
  then have "0 \<le> DefaultDNSCacheTTL ce"
    using assms(2) by (simp add: config_consts unit_defs)
  note neg = negative_ttl [OF this]
  have c: "MinCacheTTL \<le> calculateTTL (CacheTTL c) rrs" "calculateTTL (CacheTTL c) rrs \<le> MaxCacheTTL" for rrs
    using calculateTTL_bounds [OF d, of rrs] by simp_all
  consider "a = None \<or> a = Some []" | rrs where "a = Some rrs" "rrs \<noteq> []"
    by (cases a) auto
  then show ?thesis
  proof cases
    case 1
    then have "answer_ttl ce a = CacheTTL c div 4"
      using neg assms(2) by (auto simp: answer_ttl_def)
    with 1 d show ?thesis
      by (auto simp: config_consts unit_defs)
  next
    case 2
    then have "answer_ttl ce a = calculateTTL (CacheTTL c) rrs"
      using assms(2) by (simp add: answer_ttl_def)
    with 2 c [of rrs] show ?thesis
      by (simp add: config_consts)
  qed
qed

lemma answer_ttl_pos: "valid_config c \<Longrightarrow> DefaultDNSCacheTTL ce = CacheTTL c \<Longrightarrow> 0 < answer_ttl ce a"
  using answer_ttl_range [of c ce a] by (auto simp: unit_defs split: if_splits)

text \<open>
  C31: with any configuration that passes validation, no answer is kept longer than 24 hours, an
  answer with records is kept at least 30 seconds, and an empty or missing one a quarter of
  the configured time, at least 7.5 seconds; so every lifetime is positive and no entry is
  ever stored as permanent.
\<close>

theorem answer_ttl_bounds:
  assumes "valid_config c" and "DefaultDNSCacheTTL ce = CacheTTL c"
  shows "answer_ttl ce a \<le> 24 * hour \<and>
    (if a = None \<or> a = Some [] then answer_ttl ce a = CacheTTL c div 4 \<and> 7500 * millisecond \<le> answer_ttl ce a
     else 30 * second \<le> answer_ttl ce a)"
  using assms by (rule answer_ttl_range)

text \<open>
  A home network: \<open>10.0.0.7\<close> is a public-only client, the private server answers with a local
  address and the public one with a public address.
\<close>

definition home_config :: Config where
  "home_config = (pure_config (\<lambda>_. ''''))\<lparr>EnableClientRouting := True,
     PublicOnlyClients := [''10.0.0.7''], PrivateServers := [''10.0.0.1:53'']\<rparr>"

definition lan_rr :: RR where
  "lan_rr = \<lparr>rr_name = ''nas.home.'', Rrtype = 1, Ttl = 300, rr_data = A_record [10, 0, 0, 5]\<rparr>"

definition wan_rr :: RR where
  "wan_rr = \<lparr>rr_name = ''nas.home.'', Rrtype = 1, Ttl = 300, rr_data = A_record [203, 0, 113, 5]\<rparr>"

definition home_net :: "RR net" where
  "home_net n m svr =
     \<lparr>response = Some (Some [if svr = ''10.0.0.1:53'' then lan_rr else wan_rr]), rtt = 1, failed = False\<rparr>"

definition home_env :: "((string \<times> RR list option \<times> nanos) list, (string \<times> string \<times> nanos) list) cache_env" where
  "home_env = \<lparr>ce_res = \<lparr>env_cfg = home_config, env_gocache = alist_cache, env_net = home_net,
       env_fqdn = (\<lambda>d. d)\<rparr>,
     ce_dns = alist_cache, DefaultDNSCacheTTL = 30 * minute, MetricsOn = False, DomainRoutingOn = False\<rparr>"

lemma home_valid: "valid_config home_config" "CacheTTL home_config = 30 * minute"
  by (simp_all add: home_config_def valid_config_def pure_config_def unset_env unit_defs
      config_consts)

lemma answer_ttl_bounds_witness:
  "answer_ttl home_env (Some [lan_rr]) \<le> 24 * hour \<and> 30 * second \<le> answer_ttl home_env (Some [lan_rr])"
  using answer_ttl_bounds [OF home_valid(1), of home_env "Some [lan_rr]"] home_valid(2)
  by (simp add: home_env_def)

text \<open>Every entry stays readable for its lifetime: what a lookup sees after a miss.\<close>

definition lives :: "('c, 'd) cache_env \<Rightarrow> string \<Rightarrow> RR list option \<Rightarrow> nanos \<Rightarrow> 'c \<Rightarrow> bool" where
  "lives ce key a e c \<longleftrightarrow> (\<forall>t. LoadFromCache ce t key c = (if t \<le> e then Some a else None))"

type_synonym call = "arp_world \<times> call_times \<times> string \<times> u16 \<times> string"

definition serve_call :: "('c, 'd) cache_env \<Rightarrow> call \<Rightarrow> ('c, 'd) world \<Rightarrow> ('c, 'd) world" where
  "serve_call ce cl w = (case cl of (aw, tm, domain, qt, ip) \<Rightarrow> snd (ResolverWithCache ce aw tm domain qt ip w))"

definition call_time :: "call \<Rightarrow> nanos" where
  "call_time cl = t_get (fst (snd cl))"

lemma on_hit_same [simp]:
  "DnsCache (on_hit ce now key d qt w) = DnsCache w"
  "sources (on_hit ce now key d qt w) = sources w"
  "resolver (on_hit ce now key d qt w) = resolver w"
  "routing (on_hit ce now key d qt w) = routing w"
  by (simp_all add: on_hit_def Let_def)

lemma resolve_query_same:
  "resolve_query ce t d qt ip w = (r, w1) \<Longrightarrow> DnsCache w1 = DnsCache w \<and> routing w1 = routing w \<and>
     accessTracker w1 = accessTracker w"
  by (auto simp: resolve_query_def split: prod.splits)

text \<open>The resolver does not touch the counters of queries, hits and misses.\<close>

lemma record_call_counts [simp]:
  "dnsQueriesCount (record_call x f) = dnsQueriesCount f" "cacheHitsCount (record_call x f) = cacheHitsCount f"
  "cacheMissesCount (record_call x f) = cacheMissesCount f"
  by (cases x; simp add: FastRecordError_def FastSetUpstreamServersTotal_def FastSetUpstreamServerReachable_def
      FastRecordUpstreamQuery_def try_send_def)+

lemma record_calls_counts [simp]:
  "dnsQueriesCount (record_calls rs rs' f) = dnsQueriesCount f" "cacheHitsCount (record_calls rs rs' f) = cacheHitsCount f"
  "cacheMissesCount (record_calls rs rs' f) = cacheMissesCount f"
proof -
  have "dnsQueriesCount (fold record_call xs f) = dnsQueriesCount f \<and> cacheHitsCount (fold record_call xs f) = cacheHitsCount f \<and>
      cacheMissesCount (fold record_call xs f) = cacheMissesCount f" for xs
    by (induction xs arbitrary: f) simp_all
  then show "dnsQueriesCount (record_calls rs rs' f) = dnsQueriesCount f" "cacheHitsCount (record_calls rs rs' f) = cacheHitsCount f"
    "cacheMissesCount (record_calls rs rs' f) = cacheMissesCount f"
    by (simp_all add: record_calls_def)
qed

lemma resolve_query_counts:
  "resolve_query ce t d qt ip w = (r, w1) \<Longrightarrow> dnsQueriesCount (metrics w1) = dnsQueriesCount (metrics w) \<and>
     cacheHitsCount (metrics w1) = cacheHitsCount (metrics w) \<and> cacheMissesCount (metrics w1) = cacheMissesCount (metrics w)"
  by (auto simp: resolve_query_def split: prod.splits)

text \<open>What one call does to the cache.\<close>

lemma ResolverWithCache_cache:
  "DnsCache (snd (ResolverWithCache ce aw tm d qt ip w)) =
     (let key = CacheKey (env_fqdn (ce_res ce)) d qt
      in if LoadFromCache ce (t_get tm) key (DnsCache w) \<noteq> None then DnsCache w
         else case fst (resolve_query ce (aw, t_resolve tm) d qt ip w) of
           Inl p \<Rightarrow> DnsCache w
         | Inr a \<Rightarrow> gc_set (ce_dns ce) (DnsCache w) (t_set tm) key a (answer_ttl ce a))"
  by (auto simp: ResolverWithCache_def Let_def split: option.splits prod.splits sum.splits
      dest: resolve_query_same)

lemma LoadFromCache_set:
  assumes "gocache_laws (ce_dns ce)" and "0 < d"
  shows "LoadFromCache ce t k (gc_set (ce_dns ce) c now k' a d) =
    (if k = k' then (if t \<le> now + d then Some a else None) else LoadFromCache ce t k c)"
  using gc_get_set [OF assms] by (simp add: LoadFromCache_def)


text \<open>The cache of a server that has started with a valid configuration.\<close>

definition cache_ok :: "('c, 'd) cache_env \<Rightarrow> bool" where
  "cache_ok ce \<longleftrightarrow> gocache_laws (ce_dns ce) \<and> valid_config (env_cfg (ce_res ce)) \<and>
     DefaultDNSCacheTTL ce = CacheTTL (env_cfg (ce_res ce))"

lemma cache_load_set:
  "cache_ok ce \<Longrightarrow> LoadFromCache ce t k (gc_set (ce_dns ce) m now k' a (answer_ttl ce a)) =
    (if k = k' then (if t \<le> now + answer_ttl ce a then Some a else None) else LoadFromCache ce t k m)"
  by (auto simp: cache_ok_def LoadFromCache_set answer_ttl_pos)

lemma miss_lives:
  assumes ok: "cache_ok ce" and "ResolverWithCache ce aw tm d qt ip w = (Inr a, w1)"
    and "LoadFromCache ce (t_get tm) (CacheKey (env_fqdn (ce_res ce)) d qt) (DnsCache w) = None"
  shows "lives ce (CacheKey (env_fqdn (ce_res ce)) d qt) a (t_set tm + answer_ttl ce a) (DnsCache w1)"
proof -
  have "fst (resolve_query ce (aw, t_resolve tm) d qt ip w) = Inr a"
    using assms by (auto simp: ResolverWithCache_def Let_def split: prod.splits sum.splits)
  then have "DnsCache w1 = gc_set (ce_dns ce) (DnsCache w) (t_set tm) (CacheKey (env_fqdn (ce_res ce)) d qt) a
      (answer_ttl ce a)"
    using ResolverWithCache_cache [of ce aw tm d qt ip w] assms by simp
  then show ?thesis
    by (simp add: lives_def cache_load_set [OF ok])
qed

lemma call_keeps:
  assumes ok: "cache_ok ce" and "lives ce key a e (DnsCache w)" and "call_time cl \<le> e"
  shows "lives ce key a e (DnsCache (serve_call ce cl w))"
proof -
  obtain aw tm d qt ip where cl: "cl = (aw, tm, d, qt, ip)" by (cases cl) auto
  let ?k = "CacheKey (env_fqdn (ce_res ce)) d qt"
  have "?k = key \<Longrightarrow> LoadFromCache ce (t_get tm) ?k (DnsCache w) = Some a"
    using assms cl by (simp add: lives_def call_time_def)
  then show ?thesis
    using assms(2) ResolverWithCache_cache [of ce aw tm d qt ip w]
    by (auto simp: serve_call_def cl Let_def lives_def cache_load_set [OF ok] split: sum.splits if_splits)
qed

lemma calls_keep:
  "cache_ok ce \<Longrightarrow> lives ce key a e (DnsCache w) \<Longrightarrow> \<forall>cl \<in> set cls. call_time cl \<le> e \<Longrightarrow>
     lives ce key a e (DnsCache (fold (serve_call ce) cls w))"
  by (induction cls arbitrary: w) (simp_all add: call_keeps)

lemma hit_or_expired:
  assumes "lives ce (CacheKey (env_fqdn (ce_res ce)) d qt) a e (DnsCache w)"
  shows "t_get tm \<le> e \<Longrightarrow> ResolverWithCache ce aw tm d qt ip w =
      (Inr a, on_hit ce (t_get tm) (CacheKey (env_fqdn (ce_res ce)) d qt) d qt w)"
    and "e < t_get tm \<Longrightarrow> LoadFromCache ce (t_get tm) (CacheKey (env_fqdn (ce_res ce)) d qt) (DnsCache w) = None"
  using assms by (simp_all add: ResolverWithCache_def lives_def Let_def)

text \<open>
  C3: an answer is resolved once per lifetime. After a miss, and any further calls by any clients
  within the lifetime of its entry, a call for the same question in any spelling of the
  domain with the same absolute form gets the same answer, whatever the client and its routing,
  and neither the upstream servers nor the routing state nor the cache are touched; a call after
  the lifetime resolves again. So an answer obtained for one client is served to all.
\<close>

theorem cached_until_expiry:
  assumes ok: "cache_ok ce"
    and miss: "LoadFromCache ce (t_get tm) (CacheKey (env_fqdn (ce_res ce)) d qt) (DnsCache w) = None"
    and first: "ResolverWithCache ce aw tm d qt ip w = (Inr a, w1)"
    and within: "\<forall>cl \<in> set cls. call_time cl \<le> t_set tm + answer_ttl ce a"
    and same: "env_fqdn (ce_res ce) d' = env_fqdn (ce_res ce) d"
  defines "w2 \<equiv> fold (serve_call ce) cls w1"
  shows "(t_get tm' \<le> t_set tm + answer_ttl ce a \<longrightarrow>
      (\<exists>w3. ResolverWithCache ce aw' tm' d' qt ip' w2 = (Inr a, w3) \<and>
        sources w3 = sources w2 \<and> resolver w3 = resolver w2 \<and> DnsCache w3 = DnsCache w2)) \<and>
    (t_set tm + answer_ttl ce a < t_get tm' \<longrightarrow>
      fst (ResolverWithCache ce aw' tm' d' qt ip' w2) =
        fst (resolve_query ce (aw', t_resolve tm') d' qt ip' w2))"
proof -
  let ?k = "CacheKey (env_fqdn (ce_res ce))"
  have k: "?k d' qt = ?k d qt"
    using same by (simp add: CacheKey_uniform)
  have "lives ce (?k d' qt) a (t_set tm + answer_ttl ce a) (DnsCache w2)"
    unfolding w2_def k using calls_keep [OF ok miss_lives [OF ok first miss] within] .
  note l = hit_or_expired [OF this, of tm']
  show ?thesis
    using l by (auto simp: ResolverWithCache_def Let_def split: prod.splits sum.splits)
qed

lemma home_facts:
  "PublicServers home_config = [''1.1.1.1:53'']" "PrivateServers home_config = [''10.0.0.1:53'']"
  "EnableClientRouting home_config" "EnableStaleUpdater home_config"
  "public_only home_config ip mac \<longleftrightarrow> ip = ''10.0.0.7''"
proof -
  have "trim_space ''10.0.0.7'' = ''10.0.0.7''"
    by (rule trim_space_plain_edges) (simp_all add: plain_byte_ascii byte_def)
  then show "public_only home_config ip mac \<longleftrightarrow> ip = ''10.0.0.7''"
    by (auto simp: home_config_def public_only_def pure_config_def unset_env GetEnvStringSlice_eq)
qed (simp_all add: home_config_def pure_config_def unset_env GetEnvStringSlice_eq config_consts)

definition home_start :: "((string \<times> RR list option \<times> nanos) list, (string \<times> string \<times> nanos) list) world" where
  "home_start = \<lparr>DnsCache = [], accessTracker = [], metrics = small_recorder,
     sources = (InitDNSSource home_config source_init,
       InitializeClientRouting alist_cache home_config client_init),
     resolver = quiet_resolver, routing = routing_init\<rparr>"

definition at_time :: "nanos \<Rightarrow> call_times" where
  "at_time t = \<lparr>t_get = t, t_resolve = t, t_set = t\<rparr>"

lemma home_resolve:
  "fst (resolve_query home_env t ''nas.home.'' 1 ip home_start) =
     Inr (Some [if ip = ''10.0.0.7'' then wan_rr else lan_rr])"
proof -
  let ?e = "ce_res home_env" and ?src = "sources home_start"
  have e: "env_cfg ?e = home_config" "env_net ?e = home_net" "env_fqdn ?e = (\<lambda>d. d)"
    "\<not> DomainRoutingOn home_env"
    by (simp_all add: home_env_def)
  have "source_ok (env_cfg ?e) ?src"
    using client_inv_init [of home_config] source_inv_init [of home_config]
    by (simp add: home_env_def home_start_def source_ok_def home_facts)
  then obtain privs pubs src' where
    sv: "servers_for (fst ?src) (EnableClientRouting (env_cfg ?e) \<and>
       public_only (env_cfg ?e) ip (mac_seen (env_gocache ?e) (fst t) (snd t) ip (snd ?src))) = (privs, pubs)"
    and res: "ResolverForClient ?e t ''nas.home.'' 1 ip ?src quiet_resolver =
       (let u = upstreamDNSQuery (env_cfg ?e) (env_net ?e) privs pubs
                  (prepareDNSQuery (env_fqdn ?e) ''nas.home.'' 1) quiet_resolver
        in (Inr (fst u), src', snd u))"
    by (rule ResolverForClient_eq)
  from sv have "privs = []" "pubs = (if ip = ''10.0.0.7'' then [] else [''10.0.0.1:53'']) @ [''1.1.1.1:53'']"
    by (auto simp: e servers_for_def home_start_def InitDNSSource_def home_facts split: if_splits)
  with res show ?thesis
    by (simp add: e resolve_query_def home_start_def upstream_try try_servers_Cons
        home_net_def attempt_answer_def Let_def del: try_servers.simps(2))
qed

text \<open>
  At home: the public-only client is answered by the public server when it asks first, and gets
  the private server's answer when the other client asked before it.
\<close>

theorem cached_until_expiry_witness:
  "fst (ResolverWithCache home_env phone_world (at_time 0) ''nas.home.'' 1 ''10.0.0.7'' home_start) =
     Inr (Some [wan_rr]) \<and>
   fst (ResolverWithCache home_env phone_world (at_time second) ''nas.home.'' 1 ''10.0.0.7''
     (snd (ResolverWithCache home_env phone_world (at_time 0) ''nas.home.'' 1 ''10.0.0.9'' home_start))) =
     Inr (Some [lan_rr])"
proof -
  have ok: "cache_ok home_env"
    using home_valid by (simp add: cache_ok_def home_env_def alist_cache_laws)
  have miss: "LoadFromCache home_env (t_get (at_time 0)) (CacheKey (env_fqdn (ce_res home_env)) ''nas.home.'' 1)
      (DnsCache home_start) = None"
    by (simp add: LoadFromCache_def home_env_def home_start_def alist_cache_def alive_def)
  have first: "fst (ResolverWithCache home_env phone_world (at_time 0) ''nas.home.'' 1 ip home_start) =
      Inr (Some [if ip = ''10.0.0.7'' then wan_rr else lan_rr])" for ip
    using miss home_resolve [of "(phone_world, 0)" ip]
    by (auto simp: ResolverWithCache_def Let_def at_time_def split: prod.splits sum.splits)
  then obtain w1 where w1: "ResolverWithCache home_env phone_world (at_time 0) ''nas.home.'' 1 ''10.0.0.9'' home_start =
      (Inr (Some [lan_rr]), w1)"
    by (cases "ResolverWithCache home_env phone_world (at_time 0) ''nas.home.'' 1 ''10.0.0.9'' home_start")
      (use first [of "''10.0.0.9''"] in auto)
  have "second \<le> 0 + answer_ttl home_env (Some [lan_rr])"
    using answer_ttl_range [OF home_valid(1), of home_env "Some [lan_rr]"] home_valid(2)
    by (simp add: home_env_def unit_defs)
  then show ?thesis
    using cached_until_expiry [OF ok miss w1, of "[]" "''nas.home.''" "at_time second" phone_world "''10.0.0.7''"]
      first [of "''10.0.0.7''"] w1
    by (auto simp: at_time_def)
qed

end
