(* ===== verification/StaleUpdater.thy ===== *)
theory StaleUpdater
  imports Cache
begin

text \<open>
  The stale updater, \<open>cache/stale_updater.go\<close>: at each tick the keys that are asked often are
  scanned, and an entry that is about to expire is resolved again by a goroutine that holds one
  of \<open>StaleUpdateMaxConcurrent\<close> slots of a semaphore. The ticker, the goroutines and the
  clients' calls interleave; \<open>updater_step\<close> has a step for each of them. An update is two
  steps, the resolution and the write to the cache, between which anything may happen.

  A panic in a resolution ends the process; no reachable state of the server has one (theory
  \<open>DnsResolver\<close>), so the relation has no step for it.
\<close>

section \<open>One entry\<close>

text \<open>The first half: the question of the tracked key, or \<open>None\<close> when it is not tracked.\<close>

definition refresh_resolve ::
    "('c, 'd) cache_env \<Rightarrow> arp_world \<times> nanos \<Rightarrow> string \<Rightarrow> ('c, 'd) world \<Rightarrow>
     (client_panic + (u16 \<times> RR list option) option) \<times> ('c, 'd) world" where
  "refresh_resolve ce t key w =
     (case GetAccessInfo key (accessTracker w) of
        None \<Rightarrow> (Inr None, w)
      | Some ai \<Rightarrow>
          (case resolve_query ce t (Domain ai) (QueryType ai) ''127.0.0.1'' w of
             (Inl p, w1) \<Rightarrow> (Inl p, w1)
           | (Inr answers, w1) \<Rightarrow> (Inr (Some (QueryType ai, answers)), w1)))"

text \<open>The second half; \<open>type_name\<close> is the table \<open>dns.TypeToString\<close>.\<close>

definition refresh_store ::
    "(u16 \<Rightarrow> string) \<Rightarrow> ('c, 'd) cache_env \<Rightarrow> nanos \<Rightarrow> string \<Rightarrow> u16 \<Rightarrow> RR list option \<Rightarrow>
     ('c, 'd) world \<Rightarrow> ('c, 'd) world" where
  "refresh_store type_name ce now key qt answers w =
     (let none = (case answers of None \<Rightarrow> True | Some rrs \<Rightarrow> length rrs = 0);
          w1 = (if none
                then w\<lparr>DnsCache := gc_set (ce_dns ce) (DnsCache w) now key answers
                         (DefaultDNSCacheTTL ce sdiv NegativeResponseTTLDivisor)\<rparr>
                else let ttl = calculateTTL (DefaultDNSCacheTTL ce) (the answers)
                  in w\<lparr>DnsCache := gc_set (ce_dns ce) (DnsCache w) now key answers ttl\<rparr>)
      in if MetricsOn ce then
           w1\<lparr>metrics := FastRecordDNSQuery (type_name qt)
                (if none then ''stale_update_nxdomain'' else ''stale_update_success'') 0
                (FastRecordCacheHit (metrics w1))\<rparr>
         else w1)"

definition updateStaleEntry ::
    "(u16 \<Rightarrow> string) \<Rightarrow> ('c, 'd) cache_env \<Rightarrow> arp_world \<times> nanos \<Rightarrow> nanos \<Rightarrow> string \<Rightarrow>
     ('c, 'd) world \<Rightarrow> (client_panic + bool) \<times> ('c, 'd) world" where
  "updateStaleEntry type_name ce t now key w =
     (case refresh_resolve ce t key w of
        (Inl p, w1) \<Rightarrow> (Inl p, w1)
      | (Inr None, w1) \<Rightarrow> (Inr False, w1)
      | (Inr (Some (qt, answers)), w1) \<Rightarrow>
          (Inr True, refresh_store type_name ce now key qt answers w1))"

section \<open>Start and stop\<close>

text \<open>Whether the ticker runs afterwards.\<close>

definition StartStaleUpdater :: "Config \<Rightarrow> ticker_panic + bool" where
  "StartStaleUpdater c =
     (if \<not> EnableStaleUpdater c then Inr False
      else case NewTicker (StaleUpdateInterval c) of Inl p \<Rightarrow> Inl p | Inr _ \<Rightarrow> Inr True)"

definition StopStaleUpdater :: "bool \<Rightarrow> bool" where
  "StopStaleUpdater ticking = (if ticking then False else ticking)"

section \<open>The pass over the keys and its goroutines\<close>

datatype job =
  Started string
| Resolved string u16 "RR list option"

text \<open>
  The state: the server's, the keys the current pass has still to look at, the running
  goroutines, and, as history, the questions that were resolved, by key, with their answers. The
  two counters of a pass only feed a log line and are left out.
\<close>

record ('c, 'd) updater =
  su_world :: "('c, 'd) world"
  scanning :: "string list"
  jobs :: "job list"
  history :: "(string \<times> RR list option) list"

definition updateStaleEntries :: "('c, 'd) cache_env \<Rightarrow> nanos \<Rightarrow> ('c, 'd) updater \<Rightarrow> ('c, 'd) updater" where
  "updateStaleEntries ce now s =
     (let w = su_world s;
          tracked = CleanupExpiredEntries (map fst (gc_items (ce_dns ce) (DnsCache w) now)) (accessTracker w);
          frequentKeys = GetFrequentlyAccessed
            (word_of_int (StaleUpdateMinAccessCount (env_cfg (ce_res ce)))) tracked
      in s\<lparr>su_world := w\<lparr>accessTracker := tracked\<rparr>, scanning := frequentKeys\<rparr>)"

text \<open>An expiration of 0 or less is the zero time: the entry never expires.\<close>

definition scan_key :: "('c, 'd) cache_env \<Rightarrow> nanos \<Rightarrow> string \<Rightarrow> ('c, 'd) updater \<Rightarrow> ('c, 'd) updater" where
  "scan_key ce now key s =
     (let c = env_cfg (ce_res ce)
      in case gc_get_exp (ce_dns ce) (DnsCache (su_world s)) now key of
           None \<Rightarrow> s
         | Some (_, expiration) \<Rightarrow>
             if expiration \<le> 0 then s
             else let timeUntilExpiry = expiration - now
               in if timeUntilExpiry \<le> StaleUpdateThreshold c \<and> 0 < timeUntilExpiry
                  then (if int (length (jobs s)) < StaleUpdateMaxConcurrent c
                        then s\<lparr>jobs := jobs s @ [Started key]\<rparr> else s)
                  else s)"

definition drop_job :: "nat \<Rightarrow> job list \<Rightarrow> job list" where
  "drop_job i js = take i js @ drop (Suc i) js"

text \<open>The answers a call adds to the history: those of a miss.\<close>

definition call_history :: "('c, 'd) cache_env \<Rightarrow> call \<Rightarrow> ('c, 'd) world \<Rightarrow> (string \<times> RR list option) list" where
  "call_history ce cl w =
     (case cl of (aw, tm, domain, qt, ip) \<Rightarrow>
        let key = CacheKey (env_fqdn (ce_res ce)) domain qt
        in if LoadFromCache ce (t_get tm) key (DnsCache w) \<noteq> None then []
           else case fst (resolve_query ce (aw, t_resolve tm) domain qt ip w) of
             Inl p \<Rightarrow> [] | Inr a \<Rightarrow> [(key, a)])"

inductive updater_step ::
    "(u16 \<Rightarrow> string) \<Rightarrow> ('c, 'd) cache_env \<Rightarrow> ('c, 'd) updater \<Rightarrow> ('c, 'd) updater \<Rightarrow> bool"
  for type_name ce where
  tick: "scanning s = [] \<Longrightarrow> updater_step type_name ce s (updateStaleEntries ce now s)"
| scan: "scanning s = key # keys \<Longrightarrow>
    updater_step type_name ce s (scan_key ce now key (s\<lparr>scanning := keys\<rparr>))"
| untracked: "i < length (jobs s) \<Longrightarrow> jobs s ! i = Started key \<Longrightarrow>
    refresh_resolve ce t key (su_world s) = (Inr None, w) \<Longrightarrow>
    updater_step type_name ce s (s\<lparr>su_world := w, jobs := drop_job i (jobs s)\<rparr>)"
| resolved: "i < length (jobs s) \<Longrightarrow> jobs s ! i = Started key \<Longrightarrow>
    GetAccessInfo key (accessTracker (su_world s)) = Some ai \<Longrightarrow>
    refresh_resolve ce t key (su_world s) = (Inr (Some (qt, answers)), w) \<Longrightarrow>
    updater_step type_name ce s (s\<lparr>su_world := w, jobs := (jobs s)[i := Resolved key qt answers],
      history := history s @ [(CacheKey (env_fqdn (ce_res ce)) (Domain ai) (QueryType ai), answers)]\<rparr>)"
| stored: "i < length (jobs s) \<Longrightarrow> jobs s ! i = Resolved key qt answers \<Longrightarrow>
    updater_step type_name ce s
      (s\<lparr>su_world := refresh_store type_name ce now key qt answers (su_world s), jobs := drop_job i (jobs s)\<rparr>)"
| call: "updater_step type_name ce s
    (s\<lparr>su_world := serve_call ce cl (su_world s), history := history s @ call_history ce cl (su_world s)\<rparr>)"

definition updater_start :: "('c, 'd) world \<Rightarrow> ('c, 'd) updater" where
  "updater_start w = \<lparr>su_world = w, scanning = [], jobs = [], history = []\<rparr>"

section \<open>What a cache entry can contain\<close>

definition tracker_ok :: "(string \<Rightarrow> string) \<Rightarrow> tracker \<Rightarrow> bool" where
  "tracker_ok fqdn m \<longleftrightarrow> (\<forall>(k, ai) \<in> set m. k = CacheKey fqdn (Domain ai) (QueryType ai))"

lemma tracker_ok_update:
  "tracker_ok fqdn m \<Longrightarrow> k = CacheKey fqdn (Domain ai) (QueryType ai) \<Longrightarrow>
     tracker_ok fqdn (AList.update k ai m)"
  using set_alist_update [of k ai m] unfolding tracker_ok_def by blast

lemma tracker_ok_lookup:
  "tracker_ok fqdn m \<Longrightarrow> map_of m k = Some ai \<Longrightarrow> k = CacheKey fqdn (Domain ai) (QueryType ai)"
  by (auto simp: tracker_ok_def dest: map_of_SomeD)

lemma tracker_ok_track:
  "tracker_ok fqdn m \<Longrightarrow> tracker_ok fqdn (TrackAccess now (CacheKey fqdn d qt) d qt m)"
  by (auto simp: TrackAccess_def split: option.split dest: tracker_ok_lookup intro!: tracker_ok_update)

lemma tracker_ok_cleanup: "tracker_ok fqdn m \<Longrightarrow> tracker_ok fqdn (CleanupExpiredEntries ks m)"
  by (auto simp: tracker_ok_def CleanupExpiredEntries_def)

lemma tracker_ok_info:
  "tracker_ok fqdn m \<Longrightarrow> GetAccessInfo k m = Some ai \<Longrightarrow> k = CacheKey fqdn (Domain ai) (QueryType ai)"
  unfolding GetAccessInfo_def by (rule tracker_ok_lookup)

text \<open>
  Every answer in the cache \<open>m\<close> was resolved since the start, or was in the cache \<open>m0\<close> of the start, which
  may have been loaded from disk.
\<close>

definition from_history :: "('c, 'd) cache_env \<Rightarrow> 'c \<Rightarrow> 'c \<Rightarrow> (string \<times> RR list option) list \<Rightarrow> bool" where
  "from_history ce m0 m h \<longleftrightarrow>
     (\<forall>t k a. LoadFromCache ce t k m = Some a \<longrightarrow> (k, a) \<in> set h \<or> LoadFromCache ce t k m0 = Some a)"

lemma from_history_refl: "from_history ce m0 m0 h"
  by (simp add: from_history_def)

lemma from_history_set:
  "cache_ok ce \<Longrightarrow> from_history ce m0 m h \<Longrightarrow> (k, a) \<in> set h \<Longrightarrow>
     from_history ce m0 (gc_set (ce_dns ce) m now k a (answer_ttl ce a)) h"
  by (auto simp: from_history_def cache_load_set)

lemma from_history_append: "from_history ce m0 m h \<Longrightarrow> from_history ce m0 m (h @ h')"
  by (auto simp: from_history_def)

lemma refresh_store_cache:
  "DnsCache (refresh_store type_name ce now key qt a w) =
     gc_set (ce_dns ce) (DnsCache w) now key a (answer_ttl ce a)"
  by (auto simp: refresh_store_def answer_ttl_def Let_def split: option.splits)

lemma refresh_store_same [simp]:
  "accessTracker (refresh_store type_name ce now key qt a w) = accessTracker w"
  "routing (refresh_store type_name ce now key qt a w) = routing w"
  "sources (refresh_store type_name ce now key qt a w) = sources w"
  by (simp_all add: refresh_store_def Let_def)

lemma refresh_resolve_same:
  "refresh_resolve ce t key w = (r, w1) \<Longrightarrow> DnsCache w1 = DnsCache w \<and> accessTracker w1 = accessTracker w"
  by (auto simp: refresh_resolve_def dest: resolve_query_same split: option.splits prod.splits sum.splits)

lemma serve_tracker:
  "tracker_ok (env_fqdn (ce_res ce)) (accessTracker w) \<Longrightarrow>
     tracker_ok (env_fqdn (ce_res ce)) (accessTracker (serve_call ce cl w))"
  by (cases cl)
    (auto simp: serve_call_def ResolverWithCache_def on_hit_def Let_def tracker_ok_track
      split: option.splits prod.splits sum.splits dest: resolve_query_same)

lemma serve_history:
  assumes "cache_ok ce" and "from_history ce m0 (DnsCache w) h"
  shows "from_history ce m0 (DnsCache (serve_call ce cl w)) (h @ call_history ce cl w)"
proof -
  obtain aw tm d qt ip where cl: "cl = (aw, tm, d, qt, ip)" by (cases cl) auto
  show ?thesis
    using assms from_history_append [OF assms(2)] ResolverWithCache_cache [of ce aw tm d qt ip w]
    by (auto simp: serve_call_def call_history_def cl Let_def split: sum.splits
        intro!: from_history_set [OF assms(1)])
qed

lemma set_drop_job: "set (drop_job i js) \<subseteq> set js"
  by (auto simp: drop_job_def dest: in_set_takeD in_set_dropD)

definition updater_inv :: "('c, 'd) cache_env \<Rightarrow> 'c \<Rightarrow> ('c, 'd) updater \<Rightarrow> bool" where
  "updater_inv ce m0 s \<longleftrightarrow>
     tracker_ok (env_fqdn (ce_res ce)) (accessTracker (su_world s)) \<and>
     from_history ce m0 (DnsCache (su_world s)) (history s) \<and>
     (\<forall>k qt a. Resolved k qt a \<in> set (jobs s) \<longrightarrow> (k, a) \<in> set (history s)) \<and>
     length (jobs s) \<le> nat (StaleUpdateMaxConcurrent (env_cfg (ce_res ce)))"

lemma updater_inv_start:
  "tracker_ok (env_fqdn (ce_res ce)) (accessTracker w) \<Longrightarrow> updater_inv ce (DnsCache w) (updater_start w)"
  by (simp add: updater_inv_def updater_start_def from_history_refl)

lemma updater_inv_step:
  assumes "updater_step type_name ce s s'" and ok: "cache_ok ce" and "updater_inv ce m0 s"
  shows "updater_inv ce m0 s'"
  using assms(1,3)
proof (induction rule: updater_step.induct)
  case (tick s now)
  then show ?case
    by (auto simp: updater_inv_def updateStaleEntries_def Let_def tracker_ok_cleanup)
next
  case (scan s key keys now)
  then show ?case
    by (auto simp: updater_inv_def scan_key_def Let_def split: option.split)
next
  case (untracked i s key t w)
  then show ?case
    using set_drop_job [of i "jobs s"]
    by (auto simp: updater_inv_def drop_job_def dest!: refresh_resolve_same)
next
  case (resolved i s key ai t qt answers w)
  then have "key = CacheKey (env_fqdn (ce_res ce)) (Domain ai) (QueryType ai)"
    by (auto simp: updater_inv_def dest: tracker_ok_info)
  with resolved show ?case
    by (auto simp: updater_inv_def from_history_append dest!: refresh_resolve_same
        dest: set_update_cases)
next
  case (stored i s key qt answers now)
  then have "(key, answers) \<in> set (history s)"
    unfolding updater_inv_def by (metis nth_mem)
  with stored show ?case
    using set_drop_job [of i "jobs s"]
    by (auto simp: updater_inv_def refresh_store_cache from_history_set [OF ok] drop_job_def)
next
  case (call s cl)
  then show ?case
    by (auto simp: updater_inv_def serve_tracker serve_history [OF ok])
qed

section \<open>Properties\<close>

text \<open>
  C12: in every state the running server can reach, in any interleaving of clients' calls, ticks and
  refreshing goroutines, at most the configured number of goroutines runs, and whatever the
  cache returns under a key was resolved since the start as an answer to the question of that key,
  or the cache of the start, which may have been loaded from disk, would have returned it: no
  refresh or call ever stores an answer under the key of another question. A tracker that was
  loaded with the cache has to name under each key the question of this key, as every tracker does
  that the program has saved.
\<close>

theorem updater_reachable_safe:
  assumes "cache_ok ce" and "(updater_step type_name ce)\<^sup>*\<^sup>* (updater_start w) s"
    and "tracker_ok (env_fqdn (ce_res ce)) (accessTracker w)"
  shows "length (jobs s) \<le> nat (StaleUpdateMaxConcurrent (env_cfg (ce_res ce))) \<and>
    (\<forall>t k a. LoadFromCache ce t k (DnsCache (su_world s)) = Some a \<longrightarrow>
       (k, a) \<in> set (history s) \<or> LoadFromCache ce t k (DnsCache w) = Some a)"
proof -
  have "updater_inv ce (DnsCache w) s"
    using assms(2)
    by (induction rule: rtranclp_induct) (auto intro: updater_inv_step updater_inv_start assms(1,3))
  then show ?thesis
    by (simp add: updater_inv_def from_history_def)
qed

lemma home_cache_ok: "cache_ok home_env"
  using home_valid by (simp add: cache_ok_def home_env_def alist_cache_laws)

definition after_call :: "('c, 'd) cache_env \<Rightarrow> call \<Rightarrow> ('c, 'd) updater \<Rightarrow> ('c, 'd) updater" where
  "after_call ce cl s = s\<lparr>su_world := serve_call ce cl (su_world s),
     history := history s @ call_history ce cl (su_world s)\<rparr>"

lemma one_call: "(updater_step type_name ce)\<^sup>*\<^sup>* s (after_call ce cl s)"
  unfolding after_call_def by (rule r_into_rtranclp) (rule updater_step.call)

lemma updater_reachable_safe_witness:
  "\<exists>s. (updater_step (\<lambda>_. ''A'') home_env)\<^sup>*\<^sup>* (updater_start home_start) s \<and>
     history s = [(''nas.home.:1'', Some [wan_rr])] \<and>
     (\<forall>t k a. LoadFromCache home_env t k (DnsCache (su_world s)) = Some a \<longrightarrow>
        (k, a) \<in> set (history s) \<or> LoadFromCache home_env t k (DnsCache home_start) = Some a)"
proof -
  define cl :: call where "cl = (phone_world, at_time 0, ''nas.home.'', 1, ''10.0.0.7'')"
  define s where "s = after_call home_env cl (updater_start home_start)"
  have run: "(updater_step (\<lambda>_. ''A'') home_env)\<^sup>*\<^sup>* (updater_start home_start) s"
    unfolding s_def by (rule one_call)
  have "LoadFromCache home_env 0 k (DnsCache home_start) = None" for k
    by (simp add: LoadFromCache_def home_env_def home_start_def alist_cache_def alive_def)
  moreover have "env_fqdn (ce_res home_env) = (\<lambda>d. d)"
    by (simp add: home_env_def)
  ultimately have h: "history s = [(''nas.home.:1'', Some [wan_rr])]"
    using home_resolve [of "(phone_world, 0)" "''10.0.0.7''"]
    by (simp add: s_def cl_def after_call_def updater_start_def call_history_def at_time_def CacheKey_def
        SuffixA_def Let_def)
  have "tracker_ok (env_fqdn (ce_res home_env)) (accessTracker home_start)"
    by (simp add: home_start_def tracker_ok_def)
  from updater_reachable_safe [OF home_cache_ok run this] run h show ?thesis
    by blast
qed

text \<open>
  C29: a refresh replaces the entry, whatever the outcome. The question of a tracked key is
  resolved as the client \<open>127.0.0.1\<close>; what comes back, an empty or missing answer included,
  is what every lookup of the key returns from then on for the lifetime of the new answer, even
  if a good answer was still cached.
\<close>

theorem updateStaleEntry_spec:
  assumes "cache_ok ce" and "GetAccessInfo key (accessTracker w) = Some ai"
    and "resolve_query ce t (Domain ai) (QueryType ai) ''127.0.0.1'' w = (Inr a, w1)"
  shows "\<exists>w2. updateStaleEntry type_name ce t now key w = (Inr True, w2) \<and>
    (\<forall>t'. LoadFromCache ce t' key (DnsCache w2) = (if t' \<le> now + answer_ttl ce a then Some a else None)) \<and>
    (\<forall>t' k. k \<noteq> key \<longrightarrow> LoadFromCache ce t' k (DnsCache w2) = LoadFromCache ce t' k (DnsCache w)) \<and>
    accessTracker w2 = accessTracker w"
proof -
  have "DnsCache w1 = DnsCache w" "accessTracker w1 = accessTracker w"
    using resolve_query_same [OF assms(3)] by simp_all
  then show ?thesis
    using assms by (simp add: updateStaleEntry_def refresh_resolve_def refresh_store_cache cache_load_set)
qed

definition nas_info :: AccessInfo where
  "nas_info = \<lparr>AccessCount = 5, LastAccessNanos = 0, FirstAccessNanos = 0, Domain = ''nas.home.'', QueryType = 1\<rparr>"

text \<open>
  The entry of the public-only client holds the public server's answer; the refresh puts the
  private server's answer in its place.
\<close>

theorem updateStaleEntry_spec_witness:
  "\<exists>w2. updateStaleEntry (\<lambda>_. ''A'') home_env (phone_world, 0) second ''nas.home.:1''
       (home_start\<lparr>accessTracker := [(''nas.home.:1'', nas_info)],
          DnsCache := [(''nas.home.:1'', Some [wan_rr], 20 * second)]\<rparr>) = (Inr True, w2) \<and>
     LoadFromCache home_env second ''nas.home.:1'' (DnsCache w2) = Some (Some [lan_rr])"
proof -
  let ?w = "home_start\<lparr>accessTracker := [(''nas.home.:1'', nas_info)],
          DnsCache := [(''nas.home.:1'', Some [wan_rr], 20 * second)]\<rparr>"
  have info: "GetAccessInfo ''nas.home.:1'' (accessTracker ?w) = Some nas_info"
    by (simp add: GetAccessInfo_def)
  let ?r = "resolve_query home_env (phone_world, 0) ''nas.home.'' 1 ''127.0.0.1'' ?w"
  have "fst ?r = fst (resolve_query home_env (phone_world, 0) ''nas.home.'' 1 ''127.0.0.1'' home_start)"
    by (simp add: resolve_query_def case_prod_beta)
  then have "fst ?r = Inr (Some [lan_rr])"
    unfolding home_resolve by simp
  then have "?r = (Inr (Some [lan_rr]), snd ?r)"
    by (metis prod.collapse)
  then have res: "resolve_query home_env (phone_world, 0) (Domain nas_info) (QueryType nas_info) ''127.0.0.1'' ?w =
      (Inr (Some [lan_rr]), snd ?r)"
    by (simp only: nas_info_def AccessInfo.select_convs)
  have "0 < answer_ttl home_env (Some [lan_rr])"
    using answer_ttl_pos [OF home_valid(1), of home_env] home_valid(2) by (simp add: home_env_def)
  then show ?thesis
    using updateStaleEntry_spec [OF home_cache_ok info res, of "\<lambda>_. ''A''" second] by auto
qed

end
