(* ===== verification/Persistence.thy ===== *)
theory Persistence
  imports StaleUpdater
begin

text \<open>
  The cache on disk, \<open>cache/persistence.go\<close>: the directory check with its alternative places,
  saving and loading. Directory names are computed as \<open>path/filepath\<close> does on Unix. The disk
  is a set of directories and a map of files; whether an operation on a path succeeds is the
  parameter \<open>disk\<close> (\<open>mkdir_ok\<close> covers the case that the directory exists). A write that fails after the file was opened leaves the file truncated.

  The text of a record (\<open>RR.String\<close> and \<open>dns.NewRR\<close>) belongs to the DNS library, and the JSON
  text of a snapshot is not read by the program itself; both are parameters, with the round trip
  of the JSON text as hypothesis. File contents therefore have an abstract type. \<open>dns.NewRR\<close> of an
  empty line or a comment gives neither a record nor an error, and the load keeps the nil record;
  a record of type \<open>NULL\<close> is printed as a comment. Printing a nil record panics.
\<close>

section \<open>Paths\<close>

text \<open>\<open>filepath.Clean\<close>, on the elements between slashes, innermost first.\<close>

fun clean_elems :: "bool \<Rightarrow> string list \<Rightarrow> string list \<Rightarrow> string list" where
  "clean_elems rooted acc [] = acc"
| "clean_elems rooted acc (e # es) =
     (if e = '''' \<or> e = ''.'' then clean_elems rooted acc es
      else if e = ''..'' then
        (case acc of
           a # as \<Rightarrow> if a = ''..'' then clean_elems rooted (e # acc) es else clean_elems rooted as es
         | [] \<Rightarrow> if rooted then clean_elems rooted [] es else clean_elems rooted [e] es)
      else clean_elems rooted (e # acc) es)"

definition path_clean :: "string \<Rightarrow> string" where
  "path_clean p =
     (let rooted = (p \<noteq> [] \<and> hd p = CHR ''/'');
          q = join_str ''/'' (rev (clean_elems rooted [] (split_str ''/'' p)))
      in if rooted then CHR ''/'' # q else if q = '''' then ''.'' else q)"

definition path_dir :: "string \<Rightarrow> string" where
  "path_dir p = path_clean (rev (dropWhile (\<lambda>c. c \<noteq> CHR ''/'') (rev p)))"

definition path_join :: "string \<Rightarrow> string \<Rightarrow> string" where
  "path_join d f = path_clean (d @ ''/'' @ f)"

section \<open>The disk\<close>

datatype write_result = Written | Open_fails | Write_fails

record disk =
  mkdir_ok :: "string \<Rightarrow> bool"
  write_result :: "string \<Rightarrow> write_result"
  remove_ok :: "string \<Rightarrow> bool"
  read_ok :: "string \<Rightarrow> bool"

record 'b fs =
  fs_dirs :: "string set"
  fs_files :: "string \<Rightarrow> 'b option"

definition not_exists :: "string \<Rightarrow> 'b fs \<Rightarrow> bool" where
  "not_exists p f \<longleftrightarrow> p \<notin> fs_dirs f \<and> fs_files f p = None"

definition mkdir_all :: "disk \<Rightarrow> string \<Rightarrow> 'b fs \<Rightarrow> bool \<times> 'b fs" where
  "mkdir_all dsk d f =
     (if mkdir_ok dsk d
      then (True, f\<lparr>fs_dirs := fs_dirs f \<union> set (filter (\<lambda>p. p = d \<or> prefix (p @ ''/'') d) (prefixes d))\<rparr>)
      else (False, f))"

definition write_file :: "disk \<Rightarrow> 'b \<Rightarrow> string \<Rightarrow> 'b \<Rightarrow> 'b fs \<Rightarrow> bool \<times> 'b fs" where
  "write_file dsk torn p data f =
     (case write_result dsk p of
        Open_fails \<Rightarrow> (False, f)
      | Write_fails \<Rightarrow> (False, f\<lparr>fs_files := (fs_files f)(p := Some torn)\<rparr>)
      | Written \<Rightarrow> (True, f\<lparr>fs_files := (fs_files f)(p := Some data)\<rparr>))"

definition remove_file :: "disk \<Rightarrow> string \<Rightarrow> 'b fs \<Rightarrow> bool \<times> 'b fs" where
  "remove_file dsk p f =
     (if remove_ok dsk p \<and> fs_files f p \<noteq> None then (True, f\<lparr>fs_files := (fs_files f)(p := None)\<rparr>)
      else (False, f))"

section \<open>The snapshot and its text\<close>

record CacheEntry =
  Key :: string
  Answers :: "string list"
  Expiration :: "nanos option" \<comment> \<open>\<open>None\<close>: the zero time\<close>
  EntryAccess :: "AccessInfo option"

record CacheSnapshot =
  Entries :: "CacheEntry list"
  Timestamp :: nanos

text \<open>
  Outside code: the texts, and what a file holds that was truncated, or written in part. \<open>new_rr\<close> gives
  \<open>None\<close> for an error and \<open>Some None\<close> for a nil record without an error.
\<close>

record 'b codec =
  rr_string :: "RR \<Rightarrow> string"
  new_rr :: "string \<Rightarrow> RR option option"
  encode_json :: "CacheSnapshot \<Rightarrow> 'b option"
  decode_json :: "'b \<Rightarrow> CacheSnapshot option"
  test_data :: 'b
  empty_data :: 'b
  torn_data :: 'b

datatype persist_error =
  MkdirFailed string
| NotWritable string
| DirCheckFailed persist_error
| OpenFailed string
| EncodeFailed
| ReadFailed string
| UnmarshalFailed
| NilRecord \<comment> \<open>not an error that is returned: the panic of printing a nil record\<close>

section \<open>The directory check\<close>

definition altPaths :: "string list" where
  "altPaths = [''/tmp/dns_cache.json'', ''./dns_cache.json'', ''./cache/dns_cache.json'']"

fun try_alt_paths :: "disk \<Rightarrow> 'b codec \<Rightarrow> string list \<Rightarrow> 'b fs \<Rightarrow> string option \<times> 'b fs" where
  "try_alt_paths dsk cd [] f = (None, f)"
| "try_alt_paths dsk cd (altPath # ps) f =
     (let altDir = path_dir altPath; (made, f1) = mkdir_all dsk altDir f
      in if \<not> made then try_alt_paths dsk cd ps f1
         else let testAltFile = path_join altDir ''.cache_test'';
                  (written, f2) = write_file dsk (torn_data cd) testAltFile (test_data cd) f1
           in if \<not> written then try_alt_paths dsk cd ps f2
              else (Some altPath, snd (remove_file dsk testAltFile f2)))"

text \<open>The result, the path in the configuration afterwards, and the disk.\<close>

definition ensureCacheDir ::
    "disk \<Rightarrow> 'b codec \<Rightarrow> Config \<Rightarrow> 'b fs \<Rightarrow> (persist_error + unit) \<times> Config \<times> 'b fs" where
  "ensureCacheDir dsk cd c f =
     (if \<not> EnableCachePersistence c then (Inr (), c, f)
      else let dir = path_dir (CachePersistenceFile c);
               (made, f1) = (if not_exists dir f then mkdir_all dsk dir f else (True, f))
        in if \<not> made then (Inl (MkdirFailed dir), c, f1)
           else let testFile = path_join dir ''.cache_test'';
                    (written, f2) = write_file dsk (torn_data cd) testFile (test_data cd) f1
             in if written then (Inr (), c, snd (remove_file dsk testFile f2))
                else case try_alt_paths dsk cd altPaths f2 of
                  (Some altPath, f3) \<Rightarrow> (Inr (), c\<lparr>CachePersistenceFile := altPath\<rparr>, f3)
                | (None, f3) \<Rightarrow> (Inl (NotWritable dir), c, f3))"

section \<open>Saving\<close>

definition save_entry ::
    "('b, 'x) codec_scheme \<Rightarrow> Config \<Rightarrow> tracker \<Rightarrow> string \<times> RR list option \<times> nanos \<Rightarrow> CacheEntry" where
  "save_entry cd c tracked item =
     (case item of (key, answers, expiration) \<Rightarrow>
        \<lparr>Key = key,
         Answers = map (rr_string cd) (case answers of None \<Rightarrow> [] | Some rrs \<Rightarrow> rrs),
         Expiration = (if 0 < expiration then Some expiration else None),
         EntryAccess = (if EnableStaleUpdater c then GetAccessInfo key tracked else None)\<rparr>)"

definition take_snapshot ::
    "'b codec \<Rightarrow> Config \<Rightarrow> nanos \<Rightarrow> (string \<times> RR list option \<times> nanos) list \<Rightarrow> tracker \<Rightarrow> CacheSnapshot" where
  "take_snapshot cd c now items tracked =
     \<lparr>Entries = map (save_entry cd c tracked)
        (filter (\<lambda>(key, answers, expiration). \<not> (0 < expiration \<and> expiration < now)) items),
      Timestamp = now\<rparr>"

text \<open>Whether a nil record is among those to be printed.\<close>

definition prints_nil :: "nanos \<Rightarrow> (string \<times> RR list option \<times> nanos) list \<Rightarrow> bool" where
  "prints_nil now items =
     list_ex (\<lambda>(key, answers, expiration). \<not> (0 < expiration \<and> expiration < now) \<and>
       (case answers of None \<Rightarrow> False | Some rrs \<Rightarrow> nil_rr \<in> set rrs)) items"

text \<open>The encoder writes the whole text at once, after the file has been truncated.\<close>

definition SaveCacheToFile ::
    "('c, 'd) cache_env \<Rightarrow> disk \<Rightarrow> 'b codec \<Rightarrow> nanos \<Rightarrow> nanos \<Rightarrow> ('c, 'd) world \<Rightarrow> Config \<Rightarrow> 'b fs \<Rightarrow>
     (persist_error + unit) \<times> Config \<times> 'b fs" where
  "SaveCacheToFile ce dsk cd t_items now w c f =
     (if \<not> EnableCachePersistence c then (Inr (), c, f)
      else case ensureCacheDir dsk cd c f of
        (Inl e, c1, f1) \<Rightarrow> (Inl (DirCheckFailed e), c1, f1)
      | (Inr _, c1, f1) \<Rightarrow>
          let items = gc_items (ce_dns ce) (DnsCache w) t_items;
              snapshot = take_snapshot cd c1 now items (accessTracker w);
              path = CachePersistenceFile c1
          in if prints_nil now items then (Inl NilRecord, c1, f1)
             else if write_result dsk path = Open_fails
             then (Inl (OpenFailed path), c1, f1)
             else let f2 = f1\<lparr>fs_files := (fs_files f1)(path := Some (empty_data cd))\<rparr>
               in case encode_json cd snapshot of
                    None \<Rightarrow> (Inl EncodeFailed, c1, f2)
                  | Some text \<Rightarrow>
                      (case write_file dsk (torn_data cd) path text f2 of
                         (True, f3) \<Rightarrow> (Inr (), c1, f3)
                       | (False, f3) \<Rightarrow> (Inl EncodeFailed, c1, f3)))"

section \<open>Loading\<close>

text \<open>
  The clock of a load: when the check of an entry's remaining time and its write to the cache
  happen.
\<close>

type_synonym load_clock = "string \<Rightarrow> nanos \<times> nanos"

text \<open>One line of an entry: an error skips it, and a nil record is kept like any other.\<close>

definition read_rr :: "'b codec \<Rightarrow> string \<Rightarrow> RR option" where
  "read_rr cd s =
     (case new_rr cd s of None \<Rightarrow> None | Some None \<Rightarrow> Some nil_rr | Some (Some rr) \<Rightarrow> Some rr)"

definition load_entry ::
    "('c, 'd) cache_env \<Rightarrow> 'b codec \<Rightarrow> Config \<Rightarrow> load_clock \<Rightarrow> nanos \<Rightarrow> CacheEntry \<Rightarrow>
     ('c, 'd) world \<Rightarrow> ('c, 'd) world" where
  "load_entry ce cd c clock now entry w =
     (if (case Expiration entry of Some e \<Rightarrow> e < now | None \<Rightarrow> False) then w
      else let answers = List.map_filter (read_rr cd) (Answers entry)
        in if length answers = 0 then w
           else let ttl = (case Expiration entry of
                    None \<Rightarrow> DefaultDNSCacheTTL ce
                  | Some e \<Rightarrow> e - fst (clock (Key entry)))
             in if Expiration entry \<noteq> None \<and> ttl \<le> 0 then w
                else let w1 = w\<lparr>DnsCache := gc_set (ce_dns ce) (DnsCache w) (snd (clock (Key entry)))
                           (Key entry) (Some answers) ttl\<rparr>
                  in case EntryAccess entry of
                       None \<Rightarrow> w1
                     | Some ai \<Rightarrow> if EnableStaleUpdater c
                         then w1\<lparr>accessTracker := AList.update (Key entry) ai (accessTracker w1)\<rparr> else w1)"

definition loadBatchSize :: nat where "loadBatchSize = 100"

function load_batches ::
    "('c, 'd) cache_env \<Rightarrow> 'b codec \<Rightarrow> Config \<Rightarrow> load_clock \<Rightarrow> nanos \<Rightarrow> CacheEntry list \<Rightarrow> nat \<Rightarrow>
     ('c, 'd) world \<Rightarrow> ('c, 'd) world" where
  "load_batches ce cd c clock now es i w =
     (if i < length es
      then let stop = (if length es < i + loadBatchSize then length es else i + loadBatchSize);
               batch = take (stop - i) (drop i es)
           in load_batches ce cd c clock now es (i + loadBatchSize) (fold (load_entry ce cd c clock now) batch w)
      else w)"
  by auto
termination
  by (relation "measure (\<lambda>(ce, cd, c, clock, now, es, i, w). length es - i)") (auto simp: loadBatchSize_def)

declare load_batches.simps [simp del]

definition LoadCacheFromFile ::
    "('c, 'd) cache_env \<Rightarrow> disk \<Rightarrow> 'b codec \<Rightarrow> load_clock \<Rightarrow> nanos \<Rightarrow> nanos \<Rightarrow> Config \<Rightarrow> 'b fs \<Rightarrow>
     ('c, 'd) world \<Rightarrow> (persist_error + unit) \<times> Config \<times> 'b fs \<times> ('c, 'd) world" where
  "LoadCacheFromFile ce dsk cd clock t_age now c f w =
     (if \<not> EnableCachePersistence c then (Inr (), c, f, w)
      else let (_, c1, f1) = ensureCacheDir dsk cd c f; path = CachePersistenceFile c1
        in if not_exists path f1 then (Inr (), c1, f1, w)
           else case (if read_ok dsk path then fs_files f1 path else None) of
             None \<Rightarrow> (Inl (ReadFailed path), c1, f1, w)
           | Some data \<Rightarrow>
               (case decode_json cd data of
                  None \<Rightarrow> (Inl UnmarshalFailed, c1, f1, w)
                | Some snapshot \<Rightarrow>
                    if CachePersistenceMaxAge c1 < t_age - Timestamp snapshot then (Inr (), c1, f1, w)
                    else (Inr (), c1, f1, load_batches ce cd c1 clock now (Entries snapshot) 0 w)))"

text \<open>Start and stop; \<open>True\<close> while the periodic ticker runs.\<close>

definition StartCachePersistence ::
    "disk \<Rightarrow> 'b codec \<Rightarrow> Config \<Rightarrow> 'b fs \<Rightarrow> (ticker_panic + bool) \<times> Config \<times> 'b fs" where
  "StartCachePersistence dsk cd c f =
     (if \<not> EnableCachePersistence c then (Inr False, c, f)
      else case ensureCacheDir dsk cd c f of
        (Inl e, c1, f1) \<Rightarrow> (Inr False, c1, f1)
      | (Inr _, c1, f1) \<Rightarrow>
          (case NewTicker (CachePersistenceInterval c1) of
             Inl p \<Rightarrow> (Inl p, c1, f1) | Inr _ \<Rightarrow> (Inr True, c1, f1)))"

definition StopCachePersistence ::
    "('c, 'd) cache_env \<Rightarrow> disk \<Rightarrow> 'b codec \<Rightarrow> nanos \<Rightarrow> nanos \<Rightarrow> ('c, 'd) world \<Rightarrow> bool \<Rightarrow> Config \<Rightarrow> 'b fs \<Rightarrow>
     bool \<times> (persist_error + unit) \<times> Config \<times> 'b fs" where
  "StopCachePersistence ce dsk cd t_items now w ticking c f =
     (let ticking1 = (if ticking then False else ticking)
      in (ticking1,
          if EnableCachePersistence c then SaveCacheToFile ce dsk cd t_items now w c f else (Inr (), c, f)))"

section \<open>Loading is one pass\<close>

lemma load_batches_eq:
  "load_batches ce cd c clock now es i w = fold (load_entry ce cd c clock now) (drop i es) w"
proof (induction ce cd c clock now es i w rule: load_batches.induct)
  case (1 ce cd c clock now es i w)
  show ?case
  proof (cases "i < length es")
    case True
    let ?stop = "if length es < i + loadBatchSize then length es else i + loadBatchSize"
    have b: "take (?stop - i) (drop i es) = take loadBatchSize (drop i es)"
      by auto
    have "drop i es = take loadBatchSize (drop i es) @ drop (i + loadBatchSize) es"
      by (metis add.commute append_take_drop_id drop_drop)
    then have "fold (load_entry ce cd c clock now) (drop i es) w =
        fold (load_entry ce cd c clock now) (drop (i + loadBatchSize) es)
          (fold (load_entry ce cd c clock now) (take loadBatchSize (drop i es)) w)"
      by (metis comp_apply fold_append)
    moreover note 1 [OF True refl refl, unfolded b]
    ultimately show ?thesis
      by (subst load_batches.simps) (simp only: True if_True Let_def b)
  next
    case False
    then show ?thesis by (subst load_batches.simps) simp
  qed
qed

section \<open>What is restored\<close>

definition restored :: "'b codec \<Rightarrow> load_clock \<Rightarrow> nanos \<Rightarrow> CacheEntry \<Rightarrow> (RR list \<times> nanos) option" where
  "restored cd clock now entry =
     (let answers = List.map_filter (read_rr cd) (Answers entry)
      in case Expiration entry of
           None \<Rightarrow> None
         | Some e \<Rightarrow>
             if now \<le> e \<and> answers \<noteq> [] \<and> fst (clock (Key entry)) < e
             then Some (answers, e + (snd (clock (Key entry)) - fst (clock (Key entry)))) else None)"

lemma load_entry_cache:
  assumes "gocache_laws (ce_dns ce)" and "Expiration entry \<noteq> None"
  shows "LoadFromCache ce t k (DnsCache (load_entry ce cd c clock now entry w)) =
    (case restored cd clock now entry of
       Some (a, x) \<Rightarrow> if k = Key entry then (if t \<le> x then Some (Some a) else None)
                     else LoadFromCache ce t k (DnsCache w)
     | None \<Rightarrow> LoadFromCache ce t k (DnsCache w))"
  using assms
  by (auto simp: load_entry_def restored_def Let_def LoadFromCache_set algebra_simps not_less
      split: option.splits)

lemma load_entries_cache:
  assumes "gocache_laws (ce_dns ce)"
  shows "distinct (map Key es) \<Longrightarrow> \<forall>e \<in> set es. Expiration e \<noteq> None \<Longrightarrow>
    LoadFromCache ce t k (DnsCache (fold (load_entry ce cd c clock now) es w)) =
    (case Option.bind (map_of (map (\<lambda>e. (Key e, e)) es) k) (restored cd clock now) of
       Some (a, x) \<Rightarrow> if t \<le> x then Some (Some a) else None
     | None \<Rightarrow> LoadFromCache ce t k (DnsCache w))"
proof (induction es arbitrary: w)
  case (Cons e es)
  show ?case
  proof (cases "k = Key e")
    case True
    with Cons.prems(1) have "map_of (map (\<lambda>e. (Key e, e)) es) k = None"
      by (auto simp: map_of_eq_None_iff)
    with True Cons show ?thesis
      by (simp add: load_entry_cache [OF assms] split: option.split)
  next
    case False
    with Cons show ?thesis
      by (simp add: load_entry_cache [OF assms] split: option.split)
  qed
qed simp

lemma load_entry_tracker:
  assumes "Expiration entry \<noteq> None"
  shows "map_of (accessTracker (load_entry ce cd c clock now entry w)) k =
    (if k = Key entry \<and> restored cd clock now entry \<noteq> None \<and> EnableStaleUpdater c \<and> EntryAccess entry \<noteq> None
     then EntryAccess entry else map_of (accessTracker w) k)"
  using assms by (auto simp: load_entry_def restored_def Let_def map_of_update split: option.splits)

lemma load_entries_tracker:
  "distinct (map Key es) \<Longrightarrow> \<forall>e \<in> set es. Expiration e \<noteq> None \<Longrightarrow>
    map_of (accessTracker (fold (load_entry ce cd c clock now) es w)) k =
    (case map_of (map (\<lambda>e. (Key e, e)) es) k of
       Some e \<Rightarrow> if restored cd clock now e \<noteq> None \<and> EnableStaleUpdater c \<and> EntryAccess e \<noteq> None
                 then EntryAccess e else map_of (accessTracker w) k
     | None \<Rightarrow> map_of (accessTracker w) k)"
proof (induction es arbitrary: w)
  case (Cons e es)
  show ?case
  proof (cases "k = Key e")
    case True
    with Cons.prems(1) have "map_of (map (\<lambda>e. (Key e, e)) es) k = None"
      by (auto simp: map_of_eq_None_iff)
    with True Cons show ?thesis
      by (auto simp: load_entry_tracker)
  next
    case False
    with Cons show ?thesis
      by (auto simp: load_entry_tracker split: option.splits)
  qed
qed simp

text \<open>
  A tracker that names under each key the question of the key is saved, and loaded, with this
  property.
\<close>

lemma snapshot_tracker_ok:
  "tracker_ok fqdn tracked \<Longrightarrow> e \<in> set (Entries (take_snapshot cd c now items tracked)) \<Longrightarrow>
     EntryAccess e = Some ai \<Longrightarrow> Key e = CacheKey fqdn (Domain ai) (QueryType ai)"
  by (auto simp: take_snapshot_def save_entry_def dest: tracker_ok_info split: if_splits)

lemma load_entries_tracker_ok:
  "(\<And>e ai. e \<in> set es \<Longrightarrow> EntryAccess e = Some ai \<Longrightarrow> Key e = CacheKey fqdn (Domain ai) (QueryType ai)) \<Longrightarrow>
     tracker_ok fqdn (accessTracker w) \<Longrightarrow>
     tracker_ok fqdn (accessTracker (fold (load_entry ce cd c clock now) es w))"
proof (induction es arbitrary: w)
  case (Cons e es)
  have "tracker_ok fqdn (accessTracker (load_entry ce cd c clock now e w))"
    using Cons.prems tracker_ok_update [OF Cons.prems(2)]
    by (auto simp: load_entry_def Let_def split: option.split)
  with Cons show ?case by simp
qed simp

lemma snapshot_keys:
  "map Key (Entries (take_snapshot cd c now items tracked)) =
     map fst (filter (\<lambda>(k, a, e). \<not> (0 < e \<and> e < now)) items)"
  by (auto simp: take_snapshot_def save_entry_def)

lemma map_of_entries:
  "map_of (map (\<lambda>e. (Key e, e)) (map (save_entry cd c tracked) items)) k =
     map_option (\<lambda>v. save_entry cd c tracked (k, v)) (map_of items k)"
  by (induction items) (auto simp: save_entry_def)

lemma snapshot_lookup:
  assumes "distinct (map fst items)"
  shows "map_of (map (\<lambda>e. (Key e, e)) (Entries (take_snapshot cd c now items tracked))) k =
    (case map_of items k of
       None \<Rightarrow> None
     | Some v \<Rightarrow> if 0 < snd v \<and> snd v < now then None else Some (save_entry cd c tracked (k, v)))"
proof -
  have "filter (\<lambda>(k, a, e). \<not> (0 < e \<and> e < now)) items = filter (\<lambda>(k, v). \<not> (0 < snd v \<and> snd v < now)) items"
    by (rule filter_cong) auto
  then show ?thesis
    by (simp add: take_snapshot_def map_of_entries [simplified] map_of_filter_distinct [OF assms]
        split: option.split)
qed

section \<open>The directory check, in one line per case\<close>

definition test_file :: "string \<Rightarrow> string" where
  "test_file p = path_join (path_dir p) ''.cache_test''"

definition usable :: "disk \<Rightarrow> string \<Rightarrow> bool" where
  "usable dsk p \<longleftrightarrow> mkdir_ok dsk (path_dir p) \<and> write_result dsk (test_file p) = Written"

lemma try_alt_paths_find: "fst (try_alt_paths dsk cd ps f) = find (usable dsk) ps"
proof (induction ps arbitrary: f)
  case (Cons p ps)
  then show ?case
    by (cases "write_result dsk (test_file p)")
      (auto simp: usable_def test_file_def mkdir_all_def write_file_def Let_def)
qed simp

text \<open>
  C32: where the cache file goes. A missing directory that cannot be created is an error at once;
  otherwise the configured path is kept when a test file can be written beside it, and else
  the first alternative that works replaces it in the configuration; only when none does, the
  check fails. The alternatives are never tried when the directory cannot be created.
\<close>

theorem ensureCacheDir_spec:
  fixes c :: Config
  defines "p \<equiv> CachePersistenceFile c"
  shows "case ensureCacheDir dsk cd c f of (result, c', f') \<Rightarrow>
    (result, CachePersistenceFile c') =
      (if \<not> EnableCachePersistence c then (Inr (), p)
       else if not_exists (path_dir p) f \<and> \<not> mkdir_ok dsk (path_dir p) then (Inl (MkdirFailed (path_dir p)), p)
       else if write_result dsk (test_file p) = Written then (Inr (), p)
       else case find (usable dsk) altPaths of
         Some q \<Rightarrow> (Inr (), q) | None \<Rightarrow> (Inl (NotWritable (path_dir p)), p)) \<and>
    c' = c\<lparr>CachePersistenceFile := CachePersistenceFile c'\<rparr>"
proof -
  have alt: "(case try_alt_paths dsk cd altPaths f2 of
        (Some altPath, f3) \<Rightarrow> (Inr (), c\<lparr>CachePersistenceFile := altPath\<rparr>, f3)
      | (None, f3) \<Rightarrow> (Inl (NotWritable d), c, f3)) =
      (case find (usable dsk) altPaths of
         Some q \<Rightarrow> (Inr (), c\<lparr>CachePersistenceFile := q\<rparr>, snd (try_alt_paths dsk cd altPaths f2))
       | None \<Rightarrow> (Inl (NotWritable d), c, snd (try_alt_paths dsk cd altPaths f2)))" for f2 d
    using try_alt_paths_find [of dsk cd altPaths f2]
    by (cases "try_alt_paths dsk cd altPaths f2") (auto split: option.split)
  show ?thesis
    unfolding p_def ensureCacheDir_def alt Let_def
    by (cases "write_result dsk (test_file (CachePersistenceFile c))"; cases "find (usable dsk) altPaths")
      (auto simp: mkdir_all_def write_file_def test_file_def)
qed

definition disk_works :: "disk \<Rightarrow> string \<Rightarrow> bool" where
  "disk_works dsk p \<longleftrightarrow> mkdir_ok dsk (path_dir p) \<and> write_result dsk (test_file p) = Written \<and>
     write_result dsk p = Written \<and> read_ok dsk p \<and> p \<noteq> test_file p"

lemma ensure_works:
  assumes "disk_works dsk (CachePersistenceFile c)"
  shows "\<exists>f'. ensureCacheDir dsk cd c f = (Inr (), c, f') \<and>
    fs_files f' (CachePersistenceFile c) = fs_files f (CachePersistenceFile c)"
  using assms
  by (auto simp: ensureCacheDir_def disk_works_def test_file_def mkdir_all_def write_file_def
      remove_file_def Let_def)

text \<open>What the code relies on in the JSON text: a snapshot whose strings are ASCII can be read back.\<close>

definition ascii :: "string \<Rightarrow> bool" where
  "ascii s \<longleftrightarrow> list_all (\<lambda>ch. of_char ch < (128 :: nat)) s"

definition ascii_snapshot :: "CacheSnapshot \<Rightarrow> bool" where
  "ascii_snapshot s \<longleftrightarrow> list_all (\<lambda>e. ascii (Key e) \<and> list_all ascii (Answers e) \<and>
     (case EntryAccess e of None \<Rightarrow> True | Some ai \<Rightarrow> ascii (Domain ai))) (Entries s)"

definition codec_laws :: "'b codec \<Rightarrow> bool" where
  "codec_laws cd \<longleftrightarrow>
     (\<forall>s b. ascii_snapshot s \<longrightarrow> encode_json cd s = Some b \<longrightarrow> decode_json cd b = Some s)"

text \<open>
  Equal records: the same name, type, time to live and data, where an IPv4 address may have come back
  in its 16-byte form. Not every record is readable from its text; a \<open>NULL\<close> record is not.
\<close>

fun same_body :: "rr_body \<Rightarrow> rr_body \<Rightarrow> bool" where
  "same_body (A_record a) (A_record b) = (a = b \<or> to16 a \<noteq> None \<and> to16 a = to16 b)"
| "same_body (AAAA_record a) (AAAA_record b) = (a = b \<or> to16 a \<noteq> None \<and> to16 a = to16 b)"
| "same_body (Other_record s) (Other_record t) = (s = t)"
| "same_body _ _ = False"

definition same_rr :: "RR \<Rightarrow> RR \<Rightarrow> bool" where
  "same_rr rr rr' \<longleftrightarrow> rr_name rr' = rr_name rr \<and> Rrtype rr' = Rrtype rr \<and> Ttl rr' = Ttl rr \<and>
     same_body (rr_data rr) (rr_data rr')"

definition readable :: "'b codec \<Rightarrow> RR \<Rightarrow> bool" where
  "readable cd rr \<longleftrightarrow> (\<exists>rr'. new_rr cd (rr_string cd rr) = Some (Some rr') \<and> same_rr rr rr')"

definition reread :: "'b codec \<Rightarrow> RR list \<Rightarrow> RR list" where
  "reread cd rrs = List.map_filter (read_rr cd) (map (rr_string cd) rrs)"

lemma reread_Nil [simp]: "reread cd [] = []"
  by (simp add: reread_def map_filter_simps)

lemma reread_same: "list_all (readable cd) rrs \<Longrightarrow> list_all2 same_rr rrs (reread cd rrs)"
  by (induction rrs) (auto simp: reread_def readable_def read_rr_def map_filter_simps)

lemma save_works:
  assumes "disk_works dsk (CachePersistenceFile c)" and "EnableCachePersistence c"
    and "SaveCacheToFile ce dsk cd t_items now w c f = (Inr (), c1, f1)"
  shows "c1 = c \<and> (\<exists>b. encode_json cd (take_snapshot cd c now (gc_items (ce_dns ce) (DnsCache w) t_items)
      (accessTracker w)) = Some b \<and> fs_files f1 (CachePersistenceFile c) = Some b)"
proof -
  obtain f' where "ensureCacheDir dsk cd c f = (Inr (), c, f')"
    using ensure_works [OF assms(1)] by blast
  with assms show ?thesis
    by (auto simp: SaveCacheToFile_def disk_works_def write_file_def Let_def split: option.splits if_splits)
qed

lemma load_works:
  assumes "disk_works dsk (CachePersistenceFile c)" and "EnableCachePersistence c"
    and "fs_files f (CachePersistenceFile c) = Some b" and "decode_json cd b = Some snap"
    and "t_age - Timestamp snap \<le> CachePersistenceMaxAge c"
  shows "\<exists>f'. LoadCacheFromFile ce dsk cd clock t_age now c f w =
    (Inr (), c, f', fold (load_entry ce cd c clock now) (Entries snap) w)"
proof -
  obtain f' where "ensureCacheDir dsk cd c f = (Inr (), c, f')" "fs_files f' (CachePersistenceFile c) = Some b"
    using ensure_works [OF assms(1)] assms(3) by metis
  with assms show ?thesis
    by (auto simp: LoadCacheFromFile_def disk_works_def not_exists_def load_batches_eq Let_def)
qed

lemma load_tracker_ok:
  assumes "LoadCacheFromFile ce dsk cd clock t_age now c f w = (r, c1, f1, w1)"
    and "\<And>b snap e ai. decode_json cd b = Some snap \<Longrightarrow> e \<in> set (Entries snap) \<Longrightarrow>
       EntryAccess e = Some ai \<Longrightarrow> Key e = CacheKey fqdn (Domain ai) (QueryType ai)"
    and "tracker_ok fqdn (accessTracker w)"
  shows "tracker_ok fqdn (accessTracker w1)"
proof -
  have "w1 = w \<or> (\<exists>b snap. decode_json cd b = Some snap \<and> w1 = fold (load_entry ce cd c1 clock now) (Entries snap) w)"
    using assms(1) by (auto simp: LoadCacheFromFile_def load_batches_eq Let_def split: if_splits prod.splits option.splits)
  moreover have "tracker_ok fqdn (accessTracker (fold (load_entry ce cd c1 clock now) (Entries snap) w))"
    if "decode_json cd b = Some snap" for b snap
    using assms(2) [OF that] assms(3) by (rule load_entries_tracker_ok)
  ultimately show ?thesis
    using assms(3) by blast
qed

section \<open>Properties\<close>

text \<open>
  What should survive a restart: the records of an entry that was alive at the save and at the
  load, until when. The last of the two times of the clock is when the entry is inserted.
\<close>

definition survivor ::
    "('c, 'd) cache_env \<Rightarrow> 'c \<Rightarrow> nanos \<Rightarrow> nanos \<Rightarrow> nanos \<Rightarrow> load_clock \<Rightarrow> string \<Rightarrow> (RR list \<times> nanos) option" where
  "survivor ce m t_items saved now clock k =
     (case gc_get_exp (ce_dns ce) m t_items k of
        Some (Some rrs, e) \<Rightarrow>
          if rrs \<noteq> [] \<and> saved \<le> e \<and> now \<le> e \<and> fst (clock k) < e
          then Some (rrs, e + (snd (clock k) - fst (clock k))) else None
      | _ \<Rightarrow> None)"

text \<open>The entry as it is read: nothing when no record of it could be read.\<close>

definition reread_survivor :: "'b codec \<Rightarrow> (RR list \<times> nanos) option \<Rightarrow> (RR list \<times> nanos) option" where
  "reread_survivor cd s =
     (case s of None \<Rightarrow> None | Some (rrs, x) \<Rightarrow> if reread cd rrs = [] then None else Some (reread cd rrs, x))"

lemma reread_survivor_readable:
  assumes "s = Some (rrs, x)" and "list_all (readable cd) rrs" and "rrs \<noteq> []"
  shows "\<exists>rrs'. reread_survivor cd s = Some (rrs', x) \<and> list_all2 same_rr rrs rrs'"
  using reread_same [OF assms(2)] assms(1,3) by (auto simp: reread_survivor_def)

lemma survivor_records: "survivor ce m t_items saved now clock k = Some (rrs, x) \<Longrightarrow> rrs \<noteq> []"
  by (auto simp: survivor_def split: option.splits prod.splits if_splits)

lemma snapshot_entries:
  fixes cd :: "'b codec"
  assumes laws: "gocache_laws (ce_dns ce)"
    and positive: "\<forall>(k, a, e) \<in> set (gc_items (ce_dns ce) m t_items). 0 < e"
  defines "es \<equiv> \<lambda>saved c tracked. Entries (take_snapshot cd c saved (gc_items (ce_dns ce) m t_items) tracked)"
  shows "distinct (map Key (es saved c tracked))"
    and "\<forall>e \<in> set (es saved c tracked). Expiration e \<noteq> None"
    and "Option.bind (map_of (map (\<lambda>e. (Key e, e)) (es saved c tracked)) k) (restored cd clock now) =
      reread_survivor cd (survivor ce m t_items saved now clock k)"
    and "map_of (map (\<lambda>e. (Key e, e)) (es saved c tracked)) k = Some e \<Longrightarrow>
      EntryAccess e = (if EnableStaleUpdater c then GetAccessInfo k tracked else None)"
proof -
  let ?items = "gc_items (ce_dns ce) m t_items"
  have items: "distinct (map fst ?items)"
    by (rule gc_items_distinct [OF laws])
  then show "distinct (map Key (es saved c tracked))"
    unfolding es_def snapshot_keys by (rule distinct_map_filter)
  show "\<forall>e \<in> set (es saved c tracked). Expiration e \<noteq> None"
    using positive by (auto simp: es_def take_snapshot_def save_entry_def)
  have "0 < e" if "map_of ?items k = Some (a, e)" for k a e
    using positive map_of_SomeD [OF that] by blast
  then show "Option.bind (map_of (map (\<lambda>e. (Key e, e)) (es saved c tracked)) k) (restored cd clock now) =
      reread_survivor cd (survivor ce m t_items saved now clock k)"
    by (auto simp: es_def snapshot_lookup [OF items] survivor_def gc_items_map [OF laws, symmetric]
        restored_def save_entry_def reread_def [symmetric] reread_survivor_def Let_def split: option.split)
  show "map_of (map (\<lambda>e. (Key e, e)) (es saved c tracked)) k = Some e \<Longrightarrow>
      EntryAccess e = (if EnableStaleUpdater c then GetAccessInfo k tracked else None)"
    by (auto simp: es_def snapshot_lookup [OF items] save_entry_def split: option.splits if_splits)
qed

lemma load_after_save:
  assumes "gocache_laws (ce_dns ce)" and "codec_laws cd"
    and "disk_works dsk (CachePersistenceFile c)" and "EnableCachePersistence c"
    and save: "SaveCacheToFile ce dsk cd t_items saved w c f = (Inr (), c1, f1)"
    and "ascii_snapshot (take_snapshot cd c saved (gc_items (ce_dns ce) (DnsCache w) t_items) (accessTracker w))"
    and positive: "\<forall>(k, a, e) \<in> set (gc_items (ce_dns ce) (DnsCache w) t_items). 0 < e"
    and "t_age - saved \<le> CachePersistenceMaxAge c"
    and fresh: "DnsCache w0 = gc_new (ce_dns ce) d" "accessTracker w0 = NewAccessTracker"
  shows "\<exists>f2 w2. LoadCacheFromFile ce dsk cd clock t_age now c1 f1 w0 = (Inr (), c1, f2, w2) \<and>
    (\<forall>t k. LoadFromCache ce t k (DnsCache w2) =
      (case reread_survivor cd (survivor ce (DnsCache w) t_items saved now clock k) of
         Some (rrs, x) \<Rightarrow> if t \<le> x then Some (Some rrs) else None
       | None \<Rightarrow> None)) \<and>
    (\<forall>k. GetAccessInfo k (accessTracker w2) =
      (if EnableStaleUpdater c \<and> reread_survivor cd (survivor ce (DnsCache w) t_items saved now clock k) \<noteq> None
       then GetAccessInfo k (accessTracker w) else None))"
proof -
  let ?items = "gc_items (ce_dns ce) (DnsCache w) t_items"
  let ?snap = "take_snapshot cd c saved ?items (accessTracker w)"
  let ?w2 = "fold (load_entry ce cd c clock now) (Entries ?snap) w0"
  obtain b where b: "encode_json cd ?snap = Some b" "fs_files f1 (CachePersistenceFile c) = Some b"
    and c1: "c1 = c"
    using save_works [OF assms(3,4) save] by blast
  have "decode_json cd b = Some ?snap"
    using assms(2,6) b(1) by (simp add: codec_laws_def)
  from load_works [OF assms(3,4) b(2) this, of t_age ce clock now w0] assms(8)
  obtain f2 where load: "LoadCacheFromFile ce dsk cd clock t_age now c f1 w0 = (Inr (), c, f2, ?w2)"
    by (auto simp: take_snapshot_def)
  note snap = snapshot_entries [OF assms(1) positive, where cd = cd and saved = saved and c = c and tracked = "accessTracker w"]
  have "LoadFromCache ce t k (DnsCache w0) = None" for t k
    using fresh gc_new_get [OF assms(1)] by (simp add: LoadFromCache_def gc_get_of_exp [OF assms(1)])
  then have "LoadFromCache ce t k (DnsCache ?w2) =
      (case reread_survivor cd (survivor ce (DnsCache w) t_items saved now clock k) of
         Some (rrs, x) \<Rightarrow> if t \<le> x then Some (Some rrs) else None
       | None \<Rightarrow> None)" for t k
    using snap(3) [of k clock now]
    by (auto simp: load_entries_cache [OF assms(1) snap(1,2)] split: option.splits)
  moreover have "GetAccessInfo k (accessTracker ?w2) =
      (if EnableStaleUpdater c \<and> reread_survivor cd (survivor ce (DnsCache w) t_items saved now clock k) \<noteq> None
       then GetAccessInfo k (accessTracker w) else None)" for k
    using snap(3) [of k clock now] snap(4) [of k] fresh(2)
    by (cases "reread_survivor cd (survivor ce (DnsCache w) t_items saved now clock k)")
      (auto simp: load_entries_tracker [OF snap(1,2)] GetAccessInfo_def NewAccessTracker_def split: option.splits)
  ultimately show ?thesis
    unfolding c1 using load by blast
qed


text \<open>
  C30: a save that fails halfway loses the previous snapshot. The file is emptied before the new
  text is written, so when the disk takes no more data the error is reported, but the next
  start finds a file it cannot read, reports an error and starts empty, whatever snapshot the
  file held before. (A nil record among those to print stops the save before, in a panic that leaves
  the file as it was.)
\<close>

theorem failed_save_loses_snapshot:
  assumes "EnableCachePersistence c" and "usable dsk (CachePersistenceFile c)"
    and "write_result dsk (CachePersistenceFile c) = Write_fails" and "read_ok dsk (CachePersistenceFile c)"
    and "CachePersistenceFile c \<noteq> test_file (CachePersistenceFile c)"
    and "decode_json cd (torn_data cd) = None" and "decode_json cd (empty_data cd) = None"
  shows "if prints_nil now (gc_items (ce_dns ce) (DnsCache w) t_items)
    then \<exists>f2. SaveCacheToFile ce dsk cd t_items now w c f = (Inl NilRecord, c, f2) \<and>
      fs_files f2 (CachePersistenceFile c) = fs_files f (CachePersistenceFile c)
    else \<exists>f2 f3. SaveCacheToFile ce dsk cd t_items now w c f = (Inl EncodeFailed, c, f2) \<and>
      LoadCacheFromFile ce dsk cd clock t_age now' c f2 w0 = (Inl UnmarshalFailed, c, f3, w0)"
proof -
  let ?p = "CachePersistenceFile c"
  let ?nil = "prints_nil now (gc_items (ce_dns ce) (DnsCache w) t_items)"
  have ens: "\<exists>f'. ensureCacheDir dsk cd c f = (Inr (), c, f') \<and> fs_files f' ?p = fs_files f ?p" for f
    using assms(1,2,5)
    by (auto simp: ensureCacheDir_def usable_def test_file_def mkdir_all_def write_file_def remove_file_def Let_def)
  then obtain f1 where f1: "ensureCacheDir dsk cd c f = (Inr (), c, f1)" "fs_files f1 ?p = fs_files f ?p"
    by blast
  show ?thesis
  proof (cases ?nil)
    case True
    with assms(1) f1 show ?thesis
      by (simp add: SaveCacheToFile_def Let_def)
  next
    case False
    have "\<exists>f2. SaveCacheToFile ce dsk cd t_items now w c f = (Inl EncodeFailed, c, f2) \<and>
        (fs_files f2 ?p = Some (torn_data cd) \<or> fs_files f2 ?p = Some (empty_data cd))"
      using assms(1,3) f1 False by (auto simp: SaveCacheToFile_def write_file_def Let_def split: option.split)
    then obtain f2 where f2: "SaveCacheToFile ce dsk cd t_items now w c f = (Inl EncodeFailed, c, f2)"
      and b: "fs_files f2 ?p = Some (torn_data cd) \<or> fs_files f2 ?p = Some (empty_data cd)"
      by blast
    obtain f3 where "ensureCacheDir dsk cd c f2 = (Inr (), c, f3)" "fs_files f3 ?p = fs_files f2 ?p"
      using ens by blast
    with b assms(1,4,6,7) have "LoadCacheFromFile ce dsk cd clock t_age now' c f2 w0 = (Inl UnmarshalFailed, c, f3, w0)"
      by (auto simp: LoadCacheFromFile_def not_exists_def Let_def)
    with f2 False show ?thesis by auto
  qed
qed

text \<open>A disk on which everything works, and texts for the records of the home network.\<close>

definition good_disk :: disk where
  "good_disk = \<lparr>mkdir_ok = (\<lambda>_. True), write_result = (\<lambda>_. Written), remove_ok = (\<lambda>_. True),
     read_ok = (\<lambda>_. True)\<rparr>"

definition home_codec :: "CacheSnapshot option codec" where
  "home_codec =
     \<lparr>rr_string = (\<lambda>rr. if rr = lan_rr then ''nas.home. 300 IN A 10.0.0.5'' else ''nas.home. 300 IN A 203.0.113.5''),
      new_rr = (\<lambda>s. if s = ''nas.home. 300 IN A 10.0.0.5'' then Some (Some lan_rr)
         else if s = ''nas.home. 300 IN A 203.0.113.5'' then Some (Some wan_rr)
         else if has_prefix s '';'' then Some None else None),
      encode_json = (\<lambda>s. Some (Some s)), decode_json = (\<lambda>b. b),
      test_data = None, empty_data = None, torn_data = None\<rparr>"

definition no_files :: "CacheSnapshot option fs" where
  "no_files = \<lparr>fs_dirs = {''/''}, fs_files = (\<lambda>_. None)\<rparr>"

definition home_running :: "((string \<times> RR list option \<times> nanos) list, (string \<times> string \<times> nanos) list) world" where
  "home_running = home_start\<lparr>DnsCache := [(''nas.home.:1'', Some [wan_rr], 20 * second),
     (''x.home.:1'', None, 20 * second)], accessTracker := [(''nas.home.:1'', nas_info)]\<rparr>"

lemma home_codec_laws: "codec_laws home_codec"
  by (simp add: codec_laws_def home_codec_def)

lemma home_readable: "list_all (readable home_codec) [wan_rr]"
  by (simp add: readable_def same_rr_def home_codec_def lan_rr_def wan_rr_def)

lemma home_persistence:
  "EnableCachePersistence home_config"
  "CachePersistenceFile home_config = ''/app/cache/dns_cache.json''"
  "CachePersistenceMaxAge home_config = hour"
  by (simp_all add: home_config_def pure_config_def unset_env)

lemma home_disk_works: "disk_works good_disk (CachePersistenceFile home_config)"
proof -
  have "test_file ''/app/cache/dns_cache.json'' = ''/app/cache/.cache_test''"
    by code_simp
  then show ?thesis
    by (simp add: disk_works_def good_disk_def home_persistence)
qed

lemma home_items:
  "gc_items (ce_dns home_env) (DnsCache home_running) second =
     [(''nas.home.:1'', Some [wan_rr], 20 * second), (''x.home.:1'', None, 20 * second)]"
  by (simp add: home_env_def home_running_def alist_cache_def alive_def unit_defs)

lemma home_no_nil: "\<not> prints_nil t (gc_items (ce_dns home_env) (DnsCache home_running) second)"
  unfolding home_items by (simp add: prints_nil_def nil_rr_def wan_rr_def)

lemma home_save:
  "\<exists>f1. SaveCacheToFile home_env good_disk home_codec second second home_running home_config no_files =
     (Inr (), home_config, f1)"
proof -
  obtain f' where "ensureCacheDir good_disk home_codec home_config no_files = (Inr (), home_config, f')"
    using ensure_works [OF home_disk_works] by blast
  then show ?thesis
    by (simp add: SaveCacheToFile_def home_persistence home_no_nil good_disk_def write_file_def
        home_codec_def Let_def)
qed

abbreviation home_clock :: load_clock where
  "home_clock \<equiv> \<lambda>k. (3 * second, 3 * second)"

lemma home_restart:
  "gocache_laws (ce_dns home_env)"
  "ascii_snapshot (take_snapshot home_codec home_config second
      (gc_items (ce_dns home_env) (DnsCache home_running) second) (accessTracker home_running))"
  "\<forall>(k, a, e) \<in> set (gc_items (ce_dns home_env) (DnsCache home_running) second). 0 < e"
  "2 * second - second \<le> CachePersistenceMaxAge home_config"
  unfolding home_items
  by (simp_all add: take_snapshot_def save_entry_def ascii_snapshot_def ascii_def home_codec_def home_running_def
      home_start_def GetAccessInfo_def nas_info_def unit_defs home_persistence home_env_def alist_cache_def
      alist_cache_laws [unfolded alist_cache_def])

lemma home_survivor:
  "survivor home_env (DnsCache home_running) second second (2 * second) home_clock ''nas.home.:1'' =
     Some ([wan_rr], 20 * second)"
  "survivor home_env (DnsCache home_running) second second (2 * second) home_clock ''x.home.:1'' = None"
  unfolding survivor_def gc_items_map [OF home_restart(1), symmetric] home_items by (simp_all add: unit_defs)


definition full_disk :: disk where
  "full_disk = good_disk\<lparr>write_result :=
     (\<lambda>p. if p = ''/app/cache/dns_cache.json'' then Write_fails else Written)\<rparr>"

lemma failed_save_loses_snapshot_witness:
  "\<exists>f2 f3. SaveCacheToFile home_env full_disk home_codec 0 0 home_running home_config no_files =
       (Inl EncodeFailed, home_config, f2) \<and>
     LoadCacheFromFile home_env full_disk home_codec (\<lambda>k. (0, 0)) 0 0 home_config f2 home_start =
       (Inl UnmarshalFailed, home_config, f3, home_start)"
proof -
  have t: "test_file ''/app/cache/dns_cache.json'' = ''/app/cache/.cache_test''"
    by code_simp
  have "prints_nil 0 (gc_items (ce_dns home_env) (DnsCache home_running) 0) = False"
    by (simp add: prints_nil_def nil_rr_def wan_rr_def home_env_def home_running_def
        alist_cache_def alive_def unit_defs)
  with failed_save_loses_snapshot [of home_config full_disk home_codec 0 home_env home_running 0 no_files
      "\<lambda>k. (0, 0)" 0 0 home_start]
  show ?thesis
    by (simp add: home_persistence full_disk_def good_disk_def home_codec_def usable_def t)
qed

section \<open>Records without a text\<close>

text \<open>
  A line that \<open>dns.NewRR\<close> takes for a comment, which is what a \<open>NULL\<close> record is saved as, is loaded as a
  nil record, and while this entry lives the next save panics.
\<close>

lemma comment_line_crashes_save:
  assumes "gocache_laws (ce_dns ce)" and "EnableCachePersistence c" and "fst (ensureCacheDir dsk cd c f) = Inr ()"
    and "Expiration entry = Some e" and "now \<le> e" and "fst (clock (Key entry)) < e"
    and "s \<in> set (Answers entry)" and "new_rr cd s = Some None"
  defines "x \<equiv> e + (snd (clock (Key entry)) - fst (clock (Key entry)))"
  assumes "t_items \<le> x" and "saved \<le> x"
  shows "fst (SaveCacheToFile ce dsk cd t_items saved (load_entry ce cd c' clock now entry w) c f) = Inl NilRecord"
proof -
  let ?w = "load_entry ce cd c' clock now entry w"
  let ?as = "List.map_filter (read_rr cd) (Answers entry)"
  have n: "nil_rr \<in> set ?as"
    using assms(7,8) by (force simp: List.map_filter_def read_rr_def)
  have "DnsCache ?w = gc_set (ce_dns ce) (DnsCache w) (snd (clock (Key entry))) (Key entry) (Some ?as)
      (e - fst (clock (Key entry)))"
    using assms(4-6) n by (auto simp: load_entry_def Let_def split: option.split)
  then have "gc_get_exp (ce_dns ce) (DnsCache ?w) t_items (Key entry) = Some (Some ?as, x)"
    using assms(6,10) by (simp add: gc_get_exp_set [OF assms(1)] x_def algebra_simps)
  then have "(Key entry, Some ?as, x) \<in> set (gc_items (ce_dns ce) (DnsCache ?w) t_items)"
    by (intro map_of_SomeD) (simp add: gc_items_map [OF assms(1)])
  then have "prints_nil saved (gc_items (ce_dns ce) (DnsCache ?w) t_items)"
    unfolding prints_nil_def list_ex_iff using n assms(11) by (intro bexI) auto
  then show ?thesis
    using assms(2,3) by (auto simp: SaveCacheToFile_def Let_def split: prod.splits sum.splits)
qed

end
