(* ===== verification/MetricsServer.thy ===== *)
theory MetricsServer
  imports SysMetrics Config
begin

text \<open>
  The rest of \<open>metric/metric.go\<close>: the Prometheus metrics of the program with the registration in
  \<open>init\<close>, and the HTTP server with its three routes.

  Prometheus is outside. What the code relies on is its documented rule that \<open>WithLabelValues\<close>
  panics unless it gets one value for each label of the metric, that a counter must not be
  decreased, and that registering needs valid names, each used once. \<open>op_typed\<close> states the rule for
  one call, and the first property shows that every call the program can make follows it. That
  label values must also be UTF-8 is left to the DNS library, which escapes other bytes of a name.
  Both histograms use the default buckets of Prometheus.

  The routes are those of \<open>http.ServeMux\<close> for patterns that are a path. A pattern with a method, a
  host, a wildcard or an escape (\<open>/%68ealth\<close> is \<open>/health\<close> for the mux) is not interpreted.
\<close>

section \<open>The metrics\<close>

datatype metric_kind = Counter | Gauge | Histogram

record collector =
  Kind :: metric_kind
  Name :: string
  Help :: string
  LabelNames :: "string list"

definition dnsQueriesTotal :: collector where
  "dnsQueriesTotal = \<lparr>Kind = Counter, Name = ''dns_queries_total'',
     Help = ''Total number of DNS queries processed'', LabelNames = [''type'', ''status'']\<rparr>"

definition dnsQueryDuration :: collector where
  "dnsQueryDuration = \<lparr>Kind = Histogram, Name = ''dns_query_duration_seconds'',
     Help = ''Duration of DNS queries in seconds'', LabelNames = [''type'', ''status'']\<rparr>"

definition cacheHitsTotal :: collector where
  "cacheHitsTotal = \<lparr>Kind = Counter, Name = ''dns_cache_hits_total'',
     Help = ''Total number of DNS cache hits'', LabelNames = []\<rparr>"

definition cacheMissesTotal :: collector where
  "cacheMissesTotal = \<lparr>Kind = Counter, Name = ''dns_cache_misses_total'',
     Help = ''Total number of DNS cache misses'', LabelNames = []\<rparr>"

definition cacheSize :: collector where
  "cacheSize = \<lparr>Kind = Gauge, Name = ''dns_cache_size'',
     Help = ''Current number of entries in DNS cache'', LabelNames = []\<rparr>"

definition upstreamQueriesTotal :: collector where
  "upstreamQueriesTotal = \<lparr>Kind = Counter, Name = ''dns_upstream_queries_total'',
     Help = ''Total number of queries sent to upstream DNS servers'', LabelNames = [''server'', ''status'']\<rparr>"

definition upstreamQueryDuration :: collector where
  "upstreamQueryDuration = \<lparr>Kind = Histogram, Name = ''dns_upstream_query_duration_seconds'',
     Help = ''Duration of upstream DNS queries in seconds'', LabelNames = [''server'', ''status'']\<rparr>"

definition upstreamServersReachable :: collector where
  "upstreamServersReachable = \<lparr>Kind = Gauge, Name = ''dns_upstream_servers_reachable'',
     Help = ''Whether upstream DNS servers are reachable (1 for reachable, 0 for unreachable)'',
     LabelNames = [''server'']\<rparr>"

definition upstreamServersTotal :: collector where
  "upstreamServersTotal = \<lparr>Kind = Gauge, Name = ''dns_upstream_servers_total'',
     Help = ''Total number of configured upstream DNS servers'', LabelNames = []\<rparr>"

definition serverUptime :: collector where
  "serverUptime = \<lparr>Kind = Counter, Name = ''dns_server_uptime_seconds_total'',
     Help = ''Total uptime of the DNS server in seconds'', LabelNames = []\<rparr>"

definition memoryUsage :: collector where
  "memoryUsage = \<lparr>Kind = Gauge, Name = ''dns_server_memory_usage_bytes'',
     Help = ''Memory usage of the DNS server in bytes'', LabelNames = []\<rparr>"

definition goroutineCount :: collector where
  "goroutineCount = \<lparr>Kind = Gauge, Name = ''dns_server_goroutines'',
     Help = ''Number of goroutines currently running'', LabelNames = []\<rparr>"

definition errorsTotal :: collector where
  "errorsTotal = \<lparr>Kind = Counter, Name = ''dns_errors_total'',
     Help = ''Total number of DNS errors'', LabelNames = [''type'', ''source'']\<rparr>"

definition deviceIPDNSQueries :: collector where
  "deviceIPDNSQueries = \<lparr>Kind = Gauge, Name = ''dns_device_ip_queries_total'',
     Help = ''Total number of DNS queries by device IP'', LabelNames = [''device_ip'']\<rparr>"

definition domainQueriesTotal :: collector where
  "domainQueriesTotal = \<lparr>Kind = Counter, Name = ''dns_domain_queries_total'',
     Help = ''Total number of DNS queries by domain'', LabelNames = [''domain'', ''status'']\<rparr>"

definition domainHitsTotal :: collector where
  "domainHitsTotal = \<lparr>Kind = Gauge, Name = ''dns_domain_hits_total'',
     Help = ''Total number of cache hits by domain'', LabelNames = [''domain'']\<rparr>"

lemmas collector_defs = dnsQueriesTotal_def dnsQueryDuration_def cacheHitsTotal_def cacheMissesTotal_def
  cacheSize_def upstreamQueriesTotal_def upstreamQueryDuration_def upstreamServersReachable_def
  upstreamServersTotal_def serverUptime_def memoryUsage_def goroutineCount_def errorsTotal_def
  deviceIPDNSQueries_def domainQueriesTotal_def domainHitsTotal_def

text \<open>What \<open>init\<close> registers, in its order, each under the name of its variable.\<close>

definition MustRegister_args :: "(string \<times> collector) list" where
  "MustRegister_args =
     [(''dnsQueriesTotal'', dnsQueriesTotal), (''dnsQueryDuration'', dnsQueryDuration),
      (''cacheHitsTotal'', cacheHitsTotal), (''cacheMissesTotal'', cacheMissesTotal),
      (''cacheSize'', cacheSize), (''upstreamQueriesTotal'', upstreamQueriesTotal),
      (''upstreamQueryDuration'', upstreamQueryDuration),
      (''upstreamServersReachable'', upstreamServersReachable),
      (''upstreamServersTotal'', upstreamServersTotal), (''serverUptime'', serverUptime),
      (''memoryUsage'', memoryUsage), (''goroutineCount'', goroutineCount), (''errorsTotal'', errorsTotal),
      (''deviceIPDNSQueries'', deviceIPDNSQueries), (''domainQueriesTotal'', domainQueriesTotal),
      (''domainHitsTotal'', domainHitsTotal)]"

section \<open>Calls on registered metrics\<close>

definition metric_var :: "string \<Rightarrow> collector option" where
  "metric_var = map_of MustRegister_args"

text \<open>
  A call gives one value per label, uses an operation that its kind of metric has, and does not
  decrease a counter.
\<close>

fun op_labels :: "prom_op \<Rightarrow> string list" where
  "op_labels (Inc v ls) = ls"
| "op_labels (Set v ls x) = ls"
| "op_labels (Observe v ls d) = ls"
| "op_labels (AddSeconds v d) = []"

definition has_kind :: "metric_kind \<Rightarrow> string \<Rightarrow> string list \<Rightarrow> bool" where
  "has_kind k v ls \<longleftrightarrow>
     (case metric_var v of Some c \<Rightarrow> Kind c = k \<and> length (LabelNames c) = length ls | None \<Rightarrow> False)"

fun op_typed :: "prom_op \<Rightarrow> bool" where
  "op_typed (Inc v ls) = has_kind Counter v ls"
| "op_typed (Set v ls x) = has_kind Gauge v ls"
| "op_typed (Observe v ls d) = has_kind Histogram v ls"
| "op_typed (AddSeconds v d) = (has_kind Counter v [] \<and> 0 \<le> d)"

text \<open>Names of metrics and labels as Prometheus documents them.\<close>

definition name_char :: "char \<Rightarrow> bool" where
  "name_char c \<longleftrightarrow> c \<in> set ''abcdefghijklmnopqrstuvwxyzABCDEFGHIJKLMNOPQRSTUVWXYZ_0123456789''"

definition valid_name :: "string \<Rightarrow> bool" where
  "valid_name s \<longleftrightarrow> s \<noteq> '''' \<and> list_all name_char s \<and> hd s \<notin> set ''0123456789''"

definition registrable :: "collector list \<Rightarrow> bool" where
  "registrable cs \<longleftrightarrow> distinct (map Name cs) \<and>
     list_all (\<lambda>c. valid_name (Name c) \<and> list_all valid_name (LabelNames c) \<and> distinct (LabelNames c)) cs"

lemma init_registers: "registrable (map snd MustRegister_args)"
  by code_simp

lemmas kind_lookup = has_kind_def metric_var_def MustRegister_args_def collector_defs

lemma processMetricUpdate_typed:
  "list_all op_typed (processMetricUpdate u)"
  by (simp add: processMetricUpdate_def kind_lookup Let_def)

lemma processMetricUpdate_labels_subset:
  "op \<in> set (processMetricUpdate u) \<Longrightarrow> set (op_labels op) \<subseteq> set (Labels u)"
  by (auto simp: processMetricUpdate_def Let_def split: if_splits intro!: nth_mem)

lemma flushUpdates_typed: "list_all op_typed (flushUpdates us)"
  using processMetricUpdate_typed by (induction us) (simp_all add: flushUpdates_Cons flushUpdates_def)

lemma sync_typed: "op \<in> set (syncAtomicCountersToPrometheus f) \<Longrightarrow> op_typed op \<and> op_labels op = []"
  by (auto simp: syncAtomicCountersToPrometheus_def update_builders processMetricUpdate_def metric_types
      kind_lookup split: if_splits)

lemma flush_if_full_applied:
  "set (applied (flush_if_full n b)) \<subseteq> set (applied b) \<union> set (flushUpdates (updates b))"
  by (auto simp: flush_if_full_def)

lemma flushUpdates_mono: "set us \<subseteq> set vs \<Longrightarrow> set (flushUpdates us) \<subseteq> set (flushUpdates vs)"
  by (auto simp: flushUpdates_def)

text \<open>A step applies updates of the batch and the channel, or the synchronised counters.\<close>

lemma batch_step_applied:
  "batch_step al n b b' \<Longrightarrow>
     set (applied b') \<subseteq> set (applied b) \<union> set (flushUpdates (updates b @ metricUpdates (rec b))) \<union>
       set (syncAtomicCountersToPrometheus (rec b))"
proof (induction rule: batch_step.induct)
  case (update b)
  show ?case
  proof (cases "metricUpdates (rec b)")
    case (Cons u ch)
    then show ?thesis
      using flush_if_full_applied [of n "b\<lparr>rec := (rec b)\<lparr>metricUpdates := ch\<rparr>, updates := updates b @ [u]\<rparr>"]
      by (auto simp: on_update_def flushUpdates_Cons [of u ch])
  qed (auto simp: on_update_def)
next
  case (tick b ord)
  show ?case
    by (auto simp: on_tick_def flush_if_full_def Let_def split: if_splits)
next
  case (shutdown b in_time b')
  have part: "set (flushUpdates (take k (metricUpdates (rec b)))) \<subseteq> set (flushUpdates (metricUpdates (rec b)))" for k
    by (rule flushUpdates_mono) (rule set_take_subset)
  from shutdown show ?case
    by (auto simp: on_done_eq Let_def split: if_splits dest: subsetD [OF part])
qed auto

definition ops_inv :: "batcher \<Rightarrow> bool" where
  "ops_inv b \<longleftrightarrow>
     (\<forall>op \<in> set (applied b). op_typed op \<and> set (op_labels op) \<subseteq> (\<Union>u \<in> set (sent (rec b)). set (Labels u)))"

lemma flushUpdates_labels:
  "op \<in> set (flushUpdates us) \<Longrightarrow> set (op_labels op) \<subseteq> (\<Union>u \<in> set us. set (Labels u))"
  using processMetricUpdate_labels_subset by (fastforce simp: flushUpdates_def)

lemma batch_step_sent: "batch_step al n b b' \<Longrightarrow> batch_inv b past \<Longrightarrow> set (sent (rec b)) \<subseteq> set (sent (rec b'))"
proof (induction rule: batch_step.induct)
  case (records b f)
  then obtain us where "extends_by (rec b) f us"
    using record_step_extends by blast
  then show ?case
    by (auto simp: extends_by_def)
next
  case (update b)
  then show ?case
    by (auto simp: on_update_def flush_if_full_def split: list.splits)
next
  case (tick b ord)
  obtain us where "extends_by (rec b) (FastUpdateDomainMetrics ord (FastUpdateDeviceIPMetrics ord (rec b))) us"
    using extends_counts extends_by_trans by metis
  then show ?case
    by (auto simp: on_tick_def flush_if_full_def extends_by_def Let_def)
next
  case (shutdown b in_time b')
  then show ?case
    by (auto simp: on_done_eq Let_def split: if_splits)
qed

lemma ops_inv_step:
  assumes "batch_step al n b b'" and "batch_inv b past" and "ops_inv b"
  shows "ops_inv b'"
  unfolding ops_inv_def
proof
  fix op assume "op \<in> set (applied b')"
  then consider "op \<in> set (applied b)" | "op \<in> set (flushUpdates (updates b @ metricUpdates (rec b)))"
    | "op \<in> set (syncAtomicCountersToPrometheus (rec b))"
    using batch_step_applied [OF assms(1)] by blast
  then have "op_typed op \<and> set (op_labels op) \<subseteq> (\<Union>u \<in> set (sent (rec b)). set (Labels u))"
  proof cases
    case 1
    with assms(3) show ?thesis by (simp add: ops_inv_def)
  next
    case 2
    then have "op_typed op"
      using flushUpdates_typed by (metis list_all_iff)
    moreover have "set (updates b @ metricUpdates (rec b)) \<subseteq> set (sent (rec b))"
      using assms(2) by (auto simp: batch_inv_def)
    ultimately show ?thesis
      using flushUpdates_labels [OF 2] by blast
  qed (use sync_typed in simp)
  then show "op_typed op \<and> set (op_labels op) \<subseteq> (\<Union>u \<in> set (sent (rec b')). set (Labels u))"
    using batch_step_sent [OF assms(1,2)] by blast
qed

lemma ops_reachable:
  assumes "(batch_step al n)\<^sup>*\<^sup>* (batch_start f) b" and "metricUpdates f = []" and "sent f = []"
  shows "ops_inv b"
proof -
  have "ops_inv b \<and> (\<exists>past. batch_inv b past)"
    using assms(1)
  proof (induction rule: rtranclp_induct)
    case base
    have "batch_inv (batch_start f) []"
      using assms(2,3) by (simp add: batch_inv_def batch_start_def)
    then show ?case
      by (auto simp: ops_inv_def batch_start_def)
  next
    case (step b b')
    then show ?case
      using ops_inv_step batch_step_inv by blast
  qed
  then show ?thesis by blast
qed

lemma updater_tick_typed:
  "0 \<le> interval \<Longrightarrow> op \<in> set (fst (updater_tick interval src t1 t2 t3 ord inst s)) \<Longrightarrow> op_typed op"
  by (auto simp: updater_tick_def updateSystemMetrics_def UpdateDeviceIPDNSMetrics_def UpdateDomainHitMetrics_def
      kind_lookup split: prod.splits option.splits)

text \<open>The keys of the two counter maps that the periodic update reads.\<close>

definition counted :: "recorder option \<Rightarrow> string set" where
  "counted inst =
     (case inst of None \<Rightarrow> {} | Some f \<Rightarrow> fst ` set (deviceIPCounts f) \<union> fst ` set (domainHitCounts f))"

lemma count_labels:
  "set (concat (map op_labels (UpdateDeviceIPDNSMetrics m))) = fst ` set m"
  "set (concat (map op_labels (UpdateDomainHitMetrics m))) = fst ` set m"
  by (induction m) (auto simp: UpdateDeviceIPDNSMetrics_def UpdateDomainHitMetrics_def)

lemma updater_tick_labels:
  assumes "\<And>m. set (ord m) = set m"
  shows "set (concat (map op_labels (fst (updater_tick interval src t1 t2 t3 ord inst s)))) = counted inst"
proof (cases inst)
  case None
  then show ?thesis
    by (simp add: updater_tick_def updateSystemMetrics_def counted_def split: prod.split)
next
  case (Some f)
  have "set (concat (map op_labels (UpdateDeviceIPDNSMetrics (ord (deviceIPCounts f)) @
      UpdateDomainHitMetrics (ord (domainHitCounts f))))) = counted inst"
    unfolding map_append concat_append set_append count_labels assms by (simp add: counted_def Some)
  then show ?thesis
    using Some by (simp add: updater_tick_def updateSystemMetrics_def split: prod.split)
qed

text \<open>
  C11: calls on Prometheus fit the registered metrics. The metrics of the program can all be registered, and in
  every reachable state of the recorder, whatever it was told to record, each call that has been
  applied, and each call of the periodic update, names a registered metric, uses an operation
  that its kind has, gives exactly one value for each of its labels and does not decrease a counter.
  No label value is made up: one of an applied call was in an accepted update, and those of
  the periodic update are exactly the clients and domains that the recorder has counted at that time.
\<close>

theorem prometheus_calls_typed:
  assumes "(batch_step al n)\<^sup>*\<^sup>* (batch_start f) b" and "metricUpdates f = []" and "sent f = []"
    and "0 < interval" and "\<And>m. set (ord m) = set m"
  shows "registrable (map snd MustRegister_args) \<and>
    list_all op_typed (applied b) \<and>
    list_all op_typed (fst (updater_tick interval src t1 t2 t3 ord inst s)) \<and>
    set (concat (map op_labels (applied b))) \<subseteq> set (concat (map Labels (sent (rec b)))) \<and>
    set (concat (map op_labels (fst (updater_tick interval src t1 t2 t3 ord inst s)))) =
      (case inst of None \<Rightarrow> {} | Some g \<Rightarrow> fst ` set (deviceIPCounts g) \<union> fst ` set (domainHitCounts g))"
  using ops_reachable [OF assms(1-3)] assms(4) init_registers updater_tick_typed [of interval]
    updater_tick_labels [of ord, OF assms(5)]
  by (auto simp: ops_inv_def list_all_iff counted_def)

theorem prometheus_calls_typed_witness:
  "\<exists>b. (batch_step roomy 500)\<^sup>*\<^sup>* (batch_start small_recorder) b \<and> applied b = [Inc ''cacheHitsTotal'' []] \<and>
     list_all op_typed (applied b)"
proof -
  let ?b = "batch_start small_recorder"
  let ?b1 = "?b\<lparr>rec := InlineCacheHit small_recorder\<rparr>"
  have "batch_step roomy 500 ?b ?b1"
    by (rule batch_step.records) (simp add: batch_start_def record_step.inline_hit)
  moreover have "batch_step roomy 500 ?b1 (on_tick 500 id ?b1)"
    by (rule batch_step.tick) (simp add: batch_start_def)
  ultimately have run: "(batch_step roomy 500)\<^sup>*\<^sup>* ?b (on_tick 500 id ?b1)"
    by simp
  moreover have "applied (on_tick 500 id ?b1) = [Inc ''cacheHitsTotal'' []]"
    by (simp add: on_tick_idle batch_start_def syncAtomicCountersToPrometheus_def update_builders
        processMetricUpdate_def metric_types InlineCacheHit_def small_recorder_def)
  moreover have "metricUpdates small_recorder = []" "sent small_recorder = []"
    by (simp_all add: small_recorder_def)
  moreover from prometheus_calls_typed [OF run this, of 1 id] have "list_all op_typed (applied (on_tick 500 id ?b1))"
    by simp
  ultimately show ?thesis by blast
qed

section \<open>Initialisation and the updater\<close>

text \<open>
  Package \<open>init\<close>, up to the registration: the interval of the updater and the cache of system
  metrics, which is filled at once.
\<close>

definition init_metrics ::
    "environ \<Rightarrow> sys_source \<Rightarrow> nanos \<Rightarrow> util_caches \<Rightarrow> (duration \<times> sys_cache) \<times> util_caches" where
  "init_metrics env src now u =
     (let (interval, u1) = GetEnvDuration env ''METRICS_UPDATE_INTERVAL'' (30 * second) u
      in ((interval, NewSystemMetricsCache (5 * second) src now), u1))"

text \<open>
  \<open>StartMetricsUpdater\<close> starts a goroutine whose ticker panics for an interval that is not positive;
  otherwise the ticks are \<open>updater_tick\<close>.
\<close>

definition StartMetricsUpdater :: "duration \<Rightarrow> bool" where
  "StartMetricsUpdater interval \<longleftrightarrow> 0 < interval"

section \<open>The HTTP server\<close>

datatype handler = PromHandler | HealthHandler | StatusHandler

record response =
  Status :: nat
  Header :: "(string \<times> string) list"
  Body :: string

definition healthResponse :: string where "healthResponse = ''OK''"

definition quote_str :: string where "quote_str = [CHR 0x22]"

definition statusResponse :: string where
  "statusResponse = ''{'' @ quote_str @ ''status'' @ quote_str @ '':'' @ quote_str @ ''running'' @ quote_str @
     '','' @ quote_str @ ''service'' @ quote_str @ '':'' @ quote_str @ ''dns-forwarder'' @ quote_str @ ''}''"

text \<open>What a handler sets and writes; the metrics page is made by Prometheus.\<close>

fun serve_http :: "handler \<Rightarrow> response option" where
  "serve_http PromHandler = None"
| "serve_http HealthHandler = Some \<lparr>Status = 200, Header = [], Body = healthResponse\<rparr>"
| "serve_http StatusHandler =
     Some \<lparr>Status = 200, Header = [(''Content-Type'', ''application/json'')], Body = statusResponse\<rparr>"

text \<open>
  Registering a pattern on the mux. A pattern with a method, a host, a wildcard or an escape like \<open>%68\<close>
  is \<open>Extended\<close>: what the mux does with it is not interpreted.
\<close>

datatype pattern = Path string | NoSlash | Extended string

definition parse_pattern :: "string \<Rightarrow> pattern" where
  "parse_pattern s =
     (if CHR ''/'' \<notin> set s then NoSlash
      else if hd s = CHR ''/'' \<and> set s \<inter> set ''{% '' = {} \<and> CHR 0x09 \<notin> set s then Path s
      else Extended s)"

datatype mux_panic = InvalidPattern | PatternConflict string | NotInterpreted string

type_synonym mux = "(string \<times> handler) list"

definition Handle :: "string \<Rightarrow> handler \<Rightarrow> mux \<Rightarrow> mux_panic + mux" where
  "Handle p h m =
     (case parse_pattern p of
        NoSlash \<Rightarrow> Inl InvalidPattern
      | Extended s \<Rightarrow> Inl (NotInterpreted s)
      | Path s \<Rightarrow> if map_of m s \<noteq> None then Inl (PatternConflict s) else Inr (m @ [(s, h)]))"

record metrics_server =
  Addr :: string
  Mux :: mux

definition StartMetricsServer ::
    "environ \<Rightarrow> util_caches \<Rightarrow> (mux_panic + metrics_server) \<times> util_caches" where
  "StartMetricsServer env u =
     (let (metricsPort, u1) = GetEnvString env ''METRICS_PORT'' '':8080'' u;
          (metricsPath, u2) = GetEnvString env ''METRICS_PATH'' ''/metrics'' u1
      in (case Handle metricsPath PromHandler [] of
            Inl e \<Rightarrow> Inl e
          | Inr m1 \<Rightarrow>
              (case Handle ''/health'' HealthHandler m1 of
                 Inl e \<Rightarrow> Inl e
               | Inr m2 \<Rightarrow>
                   (case Handle ''/status'' StatusHandler m2 of
                      Inl e \<Rightarrow> Inl e
                    | Inr m3 \<Rightarrow> Inr \<lparr>Addr = metricsPort, Mux = m3\<rparr>)), u2))"

text \<open>
  Which handler gets a request for a clean path: the pattern that is the path, else the longest
  pattern ending in a slash that the path starts with, else a redirect when only the path with a
  slash is a pattern.
\<close>

datatype routed = Handled handler | Redirected string | NotFound

definition subtree :: "string \<Rightarrow> string \<times> handler \<Rightarrow> bool" where
  "subtree path e \<longleftrightarrow> fst e \<noteq> '''' \<and> last (fst e) = CHR ''/'' \<and> prefix (fst e) path"

fun longest :: "mux \<Rightarrow> (string \<times> handler) option" where
  "longest [] = None"
| "longest (e # m) =
     (case longest m of None \<Rightarrow> Some e | Some b \<Rightarrow> if length (fst b) \<le> length (fst e) then Some e else Some b)"

definition route :: "mux \<Rightarrow> string \<Rightarrow> routed" where
  "route m path =
     (case map_of m path of
        Some h \<Rightarrow> Handled h
      | None \<Rightarrow>
          (if last path \<noteq> CHR ''/'' \<and> map_of m (path @ ''/'') \<noteq> None then Redirected (path @ ''/'')
           else case longest (filter (subtree path) m) of Some (_, h) \<Rightarrow> Handled h | None \<Rightarrow> NotFound))"

section \<open>The routes\<close>

lemma METRICS_PORT_cached:
  assumes "MustLoad env empty_caches = (Inr c, u)"
  shows "c = pure_config env" and "envStringCache u ''METRICS_PORT'' = Some (MetricsPort c)"
    and "envStringCache u ''METRICS_PATH'' = None"
proof -
  show c: "c = pure_config env"
    using assms MustLoad_fresh [of env] by (simp split: option.splits)
  have u: "u = snd (run_state (loadConfig env) empty_caches)"
    using assms by (auto simp: MustLoad_def Let_def split: prod.splits)
  show "envStringCache u ''METRICS_PORT'' = Some (MetricsPort c)" "envStringCache u ''METRICS_PATH'' = None"
    unfolding u c loadConfig_def Let_def
    by (simp_all add: run_bind env_str_def env_num_def env_dur_def env_flag_def env_fresh
        State_Monad.return_def pure_config_def)
qed

lemma parse_pattern_consts: "parse_pattern ''/health'' = Path ''/health''" "parse_pattern ''/status'' = Path ''/status''"
  by (simp_all add: parse_pattern_def)

lemma parse_pattern_Path: "parse_pattern s = Path p \<Longrightarrow> p = s \<and> hd s = CHR ''/'' \<and> s \<noteq> ''''"
  by (auto simp: parse_pattern_def split: if_splits)

lemma StartMetricsServer_eq:
  assumes "MustLoad env empty_caches = (Inr c, u)"
  defines "P \<equiv> env_string env ''METRICS_PATH'' ''/metrics''"
  shows "fst (StartMetricsServer env u) =
     (case parse_pattern P of
        NoSlash \<Rightarrow> Inl InvalidPattern
      | Extended s \<Rightarrow> Inl (NotInterpreted s)
      | Path p \<Rightarrow> if P \<in> {''/health'', ''/status''} then Inl (PatternConflict P)
          else Inr \<lparr>Addr = MetricsPort c,
            Mux = [(P, PromHandler), (''/health'', HealthHandler), (''/status'', StatusHandler)]\<rparr>)"
proof -
  note u = METRICS_PORT_cached [OF assms(1)]
  have "GetEnvString env ''METRICS_PORT'' '':8080'' u = (MetricsPort c, u)"
    using u(2) by (simp add: GetEnvString_def)
  moreover have "fst (GetEnvString env ''METRICS_PATH'' ''/metrics'' u) = P"
    using u(3) by (simp add: GetEnvString_fresh P_def)
  ultimately show ?thesis
    by (auto simp: StartMetricsServer_def Handle_def parse_pattern_consts case_prod_beta Let_def
        split: pattern.splits dest: parse_pattern_Path)
qed

lemma longest_single: "longest (filter f [e]) = (if f e then Some e else None)"
  by simp

text \<open>
  The metrics server. With the caches that loading the configuration leaves, the server starts
  exactly when \<open>METRICS_PATH\<close> is a path other than the two fixed ones (a value without a slash or equal
  to one of them panics at start-up); it then listens on the configured port, the fixed routes and
  the metrics path reach their handlers whatever the path is, and any other path is not found
  unless it is below a metrics path that ends in a slash.
\<close>

theorem StartMetricsServer_spec:
  assumes "MustLoad env empty_caches = (Inr c, u)"
  defines "P \<equiv> env_string env ''METRICS_PATH'' ''/metrics''"
  shows "case fst (StartMetricsServer env u) of
      Inl e \<Rightarrow> CHR ''/'' \<notin> set P \<and> e = InvalidPattern \<or> P \<in> {''/health'', ''/status''} \<and> e = PatternConflict P \<or>
        (\<exists>s. parse_pattern P = Extended s \<and> e = NotInterpreted s)
    | Inr srv \<Rightarrow> Addr srv = MetricsPort c \<and> parse_pattern P = Path P \<and>
        route (Mux srv) P = Handled PromHandler \<and>
        route (Mux srv) ''/health'' = Handled HealthHandler \<and> route (Mux srv) ''/status'' = Handled StatusHandler \<and>
        (\<forall>q. q \<notin> {P, ''/health'', ''/status''} \<longrightarrow>
           route (Mux srv) q =
             (if last q \<noteq> CHR ''/'' \<and> P = q @ ''/'' then Redirected P
              else if last P = CHR ''/'' \<and> prefix P q then Handled PromHandler else NotFound))"
proof (cases "parse_pattern P")
  case (Path p)
  note p = parse_pattern_Path [OF Path]
  show ?thesis
    unfolding StartMetricsServer_eq [OF assms(1), folded P_def] Path
    using p Path by (auto simp: route_def subtree_def)
next
  case NoSlash
  then show ?thesis
    unfolding StartMetricsServer_eq [OF assms(1), folded P_def]
    by (auto simp: parse_pattern_def split: if_splits)
next
  case (Extended s)
  then show ?thesis
    unfolding StartMetricsServer_eq [OF assms(1), folded P_def] by simp
qed

theorem StartMetricsServer_spec_witness:
  "\<exists>c u srv. MustLoad (\<lambda>_. '''') empty_caches = (Inr c, u) \<and> fst (StartMetricsServer (\<lambda>_. '''') u) = Inr srv \<and>
     Addr srv = '':8080'' \<and> route (Mux srv) ''/metrics'' = Handled PromHandler \<and> route (Mux srv) ''/x'' = NotFound"
proof -
  obtain u where u: "MustLoad (\<lambda>_. '''') empty_caches = (Inr (pure_config (\<lambda>_. '''')), u)"
    using default_config_loads by (metis prod.collapse METRICS_PORT_cached(1))
  have "fst (StartMetricsServer (\<lambda>_. '''') u) \<noteq> Inl e" for e
    unfolding StartMetricsServer_eq [OF u] by (simp add: unset_env parse_pattern_def)
  then obtain srv where srv: "fst (StartMetricsServer (\<lambda>_. '''') u) = Inr srv"
    by (metis sum.exhaust)
  have "MetricsPort (pure_config (\<lambda>_. '''')) = '':8080''"
    by (simp add: pure_config_def unset_env)
  with StartMetricsServer_spec [OF u] srv u show ?thesis
    by (intro exI [of _ "pure_config (\<lambda>_. '''')"] exI [of _ u] exI [of _ srv]) (simp add: unset_env)
qed

end
