(* ===== verification/Server.thy ===== *)
theory Server
  imports Persistence MetricsServer
begin

text \<open>
  The program, \<open>main.go\<close>: the query handler, the start-up order with its panics, and the running
  server as a step relation that composes all components.

  The DNS library is outside: \<open>set_reply\<close> stands for \<open>Msg.SetReply\<close> and \<open>type_name\<close> for
  \<open>TypeToString\<close>. The message of a reply comes from a pool; \<open>pooled\<close> is its header and question
  section, which \<open>set_reply\<close> may change or leave. (No message in the pool holds answers. What the
  pool can hold is the subject of theory \<open>MsgPool\<close>.)

  The check of the cache directory may replace the path of the cache file in the configuration.
  No other component reads this field, so the path is kept apart from the configuration the
  others use.
\<close>

section \<open>The query handler\<close>

text \<open>\<open>'h\<close> is the header of a message with its identifier, operation code and flags, as the library has it.\<close>

record 'h request =
  ReqHdr :: 'h
  Question :: "(string \<times> u16) list"
  RemoteAddr :: net_addr

record 'h reply =
  MsgHdr :: 'h
  Authoritative :: bool
  Answer :: "RR list option"

text \<open>The clock of a request, and whether writing the response succeeds.\<close>

record request_run =
  run_start :: nanos
  run_call :: call_times
  run_end :: nanos
  write_ok :: bool

definition ServeDNS ::
    "('h \<Rightarrow> 'h request \<Rightarrow> 'h) \<Rightarrow> (u16 \<Rightarrow> string) \<Rightarrow> ('c, 'd) cache_env \<Rightarrow> arp_world \<Rightarrow> request_run \<Rightarrow>
     'h request \<Rightarrow> 'h \<Rightarrow> ('c, 'd) world \<Rightarrow> (client_panic + 'h reply) \<times> ('c, 'd) world" where
  "ServeDNS set_reply type_name ce aw run r pooled w =
     (let on = EnableMetrics (env_cfg (ce_res ce));
          timer = StartDNSQueryTimer on (run_start run);
          msg = \<lparr>MsgHdr = set_reply pooled r, Authoritative = True, Answer = None\<rparr>;
          (processed, w1) =
            (case Question r of
               [] \<Rightarrow> (Inr (msg, ''unknown'', ''no_questions'', '''', ''''), w)
             | (domain, qt) # _ \<Rightarrow>
                 let clientIP = GetClientIP (RemoteAddr r)
                 in case ResolverWithCache ce aw (run_call run) domain qt clientIP w of
                      (Inl p, w1) \<Rightarrow> (Inl p, w1)
                    | (Inr (Some rrs), w1) \<Rightarrow>
                        (Inr (msg\<lparr>Answer := Some rrs\<rparr>, type_name qt, ''success'', clientIP, domain), w1)
                    | (Inr None, w1) \<Rightarrow>
                        (Inr (msg, type_name qt, ''no_answers'', clientIP, domain), w1))
      in case processed of
           Inl p \<Rightarrow> (Inl p, w1)
         | Inr (reply, queryType, queryStatus, clientIP, domain) \<Rightarrow>
             (Inr reply,
              if on then
                let duration = Elapsed timer (run_end run);
                    m = FastRecordDNSQueryWithDeviceIPAndDomain queryType queryStatus clientIP domain duration (metrics w1)
                in w1\<lparr>metrics := (if write_ok run then m
                       else FastRecordError ''dns_response_write_failed'' ''dns_handler'' m)\<rparr>
              else w1))"

section \<open>Start-up\<close>

text \<open>What can stop the process while it starts.\<close>

datatype start_panic =
  BadTicker ticker_panic | NegativeSemaphore int | RecorderPanic metrics_panic | NilRecorder
| MuxPanic mux_panic | BadUpdateInterval duration | BadReloadInterval duration

record tickers =
  persistenceTicker :: bool
  staleUpdaterTicker :: bool

text \<open>
  What start-up reads from outside: the disk, the file format and the clock of the loader, the
  environment, what memory there is, the metrics interval of the package variable, and what the
  routing folder gives.
\<close>

record 'b boot =
  boot_disk :: disk
  boot_codec :: "'b codec"
  boot_clock :: load_clock
  boot_age :: nanos
  boot_now :: nanos
  boot_env :: environ
  boot_alloc :: allocator
  boot_interval :: duration
  boot_loaded :: "load_error + table"

text \<open>
  \<open>cache.Init\<close>: a new cache and tracker, the stale updater, then what the file holds (a failed
  load is only logged), then the periodic saving.
\<close>

definition Init ::
    "('c, 'd) cache_env \<Rightarrow> 'b boot \<Rightarrow> Config \<Rightarrow> 'b fs \<Rightarrow> ('c, 'd) world \<Rightarrow>
     (start_panic + tickers) \<times> Config \<times> 'b fs \<times> ('c, 'd) world" where
  "Init ce bt c f w =
     (let w1 = w\<lparr>DnsCache := gc_new (ce_dns ce) (DefaultDNSCacheTTL ce), accessTracker := NewAccessTracker\<rparr>
      in if EnableStaleUpdater c \<and> StaleUpdateMaxConcurrent c < 0
         then (Inl (NegativeSemaphore (StaleUpdateMaxConcurrent c)), c, f, w1)
         else case StartStaleUpdater c of
           Inl p \<Rightarrow> (Inl (BadTicker p), c, f, w1)
         | Inr stale \<Rightarrow>
             let (_, c1, f1, w2) =
                   LoadCacheFromFile ce (boot_disk bt) (boot_codec bt) (boot_clock bt) (boot_age bt) (boot_now bt) c f w1
             in case StartCachePersistence (boot_disk bt) (boot_codec bt) c1 f1 of
                  (Inl p, c2, f2) \<Rightarrow> (Inl (BadTicker p), c2, f2, w2)
                | (Inr saving, c2, f2) \<Rightarrow>
                    (Inr \<lparr>persistenceTicker = saving, staleUpdaterTicker = stale\<rparr>, c2, f2, w2))"

text \<open>
  The background services that \<open>StartDNSServer\<close> starts after the initialisation; a panic in the
  goroutine of the metrics updater stops the process as well.
\<close>

definition start_services ::
    "'b boot \<Rightarrow> Config \<Rightarrow> util_caches \<Rightarrow> start_panic + metrics_server option" where
  "start_services bt c u =
     (case StartCacheStatsLogger c of
        Inl p \<Rightarrow> Inl (BadTicker p)
      | Inr _ \<Rightarrow>
          if \<not> EnableMetrics c then Inr None
          else case fst (StartMetricsServer (boot_env bt) u) of
            Inl p \<Rightarrow> Inl (MuxPanic p)
          | Inr srv \<Rightarrow>
              if StartMetricsUpdater (boot_interval bt) then Inr (Some srv)
              else Inl (BadUpdateInterval (boot_interval bt)))"

text \<open>
  \<open>StartDNSServer\<close> up to the start of the listener. The recorder is made first, as an argument of
  \<open>Init\<close>. What the process leaves when it panics is what the disk holds. The goroutine that reloads
  the routes, like the one of the metrics updater, stops the process when its ticker panics; what
  start-up does in the meantime is on no file, so the model stops there.
\<close>

definition StartDNSServer ::
    "('c, 'd) cache_env \<Rightarrow> 'b boot \<Rightarrow> metrics_global \<Rightarrow> Config \<Rightarrow> 'b fs \<Rightarrow> ('c, 'd) world \<Rightarrow>
     (start_panic + tickers \<times> metrics_server option) \<times> Config \<times> 'b fs \<times> ('c, 'd) world" where
  "StartDNSServer ce bt g c f w =
     (case GetFastMetricsInstance (boot_env bt) (boot_alloc bt) g of
        (Inl p, _) \<Rightarrow> (Inl (RecorderPanic p), c, f, w)
      | (Inr None, _) \<Rightarrow> (Inl NilRecorder, c, f, w)
      | (Inr (Some (recorder, _)), g1) \<Rightarrow>
          (case Init ce bt c f (w\<lparr>metrics := recorder\<rparr>) of
             (Inl p, c1, f1, w1) \<Rightarrow> (Inl p, c1, f1, w1)
           | (Inr ticks, c1, f1, w1) \<Rightarrow>
               let w2 = w1\<lparr>sources := (InitDNSSource c (fst (sources w1)), snd (sources w1))\<rparr>
               in case StartDNSServersUpdate c of
                    Inl p \<Rightarrow> (Inl (BadTicker p), c1, f1, w2)
                  | Inr _ \<Rightarrow>
                      let w3 = w2\<lparr>routing := InitializeDomainRouting c (boot_loaded bt) (routing w2)\<rparr>;
                          w4 = w3\<lparr>sources := (fst (sources w3),
                                 InitializeClientRouting (env_gocache (ce_res ce)) c (snd (sources w3)))\<rparr>
                      in if refresh_panic (routing w4) then (Inl (BadReloadInterval (reload_interval c)), c1, f1, w4)
                         else case start_services bt c (metrics_caches g1) of
                           Inl p \<Rightarrow> (Inl p, c1, f1, w4)
                         | Inr http \<Rightarrow> (Inr (ticks, http), c1, f1, w4)))"

text \<open>\<open>cache.Cleanup\<close> at shutdown.\<close>

definition Cleanup ::
    "('c, 'd) cache_env \<Rightarrow> disk \<Rightarrow> 'b codec \<Rightarrow> nanos \<Rightarrow> nanos \<Rightarrow> ('c, 'd) world \<Rightarrow> tickers \<Rightarrow> Config \<Rightarrow> 'b fs \<Rightarrow>
     tickers \<times> (persist_error + unit) \<times> Config \<times> 'b fs" where
  "Cleanup ce dsk cd t_items now w ticks c f =
     (case StopCachePersistence ce dsk cd t_items now w (persistenceTicker ticks) c f of
        (saving, r, c1, f1) \<Rightarrow>
          (\<lparr>persistenceTicker = saving, staleUpdaterTicker = StopStaleUpdater (staleUpdaterTicker ticks)\<rparr>, r, c1, f1))"

text \<open>The state before start-up: the package variables.\<close>

definition boot_world :: "'c \<Rightarrow> recorder \<Rightarrow> ('c, 'd) world" where
  "boot_world nothing m = \<lparr>DnsCache = nothing, accessTracker = [], metrics = m,
     sources = (source_init, client_init),
     resolver = \<lparr>dnsUsageStats = (\<lambda>_. None), contacted = [], recorded = []\<rparr>, routing = routing_init\<rparr>"

section \<open>The running server\<close>

text \<open>
  Requests, the stale updater, health checks, reloads of the routing table, and changes of the
  metrics by the background goroutines, in any order.
\<close>

inductive server_step ::
    "('h \<Rightarrow> 'h request \<Rightarrow> 'h) \<Rightarrow> (u16 \<Rightarrow> string) \<Rightarrow> ('c, 'd) cache_env \<Rightarrow> ('c, 'd) updater \<Rightarrow> ('c, 'd) updater \<Rightarrow> bool"
  for set_reply type_name ce where
  request: "server_step set_reply type_name ce s
    (s\<lparr>su_world := snd (ServeDNS set_reply type_name ce aw run r pooled (su_world s))\<rparr>)"
| updater: "updater_step type_name ce s s' \<Longrightarrow> server_step set_reply type_name ce s s'"
| health: "source_step (env_cfg (ce_res ce)) (fst (sources (su_world s))) src \<Longrightarrow>
    server_step set_reply type_name ce s
      (s\<lparr>su_world := (su_world s)\<lparr>sources := (src, snd (sources (su_world s)))\<rparr>\<rparr>)"
| reload: "routing_step (env_cfg (ce_res ce)) (routing (su_world s)) rs \<Longrightarrow>
    server_step set_reply type_name ce s (s\<lparr>su_world := (su_world s)\<lparr>routing := rs\<rparr>\<rparr>)"
| flush: "server_step set_reply type_name ce s (s\<lparr>su_world := (su_world s)\<lparr>metrics := m\<rparr>\<rparr>)"

section \<open>No panic, and only allowed servers\<close>

definition configured :: "Config \<Rightarrow> string \<Rightarrow> bool" where
  "configured c v \<longleftrightarrow> v \<in> set (PrivateServers c) \<or> v \<in> set (PublicServers c)"

definition routed :: "('c, 'd) world \<Rightarrow> string \<Rightarrow> string \<Rightarrow> bool" where
  "routed w d v \<longleftrightarrow> map_of (GetRoutingTable (routing w)) d = Some v"

text \<open>
  A server in order, relative to the servers \<open>A d v\<close> that may be asked for a domain: they include the
  configured ones and the present routes, and every server that was asked is one of them.
\<close>

definition server_ok :: "('c, 'd) cache_env \<Rightarrow> (string \<Rightarrow> string \<Rightarrow> bool) \<Rightarrow> ('c, 'd) world \<Rightarrow> bool" where
  "server_ok ce A w \<longleftrightarrow> source_ok (env_cfg (ce_res ce)) (sources w) \<and> routing_inv (routing w) \<and>
     (\<forall>d v. configured (env_cfg (ce_res ce)) v \<or> routed w d v \<longrightarrow> A d v) \<and>
     (\<forall>v \<in> set (contacted (resolver w)). \<exists>d. A d v)"

lemma server_ok_cong:
  "server_ok ce A w \<Longrightarrow> sources w' = sources w \<Longrightarrow> routing w' = routing w \<Longrightarrow> resolver w' = resolver w \<Longrightarrow>
     server_ok ce A w'"
  by (simp add: server_ok_def routed_def)

lemma server_ok_mono:
  "server_ok ce A w \<Longrightarrow> (\<And>d v. A d v \<Longrightarrow> B d v) \<Longrightarrow> server_ok ce B w"
  unfolding server_ok_def by blast

text \<open>Another routing table brings its routes.\<close>

lemma server_ok_reload:
  assumes "server_ok ce A w" and "routing_inv rs" and "\<And>d v. A d v \<Longrightarrow> B d v"
    and "\<And>d v. routed (w\<lparr>routing := rs\<rparr>) d v \<Longrightarrow> B d v"
  shows "server_ok ce B (w\<lparr>routing := rs\<rparr>)"
  using assms(1,2) assms(3,4) unfolding server_ok_def by auto blast+

lemma resolve_query_ok:
  assumes "server_ok ce A w"
  shows "\<exists>a w1. resolve_query ce t d qt ip w = (Inr a, w1) \<and> server_ok ce A w1"
proof -
  let ?e = "ce_res ce"
  let ?m = "prepareDNSQuery (env_fqdn ?e) d qt"
  have ok: "source_ok (env_cfg ?e) (sources w)" and rt: "routing_inv (routing w)"
    and known: "\<And>v d. configured (env_cfg ?e) v \<Longrightarrow> A d v" and way: "\<And>v d. routed w d v \<Longrightarrow> A d v"
    and al: "\<And>v. v \<in> set (contacted (resolver w)) \<Longrightarrow> \<exists>d. A d v"
    using assms unfolding server_ok_def by blast+
  have client: "\<exists>a src rs. ResolverForClient ?e t d qt ip (sources w) (resolver w) = (Inr a, src, rs) \<and>
      source_ok (env_cfg ?e) src \<and> (\<forall>v \<in> set (contacted rs). \<exists>d. A d v)"
  proof -
    obtain privs pubs src' where src': "source_ok (env_cfg ?e) src'"
      and sv: "servers_for (fst (sources w)) (EnableClientRouting (env_cfg ?e) \<and>
         public_only (env_cfg ?e) ip (mac_seen (env_gocache ?e) (fst t) (snd t) ip (snd (sources w)))) = (privs, pubs)"
      and res: "ResolverForClient ?e t d qt ip (sources w) (resolver w) =
         (let u = upstreamDNSQuery (env_cfg ?e) (env_net ?e) privs pubs ?m (resolver w)
          in (Inr (fst u), src', snd u))"
      using ok by (rule ResolverForClient_eq)
    let ?u = "upstreamDNSQuery (env_cfg ?e) (env_net ?e) privs pubs ?m (resolver w)"
    have "set privs \<union> set pubs \<subseteq> set (PrivateServers (env_cfg ?e)) \<union> set (PublicServers (env_cfg ?e))"
      using ok by (intro servers_for_known(1) [OF _ sv]) (simp add: source_ok_def)
    moreover obtain k where "contacted (snd ?u) = contacted (resolver w) @ take k (privs @ pubs)"
      using upstream_contacts by blast
    ultimately have "v \<in> set (contacted (resolver w)) \<or> configured (env_cfg ?e) v" if "v \<in> set (contacted (snd ?u))" for v
      using that by (auto simp: configured_def dest!: in_set_takeD)
    then have "\<forall>v \<in> set (contacted (snd ?u)). \<exists>d. A d v"
      using al known by blast
    with res src' show ?thesis
      by (auto simp: Let_def)
  qed
  have "\<exists>a src rs. ResolverForDomain ?e t (routing w) d qt ip (sources w) (resolver w) = (Inr a, src, rs) \<and>
      source_ok (env_cfg ?e) src \<and> (\<forall>v \<in> set (contacted rs). \<exists>d. A d v)"
  proof (cases "map_of (GetRoutingTable (routing w)) d")
    case None
    with client show ?thesis
      by (simp add: ResolverForDomain_def)
  next
    case (Some svr)
    then have "\<exists>d. A d svr"
      using way by (auto simp: routed_def)
    with Some al ok show ?thesis
      using exchange_result(2) [of "env_cfg ?e" "env_net ?e" ?m svr "resolver w"]
      by (auto simp: ResolverForDomain_def single_server Let_def)
  qed
  with client obtain a src rs where
    r: "(if DomainRoutingOn ce then ResolverForDomain ?e t (routing w) d qt ip (sources w) (resolver w)
         else ResolverForClient ?e t d qt ip (sources w) (resolver w)) = (Inr a, src, rs)"
      "source_ok (env_cfg ?e) src" "\<forall>v \<in> set (contacted rs). \<exists>d. A d v"
    by (cases "DomainRoutingOn ce") auto
  then show ?thesis
    using rt known way by (auto simp: resolve_query_def server_ok_def routed_def)
qed

lemma query_counts:
  "dnsQueriesCount (try_send u f) = dnsQueriesCount f"
  "dnsQueriesCount (FastRecordCacheMiss f) = dnsQueriesCount f"
  "dnsQueriesCount (FastRecordError e src f) = dnsQueriesCount f"
  "dnsQueriesCount (metrics (on_hit ce now key d qt w)) = dnsQueriesCount (metrics w)"
  "dnsQueriesCount (FastRecordDNSQueryWithDeviceIPAndDomain q st ip d t f) = dnsQueriesCount f + 1"
  by (simp_all add: try_send_def FastRecordCacheMiss_def FastRecordError_def on_hit_def InlineCacheHit_def
      InlineCacheHitWithDomain_def incrementDomainHitCount_def incrementDeviceIPCount_def
      incrementDomainQueryCount_def FastRecordDNSQueryWithDeviceIPAndDomain_def Let_def case_prod_beta)

definition lookups :: "recorder \<Rightarrow> u64" where
  "lookups f = cacheHitsCount f + cacheMissesCount f"

lemma lookup_counts:
  "lookups (FastRecordCacheMiss f) = lookups f + 1"
  "lookups (FastRecordError e src f) = lookups f"
  "lookups (metrics (on_hit ce now key d qt w)) = lookups (metrics w) + (if MetricsOn ce then 1 else 0)"
  "lookups (FastRecordDNSQueryWithDeviceIPAndDomain q st ip d t f) = lookups f"
  by (simp_all add: lookups_def try_send_def FastRecordCacheMiss_def FastRecordError_def on_hit_def InlineCacheHit_def
      InlineCacheHitWithDomain_def incrementDomainHitCount_def incrementDeviceIPCount_def
      incrementDomainQueryCount_def FastRecordDNSQueryWithDeviceIPAndDomain_def Let_def case_prod_beta)

lemma ResolverWithCache_ok:
  assumes "server_ok ce A w"
  shows "\<exists>a w1. ResolverWithCache ce aw tm d qt ip w = (Inr a, w1) \<and> server_ok ce A w1 \<and>
    dnsQueriesCount (metrics w1) = dnsQueriesCount (metrics w) \<and>
    lookups (metrics w1) = lookups (metrics w) + (if MetricsOn ce then 1 else 0)"
proof (cases "LoadFromCache ce (t_get tm) (CacheKey (env_fqdn (ce_res ce)) d qt) (DnsCache w)")
  case None
  obtain a w1 where "resolve_query ce (aw, t_resolve tm) d qt ip w = (Inr a, w1)" "server_ok ce A w1"
    using resolve_query_ok [OF assms] by blast
  moreover from this(1) have "dnsQueriesCount (metrics w1) = dnsQueriesCount (metrics w)" "lookups (metrics w1) = lookups (metrics w)"
    by (simp_all add: resolve_query_counts lookups_def)
  ultimately show ?thesis
    using None by (auto simp: ResolverWithCache_def Let_def query_counts lookup_counts intro: server_ok_cong)
next
  case (Some a)
  with assms show ?thesis
    by (auto simp: ResolverWithCache_def Let_def query_counts lookup_counts intro: server_ok_cong)
qed

lemma ServeDNS_ok:
  assumes "server_ok ce A w"
  shows "\<exists>reply w1. ServeDNS set_reply type_name ce aw run r pooled w = (Inr reply, w1) \<and> server_ok ce A w1 \<and>
    MsgHdr reply = set_reply pooled r \<and> Authoritative reply \<and> (Question r = [] \<longrightarrow> Answer reply = None) \<and>
    (EnableMetrics (env_cfg (ce_res ce)) \<longrightarrow> dnsQueriesCount (metrics w1) = dnsQueriesCount (metrics w) + 1) \<and>
    lookups (metrics w1) = lookups (metrics w) + (if MetricsOn ce \<and> Question r \<noteq> [] then 1 else 0)"
proof (cases "Question r")
  case Nil
  with assms show ?thesis
    by (auto simp: ServeDNS_def Let_def query_counts lookup_counts intro: server_ok_cong)
next
  case (Cons q qs)
  obtain d qt where q: "q = (d, qt)" by (cases q)
  obtain a w1 where "ResolverWithCache ce aw (run_call run) d qt (GetClientIP (RemoteAddr r)) w = (Inr a, w1)"
    "server_ok ce A w1" "dnsQueriesCount (metrics w1) = dnsQueriesCount (metrics w)"
    "lookups (metrics w1) = lookups (metrics w) + (if MetricsOn ce then 1 else 0)"
    using ResolverWithCache_ok [OF assms] by blast
  with Cons q show ?thesis
    by (cases a) (auto simp: ServeDNS_def Let_def query_counts lookup_counts intro: server_ok_cong)
qed

lemma refresh_ok:
  assumes "refresh_resolve ce t key w = (r, w1)" and "server_ok ce A w"
  shows "server_ok ce A w1"
  using assms resolve_query_ok [OF assms(2), of t _ _ "''127.0.0.1''"]
  by (auto simp: refresh_resolve_def split: option.splits prod.splits sum.splits) (metis prod.inject)+

lemma updater_ok:
  assumes "updater_step type_name ce s s'" and "server_ok ce A (su_world s)"
  shows "server_ok ce A (su_world s')"
  using assms
proof (induction rule: updater_step.induct)
  case (call s cl)
  obtain aw tm d qt ip where cl: "cl = (aw, tm, d, qt, ip)" by (cases cl) auto
  show ?case
    using ResolverWithCache_ok [OF call, of aw tm d qt ip] by (auto simp: cl serve_call_def)
next
  case (stored i s key qt answers now)
  then show ?case
    by (auto simp: refresh_store_def Let_def intro: server_ok_cong)
qed (auto simp: updateStaleEntries_def scan_key_def Let_def intro: server_ok_cong dest: refresh_ok
    split: option.split)

lemma server_ok_health:
  "server_ok ce A w \<Longrightarrow> source_step (env_cfg (ce_res ce)) (fst (sources w)) src \<Longrightarrow>
     server_ok ce A (w\<lparr>sources := (src, snd (sources w))\<rparr>)"
  using source_inv_step by (auto simp: server_ok_def source_ok_def routed_def)

text \<open>A step may bring new routes, which may then be asked.\<close>

lemma server_step_ok:
  assumes "server_step set_reply type_name ce s s'" and "server_ok ce A (su_world s)"
    and "\<And>d v. A d v \<Longrightarrow> B d v" and "\<And>d v. valid_upstream v \<Longrightarrow> routed (su_world s') d v \<Longrightarrow> B d v"
  shows "server_ok ce B (su_world s')"
  using assms
proof (induction rule: server_step.induct)
  case (request s aw run r pooled)
  then show ?case
    using ServeDNS_ok [of ce A "su_world s" set_reply type_name aw run r pooled] server_ok_mono [of ce A _ B] by auto
next
  case (updater s s')
  then show ?case
    using updater_ok server_ok_mono [of ce A _ B] by blast
next
  case (health s src)
  then show ?case
    using server_ok_mono [OF server_ok_health [OF health.prems(1) health.hyps] health.prems(2)] by simp
next
  case (reload s rs)
  then have inv: "routing_inv rs"
    using routing_inv_step unfolding server_ok_def by blast
  have "valid_upstream v" if "routed (su_world s\<lparr>routing := rs\<rparr>) d v" for d v
    using that table_routes.route_valid [OF inv] by (simp add: routed_def route_lookup_def)
  with reload inv show ?case
    using server_ok_reload [of ce A "su_world s" rs B] by simp
next
  case (flush s m)
  then show ?case
    using server_ok_mono [OF server_ok_cong, of ce A "su_world s" _ B] by simp
qed

section \<open>Start-up gives a server that is in order\<close>

lemma load_entry_same:
  "sources (load_entry ce cd c clock now e w) = sources w \<and> routing (load_entry ce cd c clock now e w) = routing w \<and>
     resolver (load_entry ce cd c clock now e w) = resolver w"
  by (simp add: load_entry_def Let_def split: option.split)

lemma load_entries_same:
  "sources (fold (load_entry ce cd c clock now) es w) = sources w \<and>
     routing (fold (load_entry ce cd c clock now) es w) = routing w \<and>
     resolver (fold (load_entry ce cd c clock now) es w) = resolver w"
  by (induction es arbitrary: w) (simp_all add: load_entry_same)

lemma load_same:
  "LoadCacheFromFile ce dsk cd clock t_age now c f w = (r, c1, f1, w1) \<Longrightarrow>
     sources w1 = sources w \<and> routing w1 = routing w \<and> resolver w1 = resolver w"
  by (auto simp: LoadCacheFromFile_def load_batches_eq load_entries_same Let_def
      split: if_splits prod.splits option.splits)

lemma Init_same:
  "Init ce bt c f w = (r, c1, f1, w1) \<Longrightarrow>
     sources w1 = sources w \<and> routing w1 = routing w \<and> resolver w1 = resolver w"
  by (auto simp: Init_def Let_def split: prod.splits sum.splits if_splits dest!: load_same)

text \<open>A start-up that succeeds has gone through all of its parts.\<close>

lemma StartDNSServer_Inr:
  assumes "StartDNSServer ce bt g c f w = (Inr (ticks, http), c1, f1, w4)"
  obtains recorder k g1 w1 where
    "GetFastMetricsInstance (boot_env bt) (boot_alloc bt) g = (Inr (Some (recorder, k)), g1)"
    "Init ce bt c f (w\<lparr>metrics := recorder\<rparr>) = (Inr ticks, c1, f1, w1)"
    "start_services bt c (metrics_caches g1) = Inr http"
    "w4 = w1\<lparr>sources := (InitDNSSource c (fst (sources w1)),
         InitializeClientRouting (env_gocache (ce_res ce)) c (snd (sources w1))),
       routing := InitializeDomainRouting c (boot_loaded bt) (routing w1)\<rparr>"
  using assms by (auto simp: StartDNSServer_def Let_def split: prod.splits sum.splits option.splits if_splits)

lemma start_ok:
  assumes "StartDNSServer ce bt g (env_cfg (ce_res ce)) f (boot_world nothing m) = (Inr started, c1, f1, w)"
    and "boot_loaded bt = loadRoutingTable listing out arrive"
  shows "server_ok ce (\<lambda>d v. configured (env_cfg (ce_res ce)) v \<or> valid_upstream v \<and> routed w d v) w \<and>
    contacted (resolver w) = []"
proof -
  let ?c = "env_cfg (ce_res ce)"
  obtain ticks http where st: "started = (ticks, http)"
    by (cases started)
  obtain recorder w1 where
    i: "Init ce bt ?c f (boot_world nothing m\<lparr>metrics := recorder\<rparr>) = (Inr ticks, c1, f1, w1)" and
    w: "w = w1\<lparr>sources := (InitDNSSource ?c (fst (sources w1)),
         InitializeClientRouting (env_gocache (ce_res ce)) ?c (snd (sources w1))),
       routing := InitializeDomainRouting ?c (boot_loaded bt) (routing w1)\<rparr>"
    using assms(1) unfolding st by (rule StartDNSServer_Inr)
  note i' = Init_same [OF i]
  have "routing_inv (InitializeDomainRouting ?c (loadRoutingTable listing out arrive) routing_init)"
    by (rule routing_inv_step [OF routing_step.start [OF refl]]) simp
  then have inv: "routing_inv (routing w)"
    using assms(2) i' by (simp add: w boot_world_def)
  have "valid_upstream v" if "routed w d v" for d v
    using that table_routes.route_valid [OF inv] by (simp add: routed_def route_lookup_def)
  with inv show ?thesis
    using i' source_inv_init client_inv_init by (auto simp: w boot_world_def server_ok_def source_ok_def)
qed

section \<open>When the server starts\<close>

lemma load_config:
  assumes "disk_works dsk (CachePersistenceFile c)" and "LoadCacheFromFile ce dsk cd clock t_age now c f w = (r, c1, f1, w1)"
  shows "c1 = c"
proof -
  obtain f' where "ensureCacheDir dsk cd c f = (Inr (), c, f')"
    using ensure_works [OF assms(1)] by blast
  with assms(2) show ?thesis
    by (auto simp: LoadCacheFromFile_def Let_def split: if_splits option.splits)
qed

lemma Init_works:
  assumes "disk_works (boot_disk bt) (CachePersistenceFile c)" and "valid_config c"
  shows "fst (Init ce bt c f w) =
    (if EnableCachePersistence c \<and> CachePersistenceInterval c \<le> 0
     then Inl (BadTicker (NonPositiveInterval (CachePersistenceInterval c)))
     else Inr \<lparr>persistenceTicker = EnableCachePersistence c, staleUpdaterTicker = EnableStaleUpdater c\<rparr>)"
proof -
  let ?w = "w\<lparr>DnsCache := gc_new (ce_dns ce) (DefaultDNSCacheTTL ce), accessTracker := NewAccessTracker\<rparr>"
  obtain r f1 w1 where load: "LoadCacheFromFile ce (boot_disk bt) (boot_codec bt) (boot_clock bt) (boot_age bt)
      (boot_now bt) c f ?w = (r, c, f1, w1)"
    using load_config [OF assms(1)] by (metis prod_cases4)
  obtain f2 where "ensureCacheDir (boot_disk bt) (boot_codec bt) c f1 = (Inr (), c, f2)"
    using ensure_works [OF assms(1)] by blast
  with load assms(2) show ?thesis
    by (auto simp: Init_def StartStaleUpdater_def NewTicker_def StartCachePersistence_def valid_config_def Let_def)
qed

text \<open>Whether the goroutine that reloads the routes is started.\<close>

definition refreshes :: "Config \<Rightarrow> load_error + table \<Rightarrow> bool" where
  "refreshes c loaded \<longleftrightarrow> EnableDomainRouting c \<and> DomainRoutingFolder c \<noteq> '''' \<and>
     (case loaded of Inr t \<Rightarrow> t \<noteq> [] | Inl e \<Rightarrow> False)"

lemma refresh_panic_iff:
  "refresh_panic (InitializeDomainRouting c loaded s) \<longleftrightarrow>
     refresh_panic s \<or> refreshes c loaded \<and> reload_interval c \<le> 0"
  by (auto simp: InitializeDomainRouting_def refreshes_def start_refresh_def split: sum.split)

lemma StartDNSServer_starts:
  assumes "disk_works (boot_disk bt) (CachePersistenceFile c)" and "valid_config c"
    and "GetFastMetricsInstance (boot_env bt) (boot_alloc bt) g = (r, g1)" and "\<not> refresh_panic (routing w)"
  shows "(\<exists>s. fst (StartDNSServer ce bt g c f w) = Inr s) \<longleftrightarrow>
    (\<exists>inst. r = Inr (Some inst)) \<and> (EnableCachePersistence c \<longrightarrow> 0 < CachePersistenceInterval c) \<and>
    (refreshes c (boot_loaded bt) \<longrightarrow> 0 < reload_interval c) \<and>
    (\<exists>http. start_services bt c (metrics_caches g1) = Inr http)"
proof (cases "\<exists>recorder k. r = Inr (Some (recorder, k))")
  case True
  then obtain recorder k where r: "r = Inr (Some (recorder, k))" by blast
  obtain i c1 f1 w1 where init: "Init ce bt c f (w\<lparr>metrics := recorder\<rparr>) = (i, c1, f1, w1)"
    by (metis prod_cases4)
  then have "i = fst (Init ce bt c f (w\<lparr>metrics := recorder\<rparr>))" by simp
  moreover have "0 < CacheRefresh c"
    using assms(2) by (simp add: valid_config_def)
  moreover have "routing w1 = routing w"
    using Init_same [OF init] by simp
  ultimately show ?thesis
    using assms(3,4) r init unfolding Init_works [OF assms(1,2)]
    by (auto simp: StartDNSServer_def StartDNSServersUpdate_def NewTicker_def refresh_panic_iff Let_def
        split: sum.splits)
next
  case False
  with assms(3) show ?thesis
    by (auto simp: StartDNSServer_def split: sum.splits option.splits)
qed

lemma start_services_iff:
  "(\<exists>http. start_services bt c u = Inr http) \<longleftrightarrow>
     0 < DNSStatslog c \<and>
     (EnableMetrics c \<longrightarrow> 0 < boot_interval bt \<and> (\<exists>srv. fst (StartMetricsServer (boot_env bt) u) = Inr srv))"
  by (auto simp: start_services_def StartCacheStatsLogger_def NewTicker_def StartMetricsUpdater_def split: sum.splits)

text \<open>What loading the configuration leaves in the caches that the recorder looks into.\<close>

lemma recorder_after_load:
  assumes "MustLoad env empty_caches = (Inr c, u)"
  shows "(\<exists>inst. fst (GetFastMetricsInstance env al \<lparr>fastMetricsInstance = None, fastMetricsOnce = False, metrics_caches = u\<rparr>) =
       Inr (Some inst)) \<longleftrightarrow>
      make_chan al (env_int env ''METRICS_CHANNEL_SIZE'' 10000) = Allocated \<and> 0 < MetricsBatchDelay c \<and>
      make_slice al (MetricsBatchSize c) = Allocated"
    and "envStringCache (metrics_caches (snd (GetFastMetricsInstance env al
      \<lparr>fastMetricsInstance = None, fastMetricsOnce = False, metrics_caches = u\<rparr>))) = envStringCache u"
proof -
  have c: "c = pure_config env"
    using METRICS_PORT_cached(1) [OF assms] .
  have u: "u = snd (run_state (loadConfig env) empty_caches)"
    using assms by (auto simp: MustLoad_def Let_def split: prod.splits)
  have cached: "envIntCache u ''METRICS_BATCH_SIZE'' = Some (MetricsBatchSize c)"
    "envDurationCache u ''METRICS_BATCH_DELAY'' = Some (MetricsBatchDelay c)"
    "envIntCache u ''METRICS_CHANNEL_SIZE'' = None"
    unfolding u c loadConfig_def Let_def
    by (simp_all add: run_bind env_str_def env_num_def env_dur_def env_flag_def env_fresh
        State_Monad.return_def pure_config_def)
  have "GetEnvInt env ''METRICS_BATCH_SIZE'' 500 u = (MetricsBatchSize c, u)"
    "GetEnvDuration env ''METRICS_BATCH_DELAY'' (100 * millisecond) u = (MetricsBatchDelay c, u)"
    using cached by (simp_all add: GetEnvInt_def GetEnvDuration_def)
  moreover have "envStringCache (snd (GetEnvInt env k d st)) = envStringCache st"
    "envStringCache (snd (GetEnvDuration env k e st)) = envStringCache st" for k d e st
    by (simp_all add: GetEnvInt_def GetEnvDuration_def Let_def split: option.split)
  ultimately show "(\<exists>inst. fst (GetFastMetricsInstance env al \<lparr>fastMetricsInstance = None, fastMetricsOnce = False, metrics_caches = u\<rparr>) =
       Inr (Some inst)) \<longleftrightarrow>
      make_chan al (env_int env ''METRICS_CHANNEL_SIZE'' 10000) = Allocated \<and> 0 < MetricsBatchDelay c \<and>
      make_slice al (MetricsBatchSize c) = Allocated"
    and "envStringCache (metrics_caches (snd (GetFastMetricsInstance env al
      \<lparr>fastMetricsInstance = None, fastMetricsOnce = False, metrics_caches = u\<rparr>))) = envStringCache u"
    using cached(3)
    by (auto simp: GetFastMetricsInstance_def NewFastMetricsRecorder_def GetEnvInt_fresh case_prod_beta Let_def
        split: sum.splits)
qed

section \<open>Properties\<close>

text \<open>
  C1: the running server answers every request. From start-up on any disk, with any cache file
  and any routing folder, after any interleaving of requests, refreshes, health checks and
  reloads: the handler does not panic, its reply is authoritative with the header that
  \<open>SetReply\<close> makes of the pooled message whatever the upstream servers said or failed to say; with
  metrics on the request is counted exactly once, and its question as one hit or one miss; and
  every server that was ever contacted is in the configured lists, or it is the literal address, with
  port 53, to which the routing table of some earlier state of this run sends a domain.
\<close>

theorem running_server_answers:
  assumes "StartDNSServer ce bt g (env_cfg (ce_res ce)) f (boot_world nothing m) = (Inr started, c1, f1, w)"
    and "boot_loaded bt = loadRoutingTable listing out arrive"
    and "(server_step set_reply type_name ce)\<^sup>*\<^sup>* (updater_start w) s"
  shows "\<exists>reply w'. ServeDNS set_reply type_name ce aw run r pooled (su_world s) = (Inr reply, w') \<and>
    MsgHdr reply = set_reply pooled r \<and> Authoritative reply \<and> (Question r = [] \<longrightarrow> Answer reply = None) \<and>
    (EnableMetrics (env_cfg (ce_res ce)) \<longrightarrow>
       dnsQueriesCount (metrics w') = dnsQueriesCount (metrics (su_world s)) + 1) \<and>
    lookups (metrics w') = lookups (metrics (su_world s)) + (if MetricsOn ce \<and> Question r \<noteq> [] then 1 else 0) \<and>
    (\<forall>v \<in> set (contacted (resolver w')). v \<in> set (PrivateServers (env_cfg (ce_res ce))) \<or>
       v \<in> set (PublicServers (env_cfg (ce_res ce))) \<or>
       valid_upstream v \<and> (\<exists>s' d. (server_step set_reply type_name ce)\<^sup>*\<^sup>* (updater_start w) s' \<and>
         (server_step set_reply type_name ce)\<^sup>*\<^sup>* s' s \<and> map_of (GetRoutingTable (routing (su_world s'))) d = Some v))"
proof -
  let ?step = "server_step set_reply type_name ce"
  define A where "A u d v \<longleftrightarrow> configured (env_cfg (ce_res ce)) v \<or>
    valid_upstream v \<and> (\<exists>s'. ?step\<^sup>*\<^sup>* (updater_start w) s' \<and> ?step\<^sup>*\<^sup>* s' u \<and> routed (su_world s') d v)" for u d v
  have "server_ok ce (A s) (su_world s)"
    using assms(3)
  proof (induction rule: rtranclp_induct)
    case base
    have "server_ok ce (A (updater_start w)) w"
      by (rule server_ok_mono [OF conjunct1 [OF start_ok [OF assms(1,2)]]]) (auto simp: A_def updater_start_def)
    then show ?case
      by (simp add: updater_start_def)
  next
    case (step s s')
    have "A s d v \<Longrightarrow> A s' d v" for d v
      unfolding A_def using step.hyps(2) by (meson rtranclp.rtrancl_into_rtrancl)
    moreover have "?step\<^sup>*\<^sup>* (updater_start w) s'"
      using step.hyps by (rule rtranclp.rtrancl_into_rtrancl)
    ultimately show ?case
      using server_step_ok [OF step.hyps(2) step.IH, of "A s'"] unfolding A_def by blast
  qed
  from ServeDNS_ok [OF this, of set_reply type_name aw run r pooled] show ?thesis
    unfolding server_ok_def A_def configured_def routed_def by blast
qed

lemma GetEnvString_cong:
  "envStringCache u' = envStringCache u \<Longrightarrow>
     fst (GetEnvString env k d u') = fst (GetEnvString env k d u) \<and>
     envStringCache (snd (GetEnvString env k d u')) = envStringCache (snd (GetEnvString env k d u))"
  by (simp add: GetEnvString_def Let_def split: option.split)

lemma StartMetricsServer_cong:
  assumes "envStringCache u' = envStringCache u"
  shows "fst (StartMetricsServer env u') = fst (StartMetricsServer env u)"
proof -
  note port = GetEnvString_cong [OF assms, of env "''METRICS_PORT''" "'':8080''"]
  note path = GetEnvString_cong [OF port [THEN conjunct2], of env "''METRICS_PATH''" "''/metrics''"]
  show ?thesis
    unfolding StartMetricsServer_def Let_def case_prod_beta fst_conv port [THEN conjunct1] path [THEN conjunct1] ..
qed


definition default_boot :: "environ \<Rightarrow> CacheSnapshot option boot" where
  "default_boot env = \<lparr>boot_disk = good_disk, boot_codec = home_codec, boot_clock = (\<lambda>_. (0, 0)), boot_age = 0,
     boot_now = 0, boot_env = env, boot_alloc = roomy, boot_interval = env_duration env ''METRICS_UPDATE_INTERVAL'' (30 * second),
     boot_loaded = loadRoutingTable None one_file id\<rparr>"


section \<open>The server at home\<close>

definition home_request :: "unit request" where
  "home_request = \<lparr>ReqHdr = (), Question = [(''nas.home.'', 1)], RemoteAddr = UDPAddr [10, 0, 0, 9]\<rparr>"

definition home_run :: request_run where
  "home_run = \<lparr>run_start = 0, run_call = at_time 0, run_end = 1, write_ok = True\<rparr>"

definition home_global :: metrics_global where
  "home_global = \<lparr>fastMetricsInstance = None, fastMetricsOnce = False, metrics_caches = empty_caches\<rparr>"

lemma home_starts_pid:
  assumes "boot_disk bt = good_disk" and "boot_env bt = (\<lambda>_. '''')" and "0 < boot_interval bt" and "boot_alloc bt = roomy"
  obtains ticks http c1 f1 w1 where
    "StartDNSServer home_env bt home_global (home_config\<lparr>PidFilePath := p\<rparr>) f (boot_world nothing m) =
       (Inr (ticks, http), c1, f1, w1)"
proof -
  let ?c = "home_config\<lparr>PidFilePath := p\<rparr>"
  obtain r g1 where g: "GetFastMetricsInstance (\<lambda>_. '''') roomy home_global = (r, g1)"
    by (metis prod.collapse)
  then have r: "\<exists>inst. r = Inr (Some inst)" and s: "envStringCache (metrics_caches g1) = envStringCache empty_caches"
    by (auto simp: GetFastMetricsInstance_def home_global_def NewFastMetricsRecorder_def env_fresh unset_env unit_defs)
  have "fst (StartMetricsServer (\<lambda>_. '''') empty_caches) =
      Inr \<lparr>Addr = '':8080'', Mux = [(''/metrics'', PromHandler), (''/health'', HealthHandler), (''/status'', StatusHandler)]\<rparr>"
    by (simp add: StartMetricsServer_def env_fresh unset_env Handle_def parse_pattern_def)
  then have "\<exists>http. start_services bt ?c (metrics_caches g1) = Inr http"
    using assms(2,3) StartMetricsServer_cong [OF s]
    by (simp add: start_services_iff home_config_def pure_config_def unset_env unit_defs)
  moreover have "0 < CachePersistenceInterval ?c"
    by (simp add: home_config_def pure_config_def unset_env unit_defs)
  moreover have "\<not> refreshes ?c (boot_loaded bt)"
    by (simp add: refreshes_def home_config_def pure_config_def unset_env)
  moreover have "\<not> refresh_panic (routing (boot_world nothing m))"
    by (simp add: boot_world_def routing_init_def)
  ultimately have "\<exists>s. fst (StartDNSServer home_env bt home_global ?c f (boot_world nothing m)) = Inr s"
    using StartDNSServer_starts [of bt ?c home_global r g1 "boot_world nothing m" home_env f] home_disk_works
      home_valid(1) g r assms(1,2,4)
    by (simp add: valid_config_def)
  then show thesis
    using that by (metis prod.collapse)
qed

lemma home_starts:
  assumes "boot_disk bt = good_disk" and "boot_env bt = (\<lambda>_. '''')" and "0 < boot_interval bt" and "boot_alloc bt = roomy"
  obtains ticks http c1 f1 w1 where
    "StartDNSServer home_env bt home_global home_config f (boot_world nothing m) = (Inr (ticks, http), c1, f1, w1)"
  using home_starts_pid [OF assms, of "PidFilePath home_config" f nothing m thesis] that by simp

theorem running_server_answers_witness:
  "\<exists>ticks http c1 f1 w s reply w'.
     StartDNSServer home_env (default_boot (\<lambda>_. '''')) home_global home_config no_files (boot_world [] small_recorder) =
       (Inr (ticks, http), c1, f1, w) \<and>
     s = (updater_start w)\<lparr>su_world := snd (ServeDNS (\<lambda>h r. ()) (\<lambda>_. ''A'') home_env phone_world home_run home_request () w)\<rparr> \<and>
     ServeDNS (\<lambda>h r. ()) (\<lambda>_. ''A'') home_env phone_world home_run home_request () (su_world s) = (Inr reply, w') \<and>
     Authoritative reply"
proof -
  have c: "env_cfg (ce_res home_env) = home_config"
    by (simp add: home_env_def)
  have b: "boot_disk (default_boot (\<lambda>_. '''')) = good_disk" "boot_env (default_boot (\<lambda>_. '''')) = (\<lambda>_. '''')"
    "0 < boot_interval (default_boot (\<lambda>_. ''''))" "boot_alloc (default_boot (\<lambda>_. '''')) = roomy"
    "boot_loaded (default_boot (\<lambda>_. '''')) = loadRoutingTable None one_file id"
    by (simp_all add: default_boot_def unset_env unit_defs)
  obtain ticks http c1 f1 w where st: "StartDNSServer home_env (default_boot (\<lambda>_. '''')) home_global home_config no_files
      (boot_world [] small_recorder) = (Inr (ticks, http), c1, f1, w)"
    using b(1-4) by (rule home_starts)
  define s where "s = (updater_start w)\<lparr>su_world := snd (ServeDNS (\<lambda>h r. ()) (\<lambda>_. ''A'') home_env phone_world
      home_run home_request () (su_world (updater_start w)))\<rparr>"
  have "server_step (\<lambda>h r. ()) (\<lambda>_. ''A'') home_env (updater_start w) s"
    unfolding s_def by (rule server_step.request)
  then have steps: "(server_step (\<lambda>h r. ()) (\<lambda>_. ''A'') home_env)\<^sup>*\<^sup>* (updater_start w) s"
    by (rule r_into_rtranclp)
  obtain reply w' where
    "ServeDNS (\<lambda>h r. ()) (\<lambda>_. ''A'') home_env phone_world home_run home_request () (su_world s) = (Inr reply, w')"
    "Authoritative reply"
    using running_server_answers [of home_env, unfolded c, OF st b(5) steps,
        where aw = phone_world and run = home_run and r = home_request and pooled = "()"] by metis
  moreover have "su_world (updater_start w) = w"
    by (simp add: updater_start_def)
  ultimately show ?thesis
    using st s_def by metis
qed

section \<open>Restart\<close>

lemma LoadFromCache_answers:
  assumes "LoadFromCache ce (t_get tm) (CacheKey (env_fqdn (ce_res ce)) d qt) (DnsCache w) = Some a"
  shows "\<exists>w'. ResolverWithCache ce aw tm d qt ip w = (Inr a, w') \<and> resolver w' = resolver w"
  using assms by (simp add: ResolverWithCache_def Let_def)



end
