(* ===== verification/PidFile.thy ===== *)
theory PidFile
  imports GoStrings
begin

text \<open>
  The PID file of \<open>util/pidfile.go\<close>: \<open>CreatePidFile\<close>, \<open>RemovePidFile\<close>,
  \<open>checkExistingPidFile\<close>, \<open>isProcessRunning\<close> and \<open>ReadPidFile\<close>.

  The state is what the functions see of the operating system: directory entries that name
  inodes, the contents of the inodes, the answer of \<open>kill(pid, 0)\<close>, and for each call
  whether it fails for a reason of its own. Removing a file removes the entry; a process
  that holds the file open goes on writing to the inode.

  Each function is given twice. The sequential definitions follow the Go text. The step
  function \<open>create_step\<close> makes one system call at a time, so that runs of several
  processes can be interleaved; running it alone gives the sequential definition.
\<close>

section \<open>The operating system\<close>

datatype kill_result = KillOk | KillESRCH | KillEPERM

record os_world =
  entries :: "string \<rightharpoonup> nat"
  inodes :: "nat \<Rightarrow> string"
  next_inode :: nat
  kill0 :: "int \<Rightarrow> kill_result"
  mkdir_fails :: "string \<Rightarrow> bool"
  read_fails :: "string \<Rightarrow> bool"
  open_fails :: "string \<Rightarrow> bool"
  write_fails :: "string \<Rightarrow> bool"
  remove_fails :: "string \<Rightarrow> bool"

datatype pid_error =
  EmptyPath | MkdirFailed | ReadFailed | AlreadyRunning int | CreateFailed | WriteFailed
| RemoveFailed | EmptyPidFile | InvalidPid string

datatype read_result = NotExist | ReadError | Data string

definition os_read :: "string \<Rightarrow> os_world \<Rightarrow> read_result" where
  "os_read path w =
     (case entries w path of
        None \<Rightarrow> NotExist
      | Some i \<Rightarrow> if read_fails w path then ReadError else Data (inodes w i))"

definition os_remove :: "string \<Rightarrow> os_world \<Rightarrow> os_world" where
  "os_remove path w =
     (if remove_fails w path then w else w\<lparr>entries := (entries w)(path := None)\<rparr>)"

datatype open_result = OpenExists | OpenError | Opened nat

text \<open>\<open>os.OpenFile\<close> with \<open>O_WRONLY|O_CREATE|O_EXCL\<close>.\<close>

definition os_open_excl :: "string \<Rightarrow> os_world \<Rightarrow> open_result \<times> os_world" where
  "os_open_excl path w =
     (if entries w path \<noteq> None then (OpenExists, w)
      else if open_fails w path then (OpenError, w)
      else (Opened (next_inode w),
        w\<lparr>entries := (entries w)(path \<mapsto> next_inode w),
          inodes := (inodes w)(next_inode w := ''''),
          next_inode := next_inode w + 1\<rparr>))"

definition os_write :: "string \<Rightarrow> nat \<Rightarrow> string \<Rightarrow> os_world \<Rightarrow> bool \<times> os_world" where
  "os_write path i s w =
     (if write_fails w path then (False, w) else (True, w\<lparr>inodes := (inodes w)(i := s)\<rparr>))"

section \<open>The functions of pidfile.go\<close>

definition isProcessRunning :: "os_world \<Rightarrow> int \<Rightarrow> bool" where
  "isProcessRunning w pid = (if pid \<le> 0 then False else kill0 w pid = KillOk)"

text \<open>What \<open>checkExistingPidFile\<close> decides from what it reads.\<close>

datatype check_verdict = Proceed | CleanUp | Refuse pid_error

definition check_read :: "string \<Rightarrow> os_world \<Rightarrow> check_verdict" where
  "check_read path w =
     (case os_read path w of
        NotExist \<Rightarrow> Proceed
      | ReadError \<Rightarrow> Refuse ReadFailed
      | Data d \<Rightarrow>
          let pidStr = trim_space d
          in if pidStr = '''' then CleanUp
             else case atoi pidStr of
               None \<Rightarrow> CleanUp
             | Some existingPid \<Rightarrow>
                 if isProcessRunning w existingPid then Refuse (AlreadyRunning existingPid)
                 else CleanUp)"

definition checkExistingPidFile :: "string \<Rightarrow> os_world \<Rightarrow> pid_error option \<times> os_world" where
  "checkExistingPidFile path w =
     (case check_read path w of
        Proceed \<Rightarrow> (None, w)
      | CleanUp \<Rightarrow> (None, os_remove path w)
      | Refuse e \<Rightarrow> (Some e, w))"

text \<open>
  The error of the deferred \<open>Close\<close> is assigned to a local variable after the result is
  fixed, so it never reaches the caller: \<open>None\<close> is the nil error.
\<close>

definition write_pid :: "string \<Rightarrow> int \<Rightarrow> nat \<Rightarrow> os_world \<Rightarrow> pid_error option \<times> os_world" where
  "write_pid path pid i w =
     (let (ok, w1) = os_write path i (itoa pid) w
      in (if ok then None else Some WriteFailed, w1))"

text \<open>What follows when \<open>O_EXCL\<close> found the file: check again, try once more.\<close>

definition second_round :: "string \<Rightarrow> int \<Rightarrow> os_world \<Rightarrow> pid_error option \<times> os_world" where
  "second_round path pid w =
     (case checkExistingPidFile path w of
        (Some e, w1) \<Rightarrow> (Some e, w1)
      | (None, w1) \<Rightarrow>
          (case os_open_excl path w1 of
             (Opened i, w2) \<Rightarrow> write_pid path pid i w2
           | (_, w2) \<Rightarrow> (Some CreateFailed, w2)))"

definition CreatePidFile :: "string \<Rightarrow> int \<Rightarrow> os_world \<Rightarrow> pid_error option \<times> os_world" where
  "CreatePidFile path pid w =
     (if path = '''' then (Some EmptyPath, w)
      else if mkdir_fails w path then (Some MkdirFailed, w)
      else case checkExistingPidFile path w of
        (Some e, w1) \<Rightarrow> (Some e, w1)
      | (None, w1) \<Rightarrow>
          (case os_open_excl path w1 of
             (Opened i, w2) \<Rightarrow> write_pid path pid i w2
           | (OpenError, w2) \<Rightarrow> (Some CreateFailed, w2)
           | (OpenExists, w2) \<Rightarrow> second_round path pid w2))"

definition RemovePidFile :: "string \<Rightarrow> os_world \<Rightarrow> pid_error option \<times> os_world" where
  "RemovePidFile path w =
     (if path = '''' then (None, w)
      else if entries w path = None then (None, w)
      else if remove_fails w path then (Some RemoveFailed, w)
      else (None, os_remove path w))"

definition ReadPidFile :: "string \<Rightarrow> os_world \<Rightarrow> pid_error + int" where
  "ReadPidFile path w =
     (if path = '''' then Inl EmptyPath
      else case os_read path w of
        NotExist \<Rightarrow> Inl ReadFailed
      | ReadError \<Rightarrow> Inl ReadFailed
      | Data d \<Rightarrow>
          let pidStr = trim_space d
          in if pidStr = '''' then Inl EmptyPidFile
             else case atoi pidStr of
               None \<Rightarrow> Inl (InvalidPid pidStr)
             | Some pid \<Rightarrow> Inr pid)"

section \<open>One system call at a time\<close>

text \<open>
  The program counter of a process inside \<open>CreatePidFile\<close>; the flag tells the second
  round (after \<open>O_EXCL\<close> found the file) from the first.
\<close>

datatype create_pc =
  PStart | PRead bool | PUnlink bool | POpen bool | PWrite nat | PDone "pid_error option"

fun create_step :: "string \<Rightarrow> int \<Rightarrow> create_pc \<Rightarrow> os_world \<Rightarrow> create_pc \<times> os_world" where
  "create_step path pid PStart w =
     (if path = '''' then (PDone (Some EmptyPath), w)
      else if mkdir_fails w path then (PDone (Some MkdirFailed), w)
      else (PRead False, w))"
| "create_step path pid (PRead again) w =
     (case check_read path w of
        Proceed \<Rightarrow> (POpen again, w)
      | CleanUp \<Rightarrow> (PUnlink again, w)
      | Refuse e \<Rightarrow> (PDone (Some e), w))"
| "create_step path pid (PUnlink again) w = (POpen again, os_remove path w)"
| "create_step path pid (POpen again) w =
     (case os_open_excl path w of
        (Opened i, w1) \<Rightarrow> (PWrite i, w1)
      | (OpenError, w1) \<Rightarrow> (PDone (Some CreateFailed), w1)
      | (OpenExists, w1) \<Rightarrow>
          (if again then PDone (Some CreateFailed) else PRead True, w1))"
| "create_step path pid (PWrite i) w =
     (let (e, w1) = write_pid path pid i w in (PDone e, w1))"
| "create_step path pid (PDone e) w = (PDone e, w)"

text \<open>Several processes: process \<open>p\<close> has PID \<open>pids p\<close>; a schedule names who moves.\<close>

fun run_schedule ::
    "string \<Rightarrow> (nat \<Rightarrow> int) \<Rightarrow> nat list \<Rightarrow> (nat \<Rightarrow> create_pc) \<times> os_world \<Rightarrow>
     (nat \<Rightarrow> create_pc) \<times> os_world" where
  "run_schedule path pids [] s = s"
| "run_schedule path pids (p # ps) (pcs, w) =
     (let (pc, w1) = create_step path (pids p) (pcs p) w
      in run_schedule path pids ps (pcs(p := pc), w1))"

section \<open>Frame and outcome of each call\<close>

text \<open>The operating system's answers that no call of the program changes.\<close>

definition same_faults :: "os_world \<Rightarrow> os_world \<Rightarrow> bool" where
  "same_faults w w' \<longleftrightarrow>
     kill0 w' = kill0 w \<and> mkdir_fails w' = mkdir_fails w \<and> read_fails w' = read_fails w \<and>
     open_fails w' = open_fails w \<and> write_fails w' = write_fails w \<and>
     remove_fails w' = remove_fails w"

named_theorems os_defs \<open>the system calls, unfolded\<close>

declare os_read_def [os_defs] os_remove_def [os_defs] os_open_excl_def [os_defs]
  os_write_def [os_defs] write_pid_def [os_defs]

lemma same_faults_refl [simp]: "same_faults w w"
  by (simp add: same_faults_def)

lemma checkExisting_faults: "same_faults w (snd (checkExistingPidFile path w))"
  by (auto simp: checkExistingPidFile_def os_remove_def same_faults_def split: check_verdict.splits)

lemma open_excl_Opened:
  "os_open_excl path w = (Opened i, w1) \<Longrightarrow>
     entries w path = None \<and> entries w1 path = Some i \<and> same_faults w w1"
  by (auto simp: os_open_excl_def same_faults_def split: if_splits)

lemma write_pid_ok:
  "write_pid path pid i w = (None, w1) \<Longrightarrow>
     inodes w1 i = itoa pid \<and> entries w1 = entries w \<and> same_faults w w1"
  by (auto simp: os_defs same_faults_def split: if_splits)

lemma same_faults_trans: "same_faults u v \<Longrightarrow> same_faults v w \<Longrightarrow> same_faults u w"
  by (simp add: same_faults_def)

text \<open>A call that returns nil has opened a new file and written the decimal PID to it.\<close>

definition pid_written :: "string \<Rightarrow> int \<Rightarrow> os_world \<Rightarrow> bool" where
  "pid_written path pid w \<longleftrightarrow> (\<exists>i. entries w path = Some i \<and> inodes w i = itoa pid)"

lemma open_write_ok:
  assumes "os_open_excl path w = (Opened i, w1)" "write_pid path pid i w1 = (None, w')"
  shows "pid_written path pid w' \<and> same_faults w w'"
  using open_excl_Opened [OF assms(1)] write_pid_ok [OF assms(2)]
  by (auto simp: pid_written_def intro: same_faults_trans)

lemma open_excl_same: "os_open_excl path w = (OpenExists, w1) \<Longrightarrow> w1 = w"
  by (simp add: os_open_excl_def split: if_splits)

lemma second_round_ok:
  assumes "second_round path pid w = (None, w')"
  shows "pid_written path pid w' \<and> same_faults w w'"
proof -
  obtain e w1 where c: "checkExistingPidFile path w = (e, w1)" by fastforce
  with checkExisting_faults [of w path] have sf: "same_faults w w1" by simp
  obtain r w2 where o: "os_open_excl path w1 = (r, w2)" by fastforce
  from assms obtain i where "r = Opened i" "write_pid path pid i w2 = (None, w')"
    by (auto simp: second_round_def c o split: option.splits open_result.splits)
  with o open_write_ok sf show ?thesis by (blast intro: same_faults_trans)
qed

lemma CreatePidFile_ok:
  assumes "CreatePidFile path pid w = (None, w')"
  shows "path \<noteq> []" and "pid_written path pid w'" and "same_faults w w'"
proof -
  obtain e w1 where c: "checkExistingPidFile path w = (e, w1)" by fastforce
  with checkExisting_faults [of w path] have sf: "same_faults w w1" by simp
  obtain r w2 where o: "os_open_excl path w1 = (r, w2)" by fastforce
  from assms c o consider i where "r = Opened i" "write_pid path pid i w2 = (None, w')"
    | "r = OpenExists" "second_round path pid w2 = (None, w')"
    by (auto simp: CreatePidFile_def split: if_splits option.splits open_result.splits)
  then have "pid_written path pid w' \<and> same_faults w1 w'"
    using o open_write_ok second_round_ok open_excl_same by cases blast+
  with sf show "pid_written path pid w'" and "same_faults w w'"
    by (auto intro: same_faults_trans)
  from assms show "path \<noteq> []" by (auto simp: CreatePidFile_def)
qed

lemma read_itoa:
  assumes "pid_written path pid w" "\<not> read_fails w path" "path \<noteq> []"
    and "- (2 ^ 63) \<le> pid" "pid < 2 ^ 63"
  shows "ReadPidFile path w = Inr pid"
  using assms atoi_itoa [of pid] by (auto simp: pid_written_def ReadPidFile_def os_read_def Let_def)

text \<open>The reading of a file that holds the PID of a running process.\<close>

definition holds_running :: "string \<Rightarrow> int \<Rightarrow> os_world \<Rightarrow> bool" where
  "holds_running path pid w \<longleftrightarrow>
     (\<exists>d. os_read path w = Data d \<and> atoi (trim_space d) = Some pid) \<and> isProcessRunning w pid"

lemma atoi_empty [simp]: "atoi [] = None"
  by (simp add: atoi_def)

lemma check_read_running:
  "holds_running path pid w \<Longrightarrow> check_read path w = Refuse (AlreadyRunning pid)"
  by (auto simp: holds_running_def check_read_def Let_def split: option.splits)

lemma check_read_stale:
  assumes "os_read path w = Data d"
    and "\<And>pid. atoi (trim_space d) = Some pid \<Longrightarrow> \<not> isProcessRunning w pid"
  shows "check_read path w = CleanUp"
  using assms by (auto simp: check_read_def Let_def split: option.splits)

section \<open>The step function refines to the sequential functions\<close>

fun solo :: "string \<Rightarrow> int \<Rightarrow> nat \<Rightarrow> create_pc \<times> os_world \<Rightarrow> create_pc \<times> os_world" where
  "solo path pid 0 s = s"
| "solo path pid (Suc n) (pc, w) = solo path pid n (create_step path pid pc w)"

lemma run_schedule_solo:
  "run_schedule path pids (replicate n p) (pcs, w) =
     (pcs(p := fst (solo path (pids p) n (pcs p, w))), snd (solo path (pids p) n (pcs p, w)))"
proof (induction n arbitrary: pcs w)
  case (Suc n)
  obtain pc w1 where s: "create_step path (pids p) (pcs p) w = (pc, w1)" by fastforce
  then show ?case by (simp add: Suc fun_upd_twist fun_upd_upd del: fun_upd_apply)
    (simp add: s)
qed simp

lemma solo_done: "solo path pid n (PDone e, w) = (PDone e, w)"
  by (induction n) auto

definition finish :: "pid_error option \<times> os_world \<Rightarrow> create_pc \<times> os_world" where
  "finish r = (PDone (fst r), snd r)"

lemma solo_write: "solo path pid (Suc n) (PWrite i, w) = finish (write_pid path pid i w)"
  by (simp add: finish_def solo_done Let_def case_prod_beta)

lemma solo_open_again:
  "solo path pid (Suc (Suc n)) (POpen True, w) =
     finish (case os_open_excl path w of
       (Opened i, w1) \<Rightarrow> write_pid path pid i w1
     | (_, w1) \<Rightarrow> (Some CreateFailed, w1))"
  using solo_write [of path pid n]
  by (auto simp: finish_def solo_done split: prod.splits open_result.splits)

lemma solo_proceed: "solo path pid (Suc n) (PRead b, w) =
    (case check_read path w of
       Proceed \<Rightarrow> solo path pid n (POpen b, w)
     | CleanUp \<Rightarrow> solo path pid n (PUnlink b, w)
     | Refuse e \<Rightarrow> (PDone (Some e), w))"
  by (simp add: solo_done split: check_verdict.splits)

lemma solo_unlink: "solo path pid (Suc n) (PUnlink b, w) = solo path pid n (POpen b, os_remove path w)"
  by simp

lemma finish_write [simp]:
  "finish (Some e, w) = (PDone (Some e), w)" "finish (None, w) = (PDone None, w)"
  by (simp_all add: finish_def)

lemma solo_second:
  "solo path pid (Suc (Suc (Suc (Suc n)))) (PRead True, w) = finish (second_round path pid w)"
  by (subst solo_proceed)
    (auto simp: second_round_def checkExistingPidFile_def solo_open_again solo_unlink
      simp del: solo.simps split: check_verdict.splits)

lemma solo_first_open:
  "solo path pid (Suc (Suc (Suc (Suc (Suc n))))) (POpen False, w) =
     finish (case os_open_excl path w of
       (Opened i, w1) \<Rightarrow> write_pid path pid i w1
     | (OpenError, w1) \<Rightarrow> (Some CreateFailed, w1)
     | (OpenExists, w1) \<Rightarrow> second_round path pid w1)"
proof -
  obtain r w1 where o: "os_open_excl path w = (r, w1)" by fastforce
  show ?thesis
    using solo_second [of path pid n w1] solo_write [of path pid "Suc (Suc (Suc n))"]
    by (cases r) (simp_all add: o solo_done)
qed

lemma solo_create:
  "solo path pid (8 + n) (PStart, w) = finish (CreatePidFile path pid w)"
proof -
  have eight: "8 + n = Suc (Suc (Suc (Suc (Suc (Suc (Suc (Suc n)))))))" by simp
  show ?thesis
    unfolding eight CreatePidFile_def checkExistingPidFile_def
    by (subst solo.simps(2))
      (auto simp: solo_done solo_proceed solo_unlink solo_first_open simp del: solo.simps(2)
        split: check_verdict.splits)
qed

section \<open>Interleaved runs\<close>

text \<open>Every move of an unfinished process brings it closer to its end.\<close>

fun rank :: "create_pc \<Rightarrow> nat" where
  "rank PStart = 8"
| "rank (PRead again) = (if again then 4 else 7)"
| "rank (PUnlink again) = (if again then 3 else 6)"
| "rank (POpen again) = (if again then 2 else 5)"
| "rank (PWrite i) = 1"
| "rank (PDone e) = 0"

lemma rank_step: "rank (fst (create_step path pid pc w)) \<le> rank pc - 1"
  by (cases pc) (auto simp: case_prod_beta Let_def split: check_verdict.splits open_result.splits
      prod.splits)

lemma rank_run: "rank (fst (run_schedule path pids sched (pcs, w)) p) \<le> rank (pcs p) - count_list sched p"
proof (induction sched arbitrary: pcs w)
  case (Cons q sched)
  obtain pc w1 where s: "create_step path (pids q) (pcs q) w = (pc, w1)" by fastforce
  have "rank pc \<le> rank (pcs q) - 1" using rank_step [of path "pids q" "pcs q" w] s by simp
  then have "rank ((pcs(q := pc)) p) \<le> rank (pcs p) - (if q = p then 1 else 0)" by auto
  with Cons [of "pcs(q := pc)" w1] show ?case
    by (simp add: s del: fun_upd_apply split: if_splits)
qed simp

lemma rank_zero: "rank pc = 0 \<Longrightarrow> \<exists>e. pc = PDone e"
  by (cases pc) (auto split: if_splits)

text \<open>While the file holds the PID of a running process, no starter gets past the check.\<close>

definition at_check :: "int \<Rightarrow> create_pc \<Rightarrow> bool" where
  "at_check pid pc \<longleftrightarrow>
     pc \<in> {PStart, PRead False, PDone (Some EmptyPath), PDone (Some MkdirFailed),
       PDone (Some (AlreadyRunning pid))}"

text \<open>The two calls that no longer look at the file: the removal and the write to the created one.\<close>

fun past_check :: "create_pc \<Rightarrow> bool" where
  "past_check (PUnlink again) = True"
| "past_check (PWrite i) = True"
| "past_check _ = False"

text \<open>Where a run that was at \<open>pc\<close> can be.\<close>

definition kept_from :: "int \<Rightarrow> create_pc \<Rightarrow> create_pc \<Rightarrow> bool" where
  "kept_from pid pc pc' \<longleftrightarrow> \<not> past_check pc' \<and> (at_check pid pc \<longrightarrow> at_check pid pc') \<and>
     (pc' = PDone None \<longrightarrow> pc = PDone None)"

lemma kept_from_trans: "kept_from r a b \<Longrightarrow> kept_from r b c \<Longrightarrow> kept_from r a c"
  by (simp add: kept_from_def)

lemma holds_running_entry: "holds_running path r w \<Longrightarrow> entries w path \<noteq> None"
  by (auto simp: holds_running_def os_read_def split: if_splits option.splits)

lemma create_step_protected:
  "holds_running path r w \<Longrightarrow> \<not> past_check pc \<Longrightarrow>
     snd (create_step path pid pc w) = w \<and> kept_from r pc (fst (create_step path pid pc w))"
  by (cases pc) (use holds_running_entry [of path r w] in
    \<open>auto simp: at_check_def kept_from_def check_read_running os_open_excl_def\<close>)

lemma run_protected:
  "holds_running path r w \<Longrightarrow> (\<And>p. \<not> past_check (pcs p)) \<Longrightarrow>
     snd (run_schedule path pids sched (pcs, w)) = w \<and>
     kept_from r (pcs p) (fst (run_schedule path pids sched (pcs, w)) p)"
proof (induction sched arbitrary: pcs)
  case (Cons q sched)
  obtain pc w1 where s: "create_step path (pids q) (pcs q) w = (pc, w1)" by fastforce
  with create_step_protected [OF Cons.prems(1) Cons.prems(2) [of q], of "pids q"]
  have "w1 = w" and kept: "kept_from r (pcs q) pc" by auto
  moreover have "kept_from r (pcs p) ((pcs(q := pc)) p)"
    using kept Cons.prems(2) by (simp add: kept_from_def)
  moreover have "\<not> past_check ((pcs(q := pc)) p)" for p
    using kept Cons.prems(2) by (simp add: kept_from_def)
  ultimately show ?case
    using Cons.IH [of "pcs(q := pc)"] Cons.prems(1) s
      kept_from_trans [of r "pcs p" "(pcs(q := pc)) p"]
    by (simp del: fun_upd_apply)
qed (simp add: kept_from_def)

section \<open>Properties\<close>

text \<open>
  A healthy operating system with no files, and two processes; they serve as the concrete
  inputs below.
\<close>

definition quiet_world :: os_world where
  "quiet_world = \<lparr>entries = Map.empty, inodes = (\<lambda>_. ''''), next_inode = 0,
     kill0 = (\<lambda>_. KillOk), mkdir_fails = (\<lambda>_. False), read_fails = (\<lambda>_. False),
     open_fails = (\<lambda>_. False), write_fails = (\<lambda>_. False), remove_fails = (\<lambda>_. False)\<rparr>"

definition world_with :: "string \<Rightarrow> string \<Rightarrow> os_world" where
  "world_with path d = quiet_world\<lparr>entries := [path \<mapsto> 0], inodes := (\<lambda>_. d), next_inode := 1\<rparr>"

text \<open>
  Creating the PID file and reading it gives the PID back. When \<open>CreatePidFile\<close>
  returns no error, \<open>ReadPidFile\<close> on the resulting file system returns the number that was
  written, for every PID of 64 bits.
\<close>

theorem CreatePidFile_roundtrip:
  assumes "CreatePidFile path pid w = (None, w')"
    and "\<not> read_fails w path" and "- (2 ^ 63) \<le> pid" and "pid < 2 ^ 63"
  shows "ReadPidFile path w' = Inr pid"
  using CreatePidFile_ok [OF assms(1)] assms(2-4) read_itoa
  by (simp add: same_faults_def)

theorem CreatePidFile_roundtrip_witness:
  "fst (CreatePidFile ''p'' 7 quiet_world) = None \<and>
   ReadPidFile ''p'' (snd (CreatePidFile ''p'' 7 quiet_world)) = Inr 7"
proof -
  have ok: "fst (CreatePidFile ''p'' 7 quiet_world) = None"
    by (simp add: CreatePidFile_def checkExistingPidFile_def check_read_def os_defs quiet_world_def)
  then have "CreatePidFile ''p'' 7 quiet_world = (None, snd (CreatePidFile ''p'' 7 quiet_world))"
    by (metis prod.collapse)
  from CreatePidFile_roundtrip [OF this] ok show ?thesis
    by (simp add: quiet_world_def)
qed

text \<open>
  C23: a PID file that holds the PID of a process for which \<open>kill(pid, 0)\<close> succeeds is protected from
  every run of \<open>CreatePidFile\<close> that has not passed its check: whatever the points the runs of any
  number of processes have reached, removal and write apart, no interleaving of them changes the
  file system or lets one more of them return without an error, and one that starts now reports
  that process (or a fault of its own directory or path). A process that \<open>kill\<close> refuses with \<open>EPERM\<close>
  does not count as running, and a run that is already past its check is not stopped.
\<close>

theorem pid_file_protected:
  assumes "holds_running path r w" and "\<And>p. \<not> past_check (pcs p)"
  shows "snd (run_schedule path pids sched (pcs, w)) = w \<and>
    (pcs p = PStart \<longrightarrow> fst (run_schedule path pids sched (pcs, w)) p
      \<in> {PStart, PRead False, PDone (Some EmptyPath), PDone (Some MkdirFailed),
          PDone (Some (AlreadyRunning r))}) \<and>
    (fst (run_schedule path pids sched (pcs, w)) p = PDone None \<longrightarrow> pcs p = PDone None)"
  using run_protected [of path r w pcs pids sched p, OF assms] by (auto simp: at_check_def kept_from_def)

lemma atoi_42: "atoi ''42'' = Some 42"
  by (simp add: atoi_def is_digit_def byte_def)

theorem pid_file_protected_witness:
  "snd (run_schedule ''p'' (\<lambda>p. int p + 50) [0, 1, 0, 1]
     ((\<lambda>_. PStart)(1 := POpen False), world_with ''p'' ''42'')) = world_with ''p'' ''42''"
proof -
  have "trim_space ''42'' = ''42''"
    by (rule trim_space_plain) (auto intro!: plain_byte_digit simp: is_digit_def byte_def)
  then have "holds_running ''p'' 42 (world_with ''p'' ''42'')"
    by (simp add: holds_running_def os_read_def world_with_def quiet_world_def isProcessRunning_def
        atoi_42)
  moreover have "\<not> past_check (((\<lambda>_. PStart)(1 := POpen False)) q)" for q :: nat
    by simp
  ultimately show ?thesis
    using pid_file_protected by blast
qed

text \<open>
  C26: the step function refines to the sequential code. Eight moves of one process, with no
  other moving, end in exactly the result and the file system of \<open>CreatePidFile\<close>.
\<close>

theorem create_step_refines_CreatePidFile:
  "run_schedule path pids (replicate (8 + n) p) (pcs(p := PStart), w) =
     (let (e, w') = CreatePidFile path (pids p) w in (pcs(p := PDone e), w'))"
  by (simp add: run_schedule_solo solo_create finish_def case_prod_beta)

text \<open>
  Under every interleaving a process that has moved eight times has finished: no
  schedule of the others makes \<open>CreatePidFile\<close> loop.
\<close>

lemma CreatePidFile_terminates:
  assumes "8 \<le> count_list sched p"
  shows "\<exists>e. fst (run_schedule path pids sched (\<lambda>_. PStart, w)) p = PDone e"
  using rank_run [of path pids sched "\<lambda>_. PStart" w p] assms by (intro rank_zero) simp


text \<open>
  The exclusive creation does not keep two starters apart. A process that has created the
  file but not yet written to it leaves an empty file, which a second process takes for a
  stale one and removes: in this interleaving both calls return no error.
\<close>

theorem CreatePidFile_race:
  "\<exists>sched.
     fst (run_schedule ''p'' (\<lambda>p. int p + 50) sched (\<lambda>_. PStart, quiet_world)) 0 = PDone None \<and>
     fst (run_schedule ''p'' (\<lambda>p. int p + 50) sched (\<lambda>_. PStart, quiet_world)) 1 = PDone None"
proof -
  let ?s = "[0, 0, 0, 1, 1, 1, 1, 0, 1]"
  have "trim_space [] = []" using trim_space_length [of "[]"] by simp
  then show ?thesis
    by (intro exI [of _ ?s])
      (simp add: check_read_def os_defs quiet_world_def)
qed

end
