(* ===== verification/Program.thy ===== *)
theory Program
  imports Server PidFile
begin

text \<open>
  The life of the process, \<open>main\<close> and \<open>StartDNSServer\<close> of \<open>main.go\<close> as a whole: PID file, start-up, what
  ends the serving, the shutdown in its order, and the deferred removal of the PID file. It
  composes the server with the PID file and with the goroutine of the metrics recorder.

  What happens while the server runs is a parameter: the state in which the end finds the caches and
  the recorder, what other processes do to the file system, and the states in which the periodic saves
  found the cache; the saves themselves are run. \<open>Logger.Fatalf\<close> ends the process without running
  deferred functions, and so do a signal that is not caught and a panic in another goroutine; a panic
  in the goroutine of \<open>main\<close> runs them. Only SIGINT and SIGTERM are caught, and only once the listener
  was started. Log output is the subject of theory \<open>Logger\<close>.
\<close>

section \<open>Shutting the metrics recorder down\<close>

text \<open>
  \<open>cancel\<close> makes the branch of \<open>Done\<close> ready, but \<open>select\<close> may take other ready branches first: \<open>before\<close>
  is what they do. \<open>in_time\<close> is what the deadline of the drain says, and \<open>finishes\<close> whether the
  goroutine ends before the timeout of the caller.
\<close>

record stopping =
  before :: "batcher \<Rightarrow> batcher"
  in_time :: "nat \<Rightarrow> bool"
  finishes :: bool

datatype shutdown_error = DeadlineExceeded

text \<open>\<open>None\<close>: the goroutine panics, because the drain cannot make its slice, and that ends the process.\<close>

definition run_down :: "allocator \<Rightarrow> stopping \<Rightarrow> batcher \<Rightarrow> batcher option" where
  "run_down al st b = (if stopped b then Some b else on_done al (in_time st) (before st b))"

definition Shutdown :: "allocator \<Rightarrow> stopping \<Rightarrow> batcher \<Rightarrow> (shutdown_error option \<times> batcher) option" where
  "Shutdown al st b =
     (if stopped b \<or> finishes st then map_option (Pair None) (run_down al st b) else Some (Some DeadlineExceeded, b))"

definition Close :: "allocator \<Rightarrow> stopping \<Rightarrow> batcher \<Rightarrow> (shutdown_error option \<times> batcher) option" where
  "Close al st b = map_option (Pair None) (run_down al st b)"

text \<open>The global instance exists since start-up.\<close>

definition ShutdownGlobalInstance ::
    "allocator \<Rightarrow> stopping \<Rightarrow> batcher \<Rightarrow> (shutdown_error option \<times> batcher) option" where
  "ShutdownGlobalInstance al st b = Shutdown al st b"

definition CloseGlobalInstance ::
    "allocator \<Rightarrow> stopping \<Rightarrow> batcher \<Rightarrow> (shutdown_error option \<times> batcher) option" where
  "CloseGlobalInstance al st b = Close al st b"

definition shutdown_metrics :: "Config \<Rightarrow> allocator \<Rightarrow> stopping \<Rightarrow> batcher \<Rightarrow> batcher option" where
  "shutdown_metrics c al st b =
     (if EnableMetrics c then
        (case ShutdownGlobalInstance al st b of
           None \<Rightarrow> None
         | Some (Some e, b1) \<Rightarrow> map_option snd (CloseGlobalInstance al st b1)
         | Some (None, b1) \<Rightarrow> Some b1)
      else Some b)"

section \<open>The periodic saves\<close>

text \<open>
  The goroutine of \<open>StartCachePersistence\<close>: one save per tick, with its two times and the state it finds.
  An error is only logged. \<open>True\<close> when printing a nil record has panicked in it.
\<close>

fun save_ticks ::
    "('c, 'd) cache_env \<Rightarrow> disk \<Rightarrow> 'b codec \<Rightarrow> (nanos \<times> nanos \<times> ('c, 'd) world) list \<Rightarrow> Config \<Rightarrow> 'b fs \<Rightarrow>
     bool \<times> Config \<times> 'b fs" where
  "save_ticks ce dsk cd [] c f = (False, c, f)"
| "save_ticks ce dsk cd ((t_items, now, w) # ts) c f =
     (case SaveCacheToFile ce dsk cd t_items now w c f of
        (r, c1, f1) \<Rightarrow> if r = Inl NilRecord then (True, c1, f1) else save_ticks ce dsk cd ts c1 f1)"

section \<open>The process\<close>

text \<open>
  What ends the serving: a signal that is caught, the listener with an error or without one, a signal
  that is not caught (SIGKILL, SIGHUP, SIGQUIT), or a panic in another goroutine.
\<close>

datatype event = Signal | ListenFailed | ListenReturned | KillSignal | GoroutinePanic

text \<open>A signal before the handler for it is installed ends the process as well.\<close>

datatype start_stage = BeforePid | Starting

text \<open>What the run reads from outside.\<close>

record ('c, 'd, 'b) life =
  killed_at :: "start_stage option" \<comment> \<open>a signal during the start\<close>
  served :: "('c, 'd) world \<Rightarrow> ('c, 'd) world" \<comment> \<open>until the event\<close>
  saves :: "(nanos \<times> nanos \<times> ('c, 'd) world) list" \<comment> \<open>the periodic saves until the event\<close>
  os_run :: "os_world \<Rightarrow> os_world" \<comment> \<open>other processes, until the event\<close>
  ended_by :: event
  batcher_at :: "recorder \<Rightarrow> batcher" \<comment> \<open>the recorder's goroutine at the event\<close>
  items_at :: nanos
  saved_at :: nanos
  stop :: stopping
  os_between :: "os_world \<Rightarrow> os_world" \<comment> \<open>other processes, between the two removals\<close>
  cut_after :: "nat option" \<comment> \<open>a kill during the shutdown: after how many of its stages\<close>
  in_flight :: "'b fs \<Rightarrow> 'b fs" \<comment> \<open>what a save that is under way at the event, or cut off by it, does to the disk\<close>

text \<open>\<open>DrainCrashed\<close> and \<open>Killed\<close> come with the number of stages of the shutdown that were completed.\<close>

datatype fatal = PidFileFailed pid_error | ListenError
datatype exit =
  Exited | Fatal fatal | Panicked start_panic | SavePanicked | Crashed | DrainCrashed nat | Killed nat

record ('c, 'd, 'b) outcome =
  exit_by :: exit
  end_os :: os_world
  end_fs :: "'b fs"
  end_tickers :: "tickers option"
  end_metrics :: "batcher option"

text \<open>Whether the deferred functions of \<open>main\<close> run when the start-up fails: it is a panic in its goroutine.\<close>

fun in_main :: "start_panic \<Rightarrow> bool" where
  "in_main (RecorderPanic (ChannelSize OutOfRange)) = True"
| "in_main (RecorderPanic p) = False"
| "in_main (BadUpdateInterval d) = False"
| "in_main (BadReloadInterval d) = False"
| "in_main p = True"

definition remove_deferred :: "Config \<Rightarrow> os_world \<Rightarrow> os_world" where
  "remove_deferred c os = (if PidFilePath c \<noteq> '''' then snd (RemovePidFile (PidFilePath c) os) else os)"

text \<open>
  The shutdown that a signal starts has four stages: caches, metrics, PID file, and what \<open>main\<close> has
  deferred. It may be killed after any of them. When the drain of the recorder panics, the process
  ends too, but its goroutine first reports that it has ended, so \<open>main\<close> may still get further;
  \<open>cut_after\<close> then says how far.
\<close>

definition graceful_shutdown ::
    "('c, 'd) cache_env \<Rightarrow> 'b boot \<Rightarrow> ('c, 'd, 'b) life \<Rightarrow> Config \<Rightarrow> tickers \<Rightarrow> ('c, 'd) world \<Rightarrow> 'b fs \<Rightarrow> os_world \<Rightarrow>
     ('c, 'd, 'b) outcome" where
  "graceful_shutdown ce bt l c ticks w f os =
     (let k = (case cut_after l of None \<Rightarrow> 4 | Some n \<Rightarrow> n)
      in if k = 0
         then \<lparr>exit_by = Killed 0, end_os = os, end_fs = f, end_tickers = Some ticks, end_metrics = None\<rparr>
         else case Cleanup ce (boot_disk bt) (boot_codec bt) (items_at l) (saved_at l) w ticks c f of
           (ticks1, saved, c1, f1) \<Rightarrow>
             if saved = Inl NilRecord
             then \<lparr>exit_by = SavePanicked, end_os = remove_deferred c1 (os_between l os), end_fs = f1,
                   end_tickers = Some ticks1, end_metrics = None\<rparr>
             else let b1 = shutdown_metrics c1 (boot_alloc bt) (stop l) (batcher_at l (metrics w));
                      os1 = (if 3 \<le> k \<and> PidFilePath c1 \<noteq> '''' then snd (RemovePidFile (PidFilePath c1) os) else os);
                      os2 = (if 4 \<le> k then remove_deferred c1 (os_between l os1) else os1)
               in \<lparr>exit_by = (if b1 = None then DrainCrashed k else if 4 \<le> k then Exited else Killed k),
                   end_os = os2, end_fs = f1, end_tickers = Some ticks1,
                   end_metrics = (if 2 \<le> k then b1 else None)\<rparr>)"

text \<open>A process that ends with neither tickers nor recorder shut down.\<close>

definition gone :: "exit \<Rightarrow> os_world \<Rightarrow> 'b fs \<Rightarrow> ('c, 'd, 'b) outcome" where
  "gone e os f = \<lparr>exit_by = e, end_os = os, end_fs = f, end_tickers = None, end_metrics = None\<rparr>"

definition run_main ::
    "('c, 'd) cache_env \<Rightarrow> 'b boot \<Rightarrow> metrics_global \<Rightarrow> ('c, 'd, 'b) life \<Rightarrow> int \<Rightarrow> Config \<Rightarrow> ('c, 'd) world \<Rightarrow> 'b fs \<Rightarrow>
     os_world \<Rightarrow> ('c, 'd, 'b) outcome" where
  "run_main ce bt g l pid c w f os =
     (if killed_at l = Some BeforePid then gone (Killed 0) (os_run l os) f
      else case (if PidFilePath c \<noteq> '''' then CreatePidFile (PidFilePath c) pid os else (None, os)) of
        (Some e, os1) \<Rightarrow> gone (Fatal (PidFileFailed e)) os1 f
      | (None, os1) \<Rightarrow>
          if killed_at l = Some Starting then gone (Killed 0) (os_run l os1) (in_flight l f)
          else case StartDNSServer ce bt g c f w of
             (Inl p, c1, f1, w1) \<Rightarrow> gone (Panicked p) (if in_main p then remove_deferred c1 os1 else os1) f1
           | (Inr (ticks, http), c1, f1, w1) \<Rightarrow>
               let (crashed, c2, f2) = (if persistenceTicker ticks
                      then save_ticks ce (boot_disk bt) (boot_codec bt) (saves l) c1 f1 else (False, c1, f1));
                   w2 = served l w1; os2 = os_run l os1; f3 = in_flight l f2
               in if crashed then gone Crashed os2 f3
                  else case ended_by l of
                    Signal \<Rightarrow>
                      let out = graceful_shutdown ce bt l c2 ticks w2 f2 os2
                      in out\<lparr>end_fs := in_flight l (end_fs out)\<rparr>
                  | ListenFailed \<Rightarrow> gone (Fatal ListenError) os2 f3
                  | ListenReturned \<Rightarrow> gone Exited (remove_deferred c2 (os_between l os2)) f3
                  | KillSignal \<Rightarrow> gone (Killed 0) os2 f3
                  | GoroutinePanic \<Rightarrow> gone Crashed os2 f3)"

section \<open>The PID file over the life of the process\<close>

text \<open>
  \<open>main\<close> creates the PID file and defers its removal; the shutdown in \<open>StartDNSServer\<close> removes it
  before it stops the server. \<open>others\<close> is what other processes do between the two removals.
\<close>

definition pid_shutdown :: "string \<Rightarrow> (os_world \<Rightarrow> os_world) \<Rightarrow> os_world \<Rightarrow> os_world" where
  "pid_shutdown path others w =
     (if path \<noteq> '''' then snd (RemovePidFile path (others (snd (RemovePidFile path w)))) else others w)"

text \<open>
  A process that starts while the old one is stopping creates its PID file without an error, and
  the old process's second removal deletes it, though it names a running process.
\<close>

lemma shutdown_removes_foreign_pid_file:
  assumes "CreatePidFile path q (snd (RemovePidFile path w)) = (None, w2)"
    and "\<not> remove_fails w path" and "\<not> read_fails w path" and "- (2 ^ 63) \<le> q" and "q < 2 ^ 63"
  shows "ReadPidFile path w2 = Inr q \<and>
    entries (pid_shutdown path (\<lambda>v. snd (CreatePidFile path q v)) w) path = None"
proof -
  have rm: "same_faults w (snd (RemovePidFile path w))"
    by (simp add: RemovePidFile_def os_remove_def same_faults_def)
  note ok = CreatePidFile_ok [OF assms(1)]
  have f: "\<not> remove_fails w2 path" "\<not> read_fails w2 path"
    using rm ok(3) assms(2,3) by (simp_all add: same_faults_def)
  have "ReadPidFile path w2 = Inr q"
    using ok f assms(4,5) read_itoa by simp
  moreover have "entries (pid_shutdown path (\<lambda>v. snd (CreatePidFile path q v)) w) path = None"
    using ok(1) f assms(1) by (simp add: pid_shutdown_def RemovePidFile_def os_remove_def)
  ultimately show ?thesis by blast
qed

section \<open>How the process ends\<close>

lemma start_config:
  assumes "disk_works (boot_disk bt) (CachePersistenceFile c)" and "StartDNSServer ce bt g c f w = (Inr (ticks, http), c1, f1, w1)"
  shows "c1 = c"
proof -
  obtain recorder w0 where init: "Init ce bt c f (w\<lparr>metrics := recorder\<rparr>) = (Inr ticks, c1, f1, w0)"
    using assms(2) by (rule StartDNSServer_Inr)
  let ?w = "w\<lparr>metrics := recorder, DnsCache := gc_new (ce_dns ce) (DefaultDNSCacheTTL ce), accessTracker := NewAccessTracker\<rparr>"
  obtain r f2 w2 where load: "LoadCacheFromFile ce (boot_disk bt) (boot_codec bt) (boot_clock bt) (boot_age bt)
      (boot_now bt) c f ?w = (r, c, f2, w2)"
    using load_config [OF assms(1)] by (metis prod_cases4)
  obtain f3 where "ensureCacheDir (boot_disk bt) (boot_codec bt) c f2 = (Inr (), c, f3)"
    using ensure_works [OF assms(1)] by blast
  with init load show ?thesis
    by (auto simp: Init_def StartCachePersistence_def Let_def split: if_splits sum.splits)
qed

lemma save_on_disk:
  assumes "disk_works dsk (CachePersistenceFile c)" and "EnableCachePersistence c"
    and "\<not> prints_nil now (gc_items (ce_dns ce) (DnsCache w) t_items)"
    and "encode_json cd (take_snapshot cd c now (gc_items (ce_dns ce) (DnsCache w) t_items) (accessTracker w)) = Some b"
  obtains f1 where "SaveCacheToFile ce dsk cd t_items now w c f = (Inr (), c, f1)"
    "fs_files f1 (CachePersistenceFile c) = Some b"
proof -
  obtain f' where "ensureCacheDir dsk cd c f = (Inr (), c, f')"
    using ensure_works [OF assms(1)] by blast
  with assms that show thesis
    by (auto simp: SaveCacheToFile_def disk_works_def write_file_def Let_def)
qed

text \<open>On a disk that works no save moves the cache file.\<close>

lemma save_config:
  assumes "disk_works dsk (CachePersistenceFile c)" and "SaveCacheToFile ce dsk cd t_items now w c f = (r, c1, f1)"
  shows "c1 = c"
proof -
  obtain f' where "ensureCacheDir dsk cd c f = (Inr (), c, f')"
    using ensure_works [OF assms(1)] by blast
  with assms(2) show ?thesis
    by (auto simp: SaveCacheToFile_def Let_def split: if_splits option.splits prod.splits bool.splits)
qed

lemma save_ticks_config:
  "disk_works dsk (CachePersistenceFile c) \<Longrightarrow> save_ticks ce dsk cd ts c f = (b, c1, f1) \<Longrightarrow> c1 = c"
proof (induction ts arbitrary: f)
  case (Cons t ts)
  obtain t_items now w where t: "t = (t_items, now, w)"
    by (cases t)
  obtain r c2 f2 where save: "SaveCacheToFile ce dsk cd t_items now w c f = (r, c2, f2)"
    by (metis prod_cases3)
  with Cons t save_config [OF Cons.prems(1) save] show ?case
    by (auto split: if_splits)
qed simp

lemma removed: "\<not> remove_fails w path \<Longrightarrow> path \<noteq> '''' \<Longrightarrow> entries (snd (RemovePidFile path w)) path = None"
  by (simp add: RemovePidFile_def os_remove_def)

lemma remove_faults: "same_faults w (snd (RemovePidFile path w))"
  by (simp add: RemovePidFile_def os_remove_def same_faults_def)

lemma remove_deferred_removes:
  "\<not> remove_fails w (PidFilePath c) \<Longrightarrow> PidFilePath c \<noteq> '''' \<Longrightarrow> entries (remove_deferred c w) (PidFilePath c) = None"
  by (simp add: remove_deferred_def removed)

text \<open>Whether or not the goroutine ends in time, it has run down when the shutdown goes on.\<close>

lemma shutdown_metrics_eq:
  "shutdown_metrics c al st b = (if EnableMetrics c then run_down al st b else Some b)"
  by (simp add: shutdown_metrics_def ShutdownGlobalInstance_def CloseGlobalInstance_def Shutdown_def Close_def
      option.map_comp comp_def option.map_ident split: option.split)

lemma run_down_stopped: "run_down al st b = Some b' \<Longrightarrow> stopped b'"
  by (auto simp: run_down_def on_done_eq Let_def split: if_splits)

lemma run_down_None:
  "run_down al st b = None \<longleftrightarrow> \<not> stopped b \<and> make_slice al (drainBatchSize (rec (before st b))) \<noteq> Allocated"
  by (simp add: run_down_def on_done_eq Let_def)

text \<open>No path of the start-up changes the path of the PID file.\<close>

lemma ensure_pid_path:
  assumes "ensureCacheDir dsk cd c f = (r, c1, f1)"
  shows "PidFilePath c1 = PidFilePath c"
  using assms by (auto simp: ensureCacheDir_def Let_def split: if_splits option.splits prod.splits)

lemma start_pid_path:
  assumes "StartDNSServer ce bt g c f w = (r, c1, f1, w1)"
  shows "PidFilePath c1 = PidFilePath c"
proof -
  have "Init ce bt c f w' = (r', c', f', w'') \<Longrightarrow> PidFilePath c' = PidFilePath c" for w' r' c' f' w''
    by (auto simp: Init_def LoadCacheFromFile_def StartCachePersistence_def Let_def dest!: ensure_pid_path
        split: if_splits option.splits prod.splits sum.splits)
  then show ?thesis
    using assms by (auto simp: StartDNSServer_def Let_def split: sum.splits option.splits prod.splits if_splits)
qed

lemma save_pid_path:
  "SaveCacheToFile ce dsk cd t_items now w c f = (r, c1, f1) \<Longrightarrow> PidFilePath c1 = PidFilePath c"
  by (auto simp: SaveCacheToFile_def Let_def dest!: ensure_pid_path
      split: if_splits option.splits prod.splits sum.splits bool.splits)

lemma save_ticks_pid_path:
  "save_ticks ce dsk cd ts c f = (b, c1, f1) \<Longrightarrow> PidFilePath c1 = PidFilePath c"
proof (induction ts arbitrary: c f)
  case (Cons t ts)
  obtain t_items now w where t: "t = (t_items, now, w)"
    by (cases t)
  obtain r c2 f2 where save: "SaveCacheToFile ce dsk cd t_items now w c f = (r, c2, f2)"
    by (metis prod_cases3)
  with Cons t save_pid_path [OF save] show ?case
    by (cases "r = Inl NilRecord") auto
qed simp

text \<open>
  Whether the PID file is removed at the end: by the shutdown's third stage, or by the deferred
  function.
\<close>

fun removes_pid :: "exit \<Rightarrow> bool" where
  "removes_pid Exited = True"
| "removes_pid SavePanicked = True"
| "removes_pid (Panicked p) = in_main p"
| "removes_pid (DrainCrashed k) = (3 \<le> k)"
| "removes_pid (Killed k) = (3 \<le> k)"
| "removes_pid Crashed = False"
| "removes_pid (Fatal e) = False"

lemma deferred_faults: "same_faults w (remove_deferred c w)"
  by (simp add: remove_deferred_def remove_faults)

text \<open>What becomes of the PID file in the shutdown.\<close>

lemma shutdown_pid:
  assumes "PidFilePath c = path" and "path \<noteq> ''''" and "\<not> remove_fails os path"
    and "\<And>v. same_faults v (os_between l v)"
    and "entries os path \<noteq> None"
  shows "entries (end_os (graceful_shutdown ce bt l c ticks w f os)) path = None \<longleftrightarrow>
    removes_pid (exit_by (graceful_shutdown ce bt l c ticks w f os))"
proof -
  obtain ticks1 saved c1 f1 where cl: "Cleanup ce (boot_disk bt) (boot_codec bt) (items_at l) (saved_at l) w ticks c f =
      (ticks1, saved, c1, f1)"
    by (metis prod_cases4)
  then have c1: "PidFilePath c1 = path"
    using assms(1) by (auto simp: Cleanup_def StopCachePersistence_def Let_def dest!: save_pid_path
        split: if_splits prod.splits)
  have def: "entries (remove_deferred c1 (os_between l v)) path = None" if "same_faults os v" for v
    using that c1 assms(2,3) assms(4) [of v] remove_deferred_removes [of "os_between l v" c1]
    by (simp add: same_faults_def)
  have first: "entries (snd (RemovePidFile path os)) path = None"
    using assms(2,3) by (intro removed)
  show ?thesis
    using c1 assms(2,5) def [of os] def [of "snd (RemovePidFile path os)"] first remove_faults [of os path] cl
    by (auto simp: graceful_shutdown_def Let_def split: option.split)
qed

text \<open>
  C8: what a signal leaves behind. A process that served until SIGINT or SIGTERM ends normally, whatever
  the periodic saves have written before, when: the disk works and no removal of the PID file fails; the
  process is not killed during the shutdown; no periodic save is under way that would still write the
  cache file; no cached record is nil; and the slice of the drain can be made. Then the cache file holds
  the text of the snapshot of the cache at the signal, the PID file is gone whatever other processes
  have done to it, both tickers are stopped, and with metrics on the goroutine of the recorder
  has written out its batch and drained its channel, also when it took longer than the shutdown
  wanted to wait.
\<close>

theorem signal_shutdown:
  assumes "CreatePidFile (PidFilePath c) pid os = (None, os1)" and "\<not> remove_fails os (PidFilePath c)"
    and "StartDNSServer ce bt g c f w = (Inr (ticks, http), c1, f1, w1)"
    and "killed_at l = None" and "ended_by l = Signal" and "cut_after l = None"
    and "\<And>v. same_faults v (os_run l v)" and "\<And>v. same_faults v (os_between l v)"
    and "disk_works (boot_disk bt) (CachePersistenceFile c)" and "EnableCachePersistence c"
    and "\<And>v. fs_files (in_flight l v) (CachePersistenceFile c) = fs_files v (CachePersistenceFile c)"
    and "\<not> prints_nil (saved_at l) (gc_items (ce_dns ce) (DnsCache (served l w1)) (items_at l))"
    and "encode_json (boot_codec bt) (take_snapshot (boot_codec bt) c (saved_at l)
       (gc_items (ce_dns ce) (DnsCache (served l w1)) (items_at l)) (accessTracker (served l w1))) = Some text"
  defines "b0 \<equiv> batcher_at l (metrics (served l w1))"
  assumes "stopped b0 \<or> make_slice (boot_alloc bt) (drainBatchSize (rec (before (stop l) b0))) = Allocated"
  defines "out \<equiv> run_main ce bt g l pid c w f os"
  assumes "exit_by out \<noteq> Crashed"
  shows "exit_by out = Exited \<and> fs_files (end_fs out) (CachePersistenceFile c) = Some text \<and>
    entries (end_os out) (PidFilePath c) = None \<and>
    end_tickers out = Some \<lparr>persistenceTicker = False, staleUpdaterTicker = False\<rparr> \<and>
    (EnableMetrics c \<longrightarrow> (\<exists>b. end_metrics out = Some b \<and> stopped b \<and>
       (if stopped b0 then b = b0 else on_done (boot_alloc bt) (in_time (stop l)) (before (stop l) b0) = Some b)))"
proof -
  have c1: "c1 = c"
    using start_config [OF assms(9,3)] .
  note pid = CreatePidFile_ok [OF assms(1)]
  let ?w2 = "served l w1" and ?os2 = "os_run l os1"
  obtain crashed c2 f2 where ticking: "(if persistenceTicker ticks
      then save_ticks ce (boot_disk bt) (boot_codec bt) (saves l) c f1 else (False, c, f1)) = (crashed, c2, f2)"
    by (metis prod_cases3)
  then have c2: "c2 = c"
    using save_ticks_config [OF assms(9)] by (auto split: if_splits)
  let ?g = "graceful_shutdown ce bt l c ticks ?w2 f2 ?os2"
  have out: "out = ?g\<lparr>end_fs := in_flight l (end_fs ?g)\<rparr>"
    using pid(1) assms(1,3-5) c1 c2 ticking assms(17) unfolding out_def run_main_def by (auto simp: gone_def Let_def)
  obtain f3 where "SaveCacheToFile ce (boot_disk bt) (boot_codec bt) (items_at l) (saved_at l) ?w2 c f2 = (Inr (), c, f3)"
    and saved: "fs_files f3 (CachePersistenceFile c) = Some text"
    using assms(9,10,12,13) by (rule save_on_disk)
  then have cl: "Cleanup ce (boot_disk bt) (boot_codec bt) (items_at l) (saved_at l) ?w2 ticks c f2 =
      (\<lparr>persistenceTicker = False, staleUpdaterTicker = False\<rparr>, Inr (), c, f3)"
    using assms(10) by (simp add: Cleanup_def StopCachePersistence_def StopStaleUpdater_def Let_def)
  obtain b1 where "run_down (boot_alloc bt) (stop l) b0 = Some b1"
    using assms(15) run_down_None [of "boot_alloc bt" "stop l" b0]
    by (cases "run_down (boot_alloc bt) (stop l) b0") auto
  then obtain b where b: "shutdown_metrics c (boot_alloc bt) (stop l) b0 = Some b"
    and run: "EnableMetrics c \<Longrightarrow> run_down (boot_alloc bt) (stop l) b0 = Some b"
    by (cases "EnableMetrics c") (simp_all add: shutdown_metrics_eq)
  have g: "exit_by ?g = Exited" "end_fs ?g = f3"
    "end_tickers ?g = Some \<lparr>persistenceTicker = False, staleUpdaterTicker = False\<rparr>" "end_metrics ?g = Some b"
    "end_os ?g = remove_deferred c (os_between l (snd (RemovePidFile (PidFilePath c) ?os2)))"
    using cl b pid(1) assms(6) by (simp_all add: graceful_shutdown_def b0_def Let_def)
  have "\<not> remove_fails (os_between l (snd (RemovePidFile (PidFilePath c) ?os2))) (PidFilePath c)"
    using pid(3) assms(2) assms(7) [of os1] remove_faults [of ?os2] assms(8) [of "snd (RemovePidFile (PidFilePath c) ?os2)"]
    by (simp add: same_faults_def)
  then have "entries (end_os ?g) (PidFilePath c) = None"
    using pid(1) g(5) by (simp add: remove_deferred_removes)
  moreover have "stopped b \<and> (if stopped b0 then b = b0
      else on_done (boot_alloc bt) (in_time (stop l)) (before (stop l) b0) = Some b)" if "EnableMetrics c"
    using run_down_stopped [OF run [OF that]] run [OF that] by (cases "stopped b0") (simp_all add: run_down_def)
  ultimately show ?thesis
    unfolding out using g saved assms(11) by simp
qed

lemma written_entry: "pid_written path pid w \<Longrightarrow> entries w path \<noteq> None"
  by (auto simp: pid_written_def)

text \<open>
  C24: when a PID file stays behind. Take a process that has created its PID file, on an operating
  system where no removal of this file fails and while other processes leave it alone until the
  process ends. The file is gone at the end exactly when: the process exited, by a signal or because
  the listener returned; or the final save, or the start in the goroutine of \<open>main\<close>, panicked; or the
  process was killed, or the drain of the recorder panicked, after the shutdown had removed the
  file. It stays when the listener fails, which is reported with \<open>Fatalf\<close>, when another goroutine
  panics, and when a signal that is not caught, or one during the start, ends the process.
\<close>

theorem pid_file_removed_iff:
  assumes "CreatePidFile (PidFilePath c) pid os = (None, os1)" and "\<not> remove_fails os (PidFilePath c)"
    and "killed_at l \<noteq> Some BeforePid"
    and "\<And>v. same_faults v (os_run l v)" and "\<And>v. same_faults v (os_between l v)"
    and "\<And>v. pid_written (PidFilePath c) pid v \<Longrightarrow> pid_written (PidFilePath c) pid (os_run l v)"
    and out_def: "out = run_main ce bt g l pid c w f os"
  shows "entries (end_os out) (PidFilePath c) = None \<longleftrightarrow>
    (case exit_by out of
       Exited \<Rightarrow> True | SavePanicked \<Rightarrow> True | Panicked p \<Rightarrow> in_main p
     | DrainCrashed stages \<Rightarrow> 3 \<le> stages | Killed stages \<Rightarrow> 3 \<le> stages
     | Crashed \<Rightarrow> False | Fatal e \<Rightarrow> False)"
proof -
  note pid = CreatePidFile_ok [OF assms(1)]
  have rm: "\<not> remove_fails os1 (PidFilePath c)"
    using pid(3) assms(2) by (simp add: same_faults_def)
  have kept: "entries (os_run l os1) (PidFilePath c) \<noteq> None"
    using written_entry [OF assms(6) [OF pid(2)]] .
  obtain r c1 f1 w1 where start: "StartDNSServer ce bt g c f w = (r, c1, f1, w1)"
    by (metis prod_cases4)
  note p1 = start_pid_path [OF start]
  have deferred: "entries (remove_deferred c' v) (PidFilePath c) = None"
    if "PidFilePath c' = PidFilePath c" "same_faults os1 v" for c' v
    using that rm pid(1) remove_deferred_removes [of v c'] by (simp add: same_faults_def)
  have "entries (end_os out) (PidFilePath c) = None \<longleftrightarrow> removes_pid (exit_by out)"
  proof (cases "killed_at l = Some Starting")
    case True
    then show ?thesis
      using pid(1) assms(1) kept by (simp add: out_def run_main_def gone_def)
  next
    case alive: False
    show ?thesis
    proof (cases r)
      case (Inl p)
      then show ?thesis
        using alive assms(1,3) pid(1) start deferred [OF p1, of os1] written_entry [OF pid(2)]
        by (simp add: out_def run_main_def gone_def)
    next
      case (Inr s)
      obtain ticks http where s: "s = (ticks, http)"
        by (cases s)
      obtain crashed c2 f2 where ticking: "(if persistenceTicker ticks
          then save_ticks ce (boot_disk bt) (boot_codec bt) (saves l) c1 f1 else (False, c1, f1)) = (crashed, c2, f2)"
        by (metis prod_cases3)
      then have p2: "PidFilePath c2 = PidFilePath c"
        using p1 save_ticks_pid_path [of ce "boot_disk bt" "boot_codec bt" "saves l" c1 f1] by (auto split: if_splits)
      have "\<not> remove_fails (os_run l os1) (PidFilePath c)"
        using rm assms(4) [of os1] by (simp add: same_faults_def)
      note down = shutdown_pid [OF p2 pid(1) this assms(5) kept]
      have "same_faults os1 (os_between l (os_run l os1))"
        using assms(4,5) same_faults_trans by meson
      note returned = deferred [OF p2 this]
      show ?thesis
        using alive pid(1) assms(1,3) start Inr s ticking kept down returned
        by (cases "ended_by l") (auto simp: out_def run_main_def gone_def Let_def)
    qed
  qed
  then show ?thesis
    by (cases "exit_by out") simp_all
qed

lemma create_over_stale:
  assumes "pid_written path pid os" and "\<not> isProcessRunning os pid" and "- (2 ^ 63) \<le> pid" and "pid < 2 ^ 63"
    and "path \<noteq> ''''" and "\<not> mkdir_fails os path" and "\<not> read_fails os path" and "\<not> remove_fails os path"
    and "\<not> open_fails os path" and "\<not> write_fails os path"
  shows "fst (CreatePidFile path q os) = None"
proof -
  obtain i where i: "entries os path = Some i" "inodes os i = itoa pid"
    using assms(1) by (auto simp: pid_written_def)
  have "check_read path os = CleanUp"
    using i assms(2,7) atoi_itoa [OF assms(3,4)] by (intro check_read_stale [of _ _ "itoa pid"]) (auto simp: os_read_def)
  then show ?thesis
    using i assms(5-10) by (simp add: CreatePidFile_def checkExistingPidFile_def os_defs)
qed


section \<open>A life at home\<close>

definition quiet_life ::
    "event \<Rightarrow> ((string \<times> RR list option \<times> nanos) list, (string \<times> string \<times> nanos) list, CacheSnapshot option) life" where
  "quiet_life e = \<lparr>killed_at = None, served = (\<lambda>_. home_running), saves = [], os_run = id, ended_by = e, batcher_at = batch_start,
     items_at = second, saved_at = second, stop = \<lparr>before = id, in_time = (\<lambda>_. True), finishes = False\<rparr>,
     os_between = id, cut_after = None, in_flight = id\<rparr>"

abbreviation pid_config :: Config where
  "pid_config \<equiv> home_config\<lparr>PidFilePath := ''p''\<rparr>"

lemma pid_config_disk: "disk_works good_disk (CachePersistenceFile pid_config)" "EnableCachePersistence pid_config"
  using home_disk_works by (simp_all add: home_persistence)

lemma quiet_create:
  obtains os1 where "CreatePidFile ''p'' 7 quiet_world = (None, os1)"
proof -
  have "fst (CreatePidFile ''p'' 7 quiet_world) = None"
    by (simp add: CreatePidFile_def checkExistingPidFile_def check_read_def os_defs quiet_world_def)
  then show thesis
    using that by (metis prod.collapse)
qed

lemma pid_config_starts:
  obtains ticks http c1 f1 w1 where "StartDNSServer home_env (default_boot (\<lambda>_. '''')) home_global pid_config no_files
      (boot_world [] small_recorder) = (Inr (ticks, http), c1, f1, w1)"
proof -
  have "boot_disk (default_boot (\<lambda>_. '''')) = good_disk" "boot_env (default_boot (\<lambda>_. '''')) = (\<lambda>_. '''')"
    "0 < boot_interval (default_boot (\<lambda>_. ''''))" "boot_alloc (default_boot (\<lambda>_. '''')) = roomy"
    by (simp_all add: default_boot_def unset_env unit_defs)
  then show thesis
    using that by (rule home_starts_pid)
qed

abbreviation home_life :: "event \<Rightarrow> ((string \<times> RR list option \<times> nanos) list, (string \<times> string \<times> nanos) list,
    CacheSnapshot option) outcome" where
  "home_life e \<equiv> run_main home_env (default_boot (\<lambda>_. '''')) home_global (quiet_life e) 7 pid_config
     (boot_world [] small_recorder) no_files quiet_world"

lemma home_alive:
  obtains ticks http c1 f1 w1 os1 where
    "CreatePidFile (PidFilePath pid_config) 7 quiet_world = (None, os1)"
    "StartDNSServer home_env (default_boot (\<lambda>_. '''')) home_global pid_config no_files
      (boot_world [] small_recorder) = (Inr (ticks, http), c1, f1, w1)"
    "end_os (home_life KillSignal) = os1" "end_os (home_life ListenFailed) = os1"
    "exit_by (home_life KillSignal) = Killed 0" "exit_by (home_life ListenFailed) = Fatal ListenError"
    "exit_by (home_life Signal) \<noteq> Crashed"
proof -
  obtain os1 where p: "CreatePidFile (PidFilePath pid_config) 7 quiet_world = (None, os1)"
    using quiet_create by auto
  obtain ticks http c1 f1 w1 where start: "StartDNSServer home_env (default_boot (\<lambda>_. '''')) home_global pid_config no_files
      (boot_world [] small_recorder) = (Inr (ticks, http), c1, f1, w1)"
    by (rule pid_config_starts)
  have ends: "home_life e =
      (let f = in_flight (quiet_life e) f1
       in case e of
         Signal \<Rightarrow> let out = graceful_shutdown home_env (default_boot (\<lambda>_. '''')) (quiet_life e) c1 ticks home_running f1 os1
           in out\<lparr>end_fs := in_flight (quiet_life e) (end_fs out)\<rparr>
       | ListenFailed \<Rightarrow> gone (Fatal ListenError) os1 f
       | ListenReturned \<Rightarrow> gone Exited (remove_deferred c1 os1) f
       | KillSignal \<Rightarrow> gone (Killed 0) os1 f
       | GoroutinePanic \<Rightarrow> gone Crashed os1 f)" for e
    using p start by (cases e) (simp_all add: run_main_def quiet_life_def Let_def)
  have "exit_by (graceful_shutdown home_env (default_boot (\<lambda>_. '''')) l c ts w f os) \<noteq> Crashed" for l c ts w f os
    by (simp add: graceful_shutdown_def Let_def split: prod.split)
  then show thesis
    by (intro that [OF p start]) (simp_all add: ends gone_def Let_def)
qed

theorem signal_shutdown_witness:
  "exit_by (home_life Signal) = Exited \<and> entries (end_os (home_life Signal)) ''p'' = None \<and>
     (\<exists>text. fs_files (end_fs (home_life Signal)) ''/app/cache/dns_cache.json'' = Some text)"
proof -
  obtain ticks http c1 f1 w1 os1 where p: "CreatePidFile (PidFilePath pid_config) 7 quiet_world = (None, os1)"
    and start: "StartDNSServer home_env (default_boot (\<lambda>_. '''')) home_global pid_config no_files
      (boot_world [] small_recorder) = (Inr (ticks, http), c1, f1, w1)"
    and alive: "exit_by (home_life Signal) \<noteq> Crashed"
    by (rule home_alive)
  have b: "boot_disk (default_boot (\<lambda>_. '''')) = good_disk" "boot_codec (default_boot (\<lambda>_. '''')) = home_codec"
    "boot_alloc (default_boot (\<lambda>_. '''')) = roomy"
    by (simp_all add: default_boot_def)
  note l = quiet_life_def [of Signal]
  have enc: "\<exists>text. encode_json home_codec s = Some text" for s
    by (simp add: home_codec_def)
  have rm: "\<not> remove_fails quiet_world (PidFilePath pid_config)"
    by (simp add: quiet_world_def)
  have drain: "make_slice roomy (drainBatchSize (rec (batch_start (metrics home_running)))) = Allocated"
    by (simp add: batch_start_def home_running_def home_start_def small_recorder_def)
  obtain bytes where t: "encode_json home_codec (take_snapshot home_codec pid_config (saved_at (quiet_life Signal))
       (gc_items (ce_dns home_env) (DnsCache (served (quiet_life Signal) w1)) (items_at (quiet_life Signal)))
       (accessTracker (served (quiet_life Signal) w1))) = Some bytes"
    using enc by blast
  show ?thesis
    using signal_shutdown [OF p rm start _ _ _ _ _ _ _ _ _ t [folded b(2)] _ alive] l b(1,3) pid_config_disk home_no_nil drain
    by (auto simp: home_persistence)
qed

theorem pid_file_removed_iff_witness:
  "exit_by (home_life KillSignal) = Killed 0 \<and> entries (end_os (home_life KillSignal)) ''p'' \<noteq> None"
proof -
  obtain os1 where p: "CreatePidFile (PidFilePath pid_config) 7 quiet_world = (None, os1)"
    and k: "exit_by (home_life KillSignal) = Killed 0"
    by (rule home_alive)
  have rm: "\<not> remove_fails quiet_world (PidFilePath pid_config)"
    by (simp add: quiet_world_def)
  show ?thesis
    using pid_file_removed_iff [OF p rm, of "quiet_life KillSignal", OF _ _ _ _ refl] k by (simp add: quiet_life_def)
qed


end
