(* ===== verification/Requests.thy ===== *)
theory Requests
  imports Server
begin

text \<open>
  Concurrent calls of the cached resolver, \<open>ResolverWithCache\<close> of \<open>cache/cache.go\<close> with the functions
  of \<open>dnsresolver\<close> it calls. The DNS library runs each request in a goroutine of its own and
  nothing in the program keeps two of them apart, so here a call is a program counter:
  the lookup, the choice of servers, each exchange and the deferred write are steps of their own,
  between which other calls, refreshes, health checks and reloads of the routes may happen.

  The cache locks itself; the routing table and the server lists are read through one atomic pointer
  each, and what is asked after the choice is this choice, even if a reload or a health check has
  replaced both. Two steps hold more than one access: the choice may look up a MAC address first,
  and the deferred part of a hit counts and tracks (theory \<open>TrackerRace\<close> takes the tracking apart).
\<close>

section \<open>One call\<close>

record query =
  q_domain :: string
  q_type :: u16
  q_client :: string

datatype call_pc =
  Lookup
| Hit "RR list option" \<comment> \<open>the deferred metrics and tracking are left\<close>
| Choose
| Ask "string list" "string list" \<comment> \<open>the servers not asked so far\<close>
| Store "RR list option" \<comment> \<open>the deferred write is left\<close>
| Finish "RR list option"

definition query_key :: "('c, 'd) cache_env \<Rightarrow> query \<Rightarrow> string" where
  "query_key ce q = CacheKey (env_fqdn (ce_res ce)) (q_domain q) (q_type q)"

text \<open>One exchange of the loops over the servers.\<close>

definition ask_one ::
    "('c, 'd) cache_env \<Rightarrow> query \<Rightarrow> string \<Rightarrow> call_pc \<Rightarrow> ('c, 'd) world \<Rightarrow> call_pc \<times> ('c, 'd) world" where
  "ask_one ce q svr otherwise w =
     (let e = ce_res ce
      in case exchangeWithServer (env_cfg e) (env_net e) (prepareDNSQuery (env_fqdn e) (q_domain q) (q_type q)) svr
             (resolver w) of
           ((answer, ok), rs) \<Rightarrow> (if ok then Store answer else otherwise,
             w\<lparr>resolver := rs, metrics := record_calls (resolver w) rs (metrics w)\<rparr>))"

fun call_step ::
    "('c, 'd) cache_env \<Rightarrow> arp_world \<Rightarrow> nanos \<Rightarrow> query \<Rightarrow> call_pc \<Rightarrow> ('c, 'd) world \<Rightarrow>
     (client_panic + call_pc) \<times> ('c, 'd) world" where
  "call_step ce aw now q Lookup w =
     (case LoadFromCache ce now (query_key ce q) (DnsCache w) of
        Some answers \<Rightarrow> (Inr (Hit answers), w) | None \<Rightarrow> (Inr Choose, w))"
| "call_step ce aw now q (Hit a) w =
     (Inr (Finish a), on_hit ce now (query_key ce q) (q_domain q) (q_type q) w)"
| "call_step ce aw now q Choose w =
     (case (if DomainRoutingOn ce then map_of (GetRoutingTable (routing w)) (q_domain q) else None) of
        Some svr \<Rightarrow> (Inr (Ask [svr] []), w)
      | None \<Rightarrow>
          (case select_servers (env_gocache (ce_res ce)) (env_cfg (ce_res ce)) (aw, now) (q_client q) (sources w) of
             (Inl p, src) \<Rightarrow> (Inl p, w\<lparr>sources := src\<rparr>)
           | (Inr (privs, pubs), src) \<Rightarrow> (Inr (Ask privs pubs), w\<lparr>sources := src\<rparr>)))"
| "call_step ce aw now q (Ask (svr # privs) pubs) w =
     (case ask_one ce q svr (Ask privs pubs) w of (pc, w1) \<Rightarrow> (Inr pc, w1))"
| "call_step ce aw now q (Ask [] (svr # pubs)) w =
     (case ask_one ce q svr (Ask [] pubs) w of (pc, w1) \<Rightarrow> (Inr pc, w1))"
| "call_step ce aw now q (Ask [] []) w = (Inr (Store None), w)"
| "call_step ce aw now q (Store a) w =
     (let w1 = w\<lparr>DnsCache := gc_set (ce_dns ce) (DnsCache w) now (query_key ce q) a (answer_ttl ce a)\<rparr>
      in (Inr (Finish a), if MetricsOn ce then w1\<lparr>metrics := FastRecordCacheMiss (metrics w1)\<rparr> else w1))"
| "call_step ce aw now q (Finish a) w = (Inr (Finish a), w)"

section \<open>Many calls\<close>

text \<open>
  The updater with its history of resolved questions, and the calls; the answer of a call enters
  the history when it is there. Besides the steps of calls: everything the server does in the
  background.
\<close>

record ('c, 'd) serving =
  background :: "('c, 'd) updater"
  calls :: "(query \<times> call_pc) list"

definition resolved_now :: "('c, 'd) cache_env \<Rightarrow> query \<Rightarrow> call_pc \<Rightarrow> (string \<times> RR list option) list" where
  "resolved_now ce q pc = (case pc of Store a \<Rightarrow> [(query_key ce q, a)] | _ \<Rightarrow> [])"

inductive serving_step ::
    "(u16 \<Rightarrow> string) \<Rightarrow> ('c, 'd) cache_env \<Rightarrow> ('c, 'd) serving \<Rightarrow> ('c, 'd) serving \<Rightarrow> bool"
  for type_name ce where
  arrive: "serving_step type_name ce s (s\<lparr>calls := calls s @ [(q, Lookup)]\<rparr>)"
| advance: "i < length (calls s) \<Longrightarrow> calls s ! i = (q, pc) \<Longrightarrow>
    call_step ce aw now q pc (su_world (background s)) = (Inr pc', w) \<Longrightarrow>
    serving_step type_name ce s
      (s\<lparr>background := (background s)\<lparr>su_world := w, history := history (background s) @ resolved_now ce q pc'\<rparr>,
         calls := (calls s)[i := (q, pc')]\<rparr>)"
| updater: "updater_step type_name ce (background s) u \<Longrightarrow> serving_step type_name ce s (s\<lparr>background := u\<rparr>)"
| health: "source_step (env_cfg (ce_res ce)) (fst (sources (su_world (background s)))) src \<Longrightarrow>
    serving_step type_name ce s (s\<lparr>background := (background s)\<lparr>su_world :=
      (su_world (background s))\<lparr>sources := (src, snd (sources (su_world (background s))))\<rparr>\<rparr>\<rparr>)"
| reload: "routing_step (env_cfg (ce_res ce)) (routing (su_world (background s))) rs \<Longrightarrow>
    serving_step type_name ce s (s\<lparr>background := (background s)\<lparr>su_world :=
      (su_world (background s))\<lparr>routing := rs\<rparr>\<rparr>\<rparr>)"
| flush: "serving_step type_name ce s (s\<lparr>background := (background s)\<lparr>su_world :=
      (su_world (background s))\<lparr>metrics := m\<rparr>\<rparr>\<rparr>)"

definition serving_start :: "('c, 'd) world \<Rightarrow> ('c, 'd) serving" where
  "serving_start w = \<lparr>background = updater_start w, calls = []\<rparr>"

section \<open>A call alone\<close>

text \<open>The clock of \<open>ResolverWithCache\<close>, read where the steps read it.\<close>

fun clock_at :: "call_times \<Rightarrow> call_pc \<Rightarrow> nanos" where
  "clock_at tm Lookup = t_get tm"
| "clock_at tm (Hit a) = t_get tm"
| "clock_at tm Choose = t_resolve tm"
| "clock_at tm (Ask ps qs) = t_resolve tm"
| "clock_at tm (Store a) = t_set tm"
| "clock_at tm (Finish a) = t_set tm"

fun call_alone ::
    "('c, 'd) cache_env \<Rightarrow> arp_world \<Rightarrow> call_times \<Rightarrow> query \<Rightarrow> nat \<Rightarrow> (client_panic + call_pc) \<times> ('c, 'd) world \<Rightarrow>
     (client_panic + call_pc) \<times> ('c, 'd) world" where
  "call_alone ce aw tm q 0 s = s"
| "call_alone ce aw tm q (Suc n) (Inl p, w) = (Inl p, w)"
| "call_alone ce aw tm q (Suc n) (Inr pc, w) = call_alone ce aw tm q n (call_step ce aw (clock_at tm pc) q pc w)"

text \<open>At most this many more steps.\<close>

fun call_rank :: "call_pc \<Rightarrow> nat" where
  "call_rank (Ask privs pubs) = length privs + length pubs + 2"
| "call_rank (Finish a) = 0"
| "call_rank _ = 1"

lemma alone_panic: "call_alone ce aw tm q n (Inl p, w) = (Inl p, w)"
  by (cases n) simp_all

lemma alone_finish: "call_alone ce aw tm q n (Inr (Finish a), w) = (Inr (Finish a), w)"
  by (induction n) simp_all

lemma alone_store:
  "1 \<le> n \<Longrightarrow> call_alone ce aw tm q n (Inr (Store a), w) = call_step ce aw (t_set tm) q (Store a) w"
  by (cases n) (simp_all add: alone_finish Let_def)

lemma ask_one_eq:
  "ask_one ce q svr pc w =
     (let e = ce_res ce; m = prepareDNSQuery (env_fqdn e) (q_domain q) (q_type q);
          x = env_net e (length (contacted (resolver w))) m svr;
          rs = snd (exchangeWithServer (env_cfg e) (env_net e) m svr (resolver w))
      in (if failed x then pc else Store (attempt_answer x),
          w\<lparr>resolver := rs, metrics := record_calls (resolver w) rs (metrics w)\<rparr>))"
  using exchange_result(1) [of "env_cfg (ce_res ce)" "env_net (ce_res ce)"
      "prepareDNSQuery (env_fqdn (ce_res ce)) (q_domain q) (q_type q)" svr "resolver w"]
  by (auto simp: ask_one_def Let_def split: prod.splits)

text \<open>The resolver's list of calls on the recorder only grows, so it may be applied in parts.\<close>

lemma exchange_recorded: "prefix (recorded s) (recorded (snd (exchangeWithServer c net m svr s)))"
  by (simp add: exchangeWithServer_def Let_def split: option.split)

lemma try_recorded: "prefix (recorded s) (recorded (snd (try_servers c net m ss s)))"
proof (induction ss arbitrary: s)
  case (Cons svr ss)
  then show ?case
    using exchange_recorded [of s c net m svr] prefix_order.trans
    by (fastforce simp: try_servers_Cons Let_def simp del: try_servers.simps(2))
qed simp

lemma record_calls_refl [simp]: "record_calls rs rs f = f"
  by (simp add: record_calls_def)

lemma record_calls_trans:
  assumes "prefix (recorded r0) (recorded r1)" and "prefix (recorded r1) (recorded r2)"
  shows "record_calls r1 r2 (record_calls r0 r1 f) = record_calls r0 r2 f"
  using assms by (auto simp: record_calls_def elim!: prefixE)

text \<open>A resolution that has come to an end.\<close>

definition resolved_world :: "('c, 'd) world \<Rightarrow> resolver_state \<Rightarrow> ('c, 'd) world" where
  "resolved_world w rs = w\<lparr>resolver := rs, metrics := record_calls (resolver w) rs (metrics w)\<rparr>"

lemma resolved_world_trans:
  assumes "prefix (recorded (resolver w)) (recorded r1)" and "prefix (recorded r1) (recorded r2)"
  shows "resolved_world (resolved_world w r1) r2 = resolved_world w r2"
  using record_calls_trans [OF assms] by (simp add: resolved_world_def)

lemma ask_one_world:
  "ask_one ce q svr pc w =
     (let e = ce_res ce; m = prepareDNSQuery (env_fqdn e) (q_domain q) (q_type q);
          x = env_net e (length (contacted (resolver w))) m svr
      in (if failed x then pc else Store (attempt_answer x),
          resolved_world w (snd (exchangeWithServer (env_cfg e) (env_net e) m svr (resolver w)))))"
  by (simp add: ask_one_eq resolved_world_def Let_def)

text \<open>The exchanges one after the other are the loops of \<open>upstreamDNSQuery\<close>.\<close>

lemma alone_ask_all:
  fixes ce :: "('c, 'd) cache_env"
  defines "try ss s \<equiv> \<lambda>q. try_servers (env_cfg (ce_res ce)) (env_net (ce_res ce)) (prepareDNSQuery (env_fqdn (ce_res ce)) (q_domain q) (q_type q)) ss s"
  shows "call_rank (Ask privs pubs) \<le> n \<Longrightarrow>
     call_alone ce aw tm q n (Inr (Ask privs pubs), w) =
       (case try (privs @ pubs) (resolver w) q of
          (r, rs) \<Rightarrow> call_step ce aw (t_set tm) q (Store (case r of Some a \<Rightarrow> a | None \<Rightarrow> None)) (resolved_world w rs))"
proof (induction "privs @ pubs" arbitrary: privs pubs n w)
  case Nil
  then show ?case
    by (cases n) (simp_all add: try_def alone_store resolved_world_def del: call_step.simps(7))
next
  case (Cons svr rest)
  then obtain k where n: "n = Suc k"
    by (cases n) simp_all
  let ?e = "ce_res ce"
  let ?x = "snd (exchangeWithServer (env_cfg ?e) (env_net ?e) (prepareDNSQuery (env_fqdn ?e) (q_domain q) (q_type q)) svr
      (resolver w))"
  obtain r rs where t: "try rest ?x q = (r, rs)"
    by fastforce
  have world: "resolved_world (resolved_world w ?x) rs = resolved_world w rs"
    using exchange_recorded try_recorded [of ?x] t unfolding try_def by (metis resolved_world_trans snd_conv)
  have res: "resolver (resolved_world w ?x) = ?x"
    by (simp add: resolved_world_def)
  obtain ps qs where next_pc: "call_step ce aw (t_resolve tm) q (Ask privs pubs) w =
      (case ask_one ce q svr (Ask ps qs) w of (pc, w1) \<Rightarrow> (Inr pc, w1))" "rest = ps @ qs"
  proof (cases privs)
    case Nil
    then show thesis
      using Cons.hyps(2) by (intro that [of "[]" rest]) auto
  next
    case (Cons v vs)
    then show thesis
      using \<open>svr # rest = privs @ pubs\<close> by (intro that [of vs pubs]) auto
  qed
  have "call_rank (Ask ps qs) \<le> k" "1 \<le> k"
    using arg_cong [OF Cons.hyps(2), of length] Cons.prems n next_pc(2) by simp_all
  with next_pc n t world res Cons.hyps(1) [OF next_pc(2), of k "resolved_world w ?x"] show ?case
    unfolding Cons.hyps(2) [symmetric]
    by (simp add: ask_one_world try_def try_servers_Cons alone_store Let_def
        del: call_step.simps try_servers.simps(2))
qed

lemma alone_ask:
  "call_rank (Ask privs pubs) \<le> n \<Longrightarrow>
     call_alone ce aw tm q n (Inr (Ask privs pubs), w) =
       (case upstreamDNSQuery (env_cfg (ce_res ce)) (env_net (ce_res ce)) privs pubs
              (prepareDNSQuery (env_fqdn (ce_res ce)) (q_domain q) (q_type q)) (resolver w) of
          (a, rs) \<Rightarrow> call_step ce aw (t_set tm) q (Store a) (resolved_world w rs))"
  unfolding alone_ask_all upstream_try by (simp split: prod.split option.split del: call_step.simps)

section \<open>What every step keeps\<close>

fun pc_servers :: "call_pc \<Rightarrow> string set" where
  "pc_servers (Ask privs pubs) = set privs \<union> set pubs"
| "pc_servers _ = {}"

fun pc_answer :: "call_pc \<Rightarrow> RR list option option" where
  "pc_answer (Hit a) = Some a"
| "pc_answer (Store a) = Some a"
| "pc_answer (Finish a) = Some a"
| "pc_answer _ = None"

lemma ask_one_servers:
  "ask_one ce q svr pc w = (pc', w') \<Longrightarrow> pc_servers pc' \<subseteq> pc_servers pc"
  by (auto simp: ask_one_eq Let_def split: if_splits)

lemma ask_one_same:
  "ask_one ce q svr pc w = (pc', w') \<Longrightarrow>
     sources w' = sources w \<and> routing w' = routing w \<and> contacted (resolver w') = contacted (resolver w) @ [svr]"
  by (auto simp: ask_one_eq exchange_result(2) Let_def)

lemma ask_one_ok:
  assumes "ask_one ce q svr pc w = (pc', w')" and "server_ok ce A w" and "A (q_domain q) svr"
  shows "server_ok ce A w'"
proof -
  from ask_one_same [OF assms(1)] assms(2,3) show ?thesis
    by (auto simp: server_ok_def routed_def)
qed

lemma server_ok_on_hit: "server_ok ce A w \<Longrightarrow> server_ok ce A (on_hit ce now k d qt w)"
  by (erule server_ok_cong) simp_all

lemma server_ok_store:
  "server_ok ce A w \<Longrightarrow> server_ok ce A (w\<lparr>DnsCache := m\<rparr>) \<and> server_ok ce A (w\<lparr>DnsCache := m, metrics := f\<rparr>)"
  by (auto intro: server_ok_cong)

text \<open>A step of a call does not panic, and it keeps to allowed servers.\<close>

lemma call_step_ok:
  assumes "server_ok ce A w" and "\<forall>v \<in> pc_servers pc. A (q_domain q) v"
  obtains pc' w' where "call_step ce aw now q pc w = (Inr pc', w')" "server_ok ce A w'"
    "\<forall>v \<in> pc_servers pc'. A (q_domain q) v" "routing w' = routing w"
proof (cases "(ce, aw, now, q, pc, w)" rule: call_step.cases)
  case (1 ce' aw' now' q' w')
  with assms that show ?thesis
    by (cases "LoadFromCache ce now (query_key ce q) (DnsCache w)") auto
next
  case (2 ce' aw' now' q' a w')
  with assms that show ?thesis
    by (auto simp: server_ok_on_hit)
next
  case (3 ce' aw' now' q' w')
  note ok = assms(1) [unfolded server_ok_def]
  show ?thesis
  proof (cases "if DomainRoutingOn ce then map_of (GetRoutingTable (routing w)) (q_domain q) else None")
    case None
    obtain privs pubs src where sel: "select_servers (env_gocache (ce_res ce)) (env_cfg (ce_res ce)) (aw, now) (q_client q)
        (sources w) = (Inr (privs, pubs), src)" and src: "source_ok (env_cfg (ce_res ce)) src"
      using ok configured_servers.select_cases by metis
    have "set privs \<union> set pubs \<subseteq> set (PrivateServers (env_cfg (ce_res ce))) \<union> set (PublicServers (env_cfg (ce_res ce)))"
      using ok sel configured_servers.select_known [of "env_cfg (ce_res ce)" "sources w" "env_gocache (ce_res ce)" "(aw, now)" "q_client q"]
      by simp
    then have "\<forall>v \<in> set privs \<union> set pubs. A (q_domain q) v"
      using ok by (auto simp: configured_def)
    moreover have "server_ok ce A (w\<lparr>sources := src\<rparr>)"
      using assms(1) src by (auto simp: server_ok_def routed_def)
    ultimately show ?thesis
      using None sel 3 that by (auto split: if_splits)
  next
    case (Some svr)
    then have "A (q_domain q) svr"
      using ok by (auto simp: routed_def split: if_splits)
    with Some assms(1) 3 that show ?thesis
      by (auto split: if_splits)
  qed
next
  case (4 ce' aw' now' q' svr privs pubs w')
  obtain pc1 w1 where a: "ask_one ce q svr (Ask privs pubs) w = (pc1, w1)"
    by fastforce
  with 4 assms ask_one_ok [OF a] ask_one_servers [OF a] ask_one_same [OF a] that show ?thesis
    by (auto simp: subset_iff)
next
  case (5 ce' aw' now' q' svr pubs w')
  obtain pc1 w1 where a: "ask_one ce q svr (Ask [] pubs) w = (pc1, w1)"
    by fastforce
  with 5 assms ask_one_ok [OF a] ask_one_servers [OF a] ask_one_same [OF a] that show ?thesis
    by (auto simp: subset_iff)
next
  case (6 ce' aw' now' q' w')
  with assms that show ?thesis
    by auto
next
  case (7 ce' aw' now' q' a w')
  with assms that show ?thesis
    by (auto simp: server_ok_store Let_def split: if_splits)
next
  case (8 ce' aw' now' q' a w')
  with assms that show ?thesis
    by auto
qed

lemma call_step_total:
  assumes "server_ok ce A w" and "\<forall>v \<in> pc_servers pc. A (q_domain q) v"
  shows "\<exists>pc' w'. call_step ce aw now q pc w = (Inr pc', w')"
  using assms by (rule call_step_ok) blast

definition serving_ok :: "('c, 'd) cache_env \<Rightarrow> (string \<Rightarrow> string \<Rightarrow> bool) \<Rightarrow> ('c, 'd) serving \<Rightarrow> bool" where
  "serving_ok ce A s \<longleftrightarrow> server_ok ce A (su_world (background s)) \<and>
     (\<forall>(q, pc) \<in> set (calls s). \<forall>v \<in> pc_servers pc. A (q_domain q) v)"

lemma serving_ok_mono:
  "serving_ok ce A s \<Longrightarrow> (\<And>d v. A d v \<Longrightarrow> B d v) \<Longrightarrow> serving_ok ce B s"
  unfolding serving_ok_def using server_ok_mono [of ce A _ B] by blast

lemma serving_ok_pc:
  "serving_ok ce A s \<Longrightarrow> i < length (calls s) \<Longrightarrow> calls s ! i = (q, pc) \<Longrightarrow>
     \<forall>v \<in> pc_servers pc. A (q_domain q) v"
  unfolding serving_ok_def using nth_mem by fastforce

text \<open>As for the server, a step may bring new routes.\<close>

lemma serving_ok_step:
  assumes "serving_step type_name ce s s'" and "serving_ok ce A s"
    and "\<And>d v. A d v \<Longrightarrow> B d v" and "\<And>d v. valid_upstream v \<Longrightarrow> routed (su_world (background s')) d v \<Longrightarrow> B d v"
  shows "serving_ok ce B s'"
  using assms
proof (induction rule: serving_step.induct)
  case (arrive s q)
  then have "serving_ok ce A (s\<lparr>calls := calls s @ [(q, Lookup)]\<rparr>)"
    by (auto simp: serving_ok_def)
  then show ?case
    using arrive.prems(2) by (rule serving_ok_mono)
next
  case (advance i s q pc aw now pc' w)
  have "server_ok ce A (su_world (background s))"
    using advance.prems by (simp add: serving_ok_def)
  then have "server_ok ce A w \<and> (\<forall>v \<in> pc_servers pc'. A (q_domain q) v)"
    using serving_ok_pc [OF advance.prems(1) advance.hyps(1,2)] advance.hyps(3)
    by (metis call_step_ok prod.inject sum.inject(2))
  with advance.prems(1) have "serving_ok ce A
      (s\<lparr>background := (background s)\<lparr>su_world := w, history := history (background s) @ resolved_now ce q pc'\<rparr>,
         calls := (calls s)[i := (q, pc')]\<rparr>)"
    by (auto simp: serving_ok_def dest!: set_update_cases)
  then show ?case
    using advance.prems(2) by (rule serving_ok_mono)
next
  case (updater s u)
  then have "serving_ok ce A (s\<lparr>background := u\<rparr>)"
    by (auto simp: serving_ok_def intro: updater_ok)
  then show ?case
    using updater.prems(2) by (rule serving_ok_mono)
next
  case (health s src)
  then have "serving_ok ce A (s\<lparr>background := (background s)\<lparr>su_world :=
      (su_world (background s))\<lparr>sources := (src, snd (sources (su_world (background s))))\<rparr>\<rparr>\<rparr>)"
    using server_ok_health [OF _ health.hyps] by (simp add: serving_ok_def)
  then show ?case
    using health.prems(2) by (rule serving_ok_mono)
next
  case (reload s rs)
  let ?w = "su_world (background s)"
  have ok: "server_ok ce A ?w"
    using reload.prems(1) by (simp add: serving_ok_def)
  then have inv: "routing_inv rs"
    using routing_inv_step reload.hyps unfolding server_ok_def by blast
  have "valid_upstream v" if "routed (?w\<lparr>routing := rs\<rparr>) d v" for d v
    using that table_routes.route_valid [OF inv] by (simp add: routed_def route_lookup_def)
  then have "server_ok ce B (?w\<lparr>routing := rs\<rparr>)"
    using reload.prems(3) by (intro server_ok_reload [OF ok inv reload.prems(2)]) simp_all
  with reload.prems(1,2) show ?case
    unfolding serving_ok_def by auto
next
  case (flush s m)
  then have "serving_ok ce A (s\<lparr>background := (background s)\<lparr>su_world := (su_world (background s))\<lparr>metrics := m\<rparr>\<rparr>\<rparr>)"
    by (auto simp: serving_ok_def intro: server_ok_cong)
  then show ?case
    using flush.prems(2) by (rule serving_ok_mono)
qed

text \<open>Where the answers come from.\<close>

text \<open>An answer to the question of \<open>k\<close> that was resolved, or that the cache of the start held.\<close>

definition answered :: "('c, 'd) cache_env \<Rightarrow> 'c \<Rightarrow> (string \<times> RR list option) list \<Rightarrow> string \<Rightarrow> RR list option \<Rightarrow> bool" where
  "answered ce m0 h k a \<longleftrightarrow> (k, a) \<in> set h \<or> (\<exists>t. LoadFromCache ce t k m0 = Some a)"

lemma answered_append: "answered ce m0 h k a \<Longrightarrow> answered ce m0 (h @ h') k a"
  by (auto simp: answered_def)

lemma answered_last: "answered ce m0 (h @ [(k, a)]) k a"
  by (simp add: answered_def)

lemma answered_lookup:
  "from_history ce m0 m h \<Longrightarrow> LoadFromCache ce t k m = Some a \<Longrightarrow> answered ce m0 h k a"
  by (auto simp: from_history_def answered_def)

text \<open>What is resolved and not yet stored is in the history.\<close>

fun pc_resolved :: "call_pc \<Rightarrow> RR list option option" where
  "pc_resolved (Store a) = Some a"
| "pc_resolved _ = None"

definition answers_ok :: "('c, 'd) cache_env \<Rightarrow> 'c \<Rightarrow> ('c, 'd) serving \<Rightarrow> bool" where
  "answers_ok ce m0 s \<longleftrightarrow> updater_inv ce m0 (background s) \<and>
     (\<forall>(q, pc) \<in> set (calls s). \<forall>a.
        (pc_answer pc = Some a \<longrightarrow> answered ce m0 (history (background s)) (query_key ce q) a) \<and>
        (pc_resolved pc = Some a \<longrightarrow> (query_key ce q, a) \<in> set (history (background s))))"

lemma updater_history: "updater_step type_name ce u u' \<Longrightarrow> set (history u) \<subseteq> set (history u')"
  by (induction rule: updater_step.induct)
    (auto simp: updateStaleEntries_def scan_key_def Let_def split: option.split)

lemma call_step_answer:
  assumes "call_step ce aw now q pc w = (Inr pc', w')" and "from_history ce m0 (DnsCache w) h"
    and "\<And>a. pc_answer pc = Some a \<Longrightarrow> answered ce m0 h (query_key ce q) a" and "pc_answer pc' = Some b"
  shows "answered ce m0 (h @ resolved_now ce q pc') (query_key ce q) b"
  using assms
  by (cases "(ce, aw, now, q, pc, w)" rule: call_step.cases)
    (auto simp: resolved_now_def answered_last answered_append ask_one_eq Let_def dest: answered_lookup
      split: option.splits if_splits sum.splits prod.splits)

lemma call_step_resolved:
  "pc_resolved pc' = Some b \<Longrightarrow> (query_key ce q, b) \<in> set (h @ resolved_now ce q pc')"
  by (cases pc') (simp_all add: resolved_now_def)

lemma call_step_world:
  assumes "call_step ce aw now q pc w = (Inr pc', w')" and "cache_ok ce" and "from_history ce m0 (DnsCache w) h"
    and "\<And>a. pc_resolved pc = Some a \<Longrightarrow> (query_key ce q, a) \<in> set h"
  shows "from_history ce m0 (DnsCache w') h"
    and "tracker_ok (env_fqdn (ce_res ce)) (accessTracker w) \<Longrightarrow> tracker_ok (env_fqdn (ce_res ce)) (accessTracker w')"
proof -
  show "from_history ce m0 (DnsCache w') h"
    using assms from_history_set [OF assms(2,3)]
    by (cases "(ce, aw, now, q, pc, w)" rule: call_step.cases)
      (auto simp: on_hit_def ask_one_eq Let_def split: option.splits if_splits sum.splits prod.splits)
  show "tracker_ok (env_fqdn (ce_res ce)) (accessTracker w) \<Longrightarrow> tracker_ok (env_fqdn (ce_res ce)) (accessTracker w')"
    using assms(1)
    by (cases "(ce, aw, now, q, pc, w)" rule: call_step.cases)
      (auto simp: on_hit_def ask_one_eq query_key_def tracker_ok_track Let_def
        split: option.splits if_splits sum.splits prod.splits)
qed

lemma answers_ok_pc:
  assumes "answers_ok ce m0 s" and "i < length (calls s)" and "calls s ! i = (q, pc)"
  shows "pc_answer pc = Some a \<Longrightarrow> answered ce m0 (history (background s)) (query_key ce q) a"
    and "pc_resolved pc = Some a \<Longrightarrow> (query_key ce q, a) \<in> set (history (background s))"
  using assms nth_mem [OF assms(2)] unfolding answers_ok_def by auto

lemma answers_ok_step:
  assumes "serving_step type_name ce s s'" and ok: "cache_ok ce" and "answers_ok ce m0 s"
  shows "answers_ok ce m0 s'"
  using assms(1,3)
proof (induction rule: serving_step.induct)
  case (arrive s q)
  then show ?case
    by (auto simp: answers_ok_def)
next
  case (advance i s q pc aw now pc' w)
  let ?u = "background s"
  have inv: "updater_inv ce m0 ?u"
    using advance.prems by (simp add: answers_ok_def)
  then have h: "from_history ce m0 (DnsCache (su_world ?u)) (history ?u)"
    by (simp add: updater_inv_def)
  note ans = answers_ok_pc [OF advance.prems advance.hyps(1,2)]
  note world = call_step_world [OF advance.hyps(3) ok h ans(2)]
  note new = call_step_answer [OF advance.hyps(3) h ans(1)] call_step_resolved [of pc' _ ce q "history ?u"]
  have "updater_inv ce m0 (?u\<lparr>su_world := w, history := history ?u @ resolved_now ce q pc'\<rparr>)"
    using inv world by (auto simp: updater_inv_def from_history_append)
  with advance.prems new show ?case
    by (auto simp: answers_ok_def answered_append dest!: set_update_cases)
next
  case (updater s u)
  then show ?case
    using updater_inv_step [OF updater.hyps ok] updater_history [OF updater.hyps]
    by (fastforce simp: answers_ok_def answered_def)
qed (auto simp: answers_ok_def updater_inv_def)

lemma start_tracker_ok:
  assumes "StartDNSServer ce bt g c f w = (Inr started, c1, f1, w1)"
    and "\<And>b snap e ai. decode_json (boot_codec bt) b = Some snap \<Longrightarrow> e \<in> set (Entries snap) \<Longrightarrow>
       EntryAccess e = Some ai \<Longrightarrow> Key e = CacheKey fqdn (Domain ai) (QueryType ai)"
  shows "tracker_ok fqdn (accessTracker w1)"
proof -
  obtain ticks http where st: "started = (ticks, http)"
    by (cases started)
  obtain recorder w0 where init: "Init ce bt c f (w\<lparr>metrics := recorder\<rparr>) = (Inr ticks, c1, f1, w0)"
    and w1: "w1 = w0\<lparr>sources := (InitDNSSource c (fst (sources w0)),
         InitializeClientRouting (env_gocache (ce_res ce)) c (snd (sources w0))),
       routing := InitializeDomainRouting c (boot_loaded bt) (routing w0)\<rparr>"
    using assms(1) unfolding st by (rule StartDNSServer_Inr)
  let ?w = "w\<lparr>metrics := recorder, DnsCache := gc_new (ce_dns ce) (DefaultDNSCacheTTL ce), accessTracker := NewAccessTracker\<rparr>"
  obtain r c2 f2 where load: "LoadCacheFromFile ce (boot_disk bt) (boot_codec bt) (boot_clock bt) (boot_age bt) (boot_now bt)
      c f ?w = (r, c2, f2, w0)"
    using init by (auto simp: Init_def Let_def split: prod.splits sum.splits if_splits)
  have "tracker_ok fqdn (accessTracker ?w)"
    by (simp add: tracker_ok_def NewAccessTracker_def)
  from load_tracker_ok [OF load assms(2) this] show ?thesis
    by (simp add: w1)
qed

section \<open>Properties\<close>


text \<open>From the choice of servers on: what \<open>resolve_query\<close> does, then the write.\<close>

lemma alone_choose:
  "\<exists>k. \<forall>n \<ge> k. call_alone ce aw tm q (Suc n) (Inr Choose, w) =
     (case resolve_query ce (aw, t_resolve tm) (q_domain q) (q_type q) (q_client q) w of
        (Inl p, w1) \<Rightarrow> (Inl p, w1) | (Inr a, w1) \<Rightarrow> call_step ce aw (t_set tm) q (Store a) w1)"
proof (cases "if DomainRoutingOn ce then map_of (GetRoutingTable (routing w)) (q_domain q) else None")
  case (Some svr)
  then have "resolve_query ce (aw, t_resolve tm) (q_domain q) (q_type q) (q_client q) w =
      (case upstreamDNSQuery (env_cfg (ce_res ce)) (env_net (ce_res ce)) [svr] []
          (prepareDNSQuery (env_fqdn (ce_res ce)) (q_domain q) (q_type q)) (resolver w) of
         (a, rs) \<Rightarrow> (Inr a, resolved_world w rs))"
    by (auto simp: resolve_query_def ResolverForDomain_def resolved_world_def Let_def split: if_splits prod.splits)
  with Some alone_ask [of "[svr]" "[]" _ ce aw tm q w] show ?thesis
    by (intro exI [of _ 3]) (simp del: call_step.simps(7) split: prod.split)
next
  case None
  let ?e = "ce_res ce"
  obtain r src where sel: "select_servers (env_gocache ?e) (env_cfg ?e) (aw, t_resolve tm) (q_client q) (sources w) = (r, src)"
    by (rule prod.exhaust)
  from None have "resolve_query ce (aw, t_resolve tm) (q_domain q) (q_type q) (q_client q) w =
      (case ResolverForClient ?e (aw, t_resolve tm) (q_domain q) (q_type q) (q_client q) (sources w) (resolver w) of
         (r, src, rs) \<Rightarrow> (r, resolved_world (w\<lparr>sources := src\<rparr>) rs))"
    by (auto simp: resolve_query_def ResolverForDomain_def resolved_world_def Let_def split: if_splits)
  note res = this [unfolded ResolverForClient_def Let_def sel]
  show ?thesis
  proof (cases r)
    case (Inl p)
    with None sel res show ?thesis
      by (simp add: alone_panic resolved_world_def)
  next
    case (Inr s)
    obtain privs pubs where s: "s = (privs, pubs)"
      by fastforce
    from None sel res Inr s alone_ask [of privs pubs _ ce aw tm q "w\<lparr>sources := src\<rparr>"] show ?thesis
      by (intro exI [of _ "length privs + length pubs + 2"])
        (auto simp del: call_step.simps(7) split: prod.splits)
  qed
qed

text \<open>
  C10: the steps of a call, taken without interruption, are \<open>ResolverWithCache\<close>: from some
  number of steps on they have ended, with the same answer in the same state, or with the same
  panic.
\<close>

theorem call_steps_refine:
  "\<exists>k. \<forall>n. call_alone ce aw tm \<lparr>q_domain = d, q_type = qt, q_client = ip\<rparr> (k + n) (Inr Lookup, w) =
     (case ResolverWithCache ce aw tm d qt ip w of
        (Inl p, w1) \<Rightarrow> (Inl p, w1) | (Inr a, w1) \<Rightarrow> (Inr (Finish a), w1))"
proof -
  let ?q = "\<lparr>q_domain = d, q_type = qt, q_client = ip\<rparr>"
  obtain k where k: "\<forall>n \<ge> k. call_alone ce aw tm ?q (Suc n) (Inr Choose, w) =
      (case resolve_query ce (aw, t_resolve tm) d qt ip w of
         (Inl p, w1) \<Rightarrow> (Inl p, w1) | (Inr a, w1) \<Rightarrow> call_step ce aw (t_set tm) ?q (Store a) w1)"
    using alone_choose [of ce aw tm ?q w] by auto
  have "\<forall>m \<ge> k. call_alone ce aw tm ?q (Suc (Suc m)) (Inr Lookup, w) =
      (case ResolverWithCache ce aw tm d qt ip w of
         (Inl p, w1) \<Rightarrow> (Inl p, w1) | (Inr a, w1) \<Rightarrow> (Inr (Finish a), w1))"
  proof (cases "LoadFromCache ce (t_get tm) (CacheKey (env_fqdn (ce_res ce)) d qt) (DnsCache w)")
    case (Some a)
    then show ?thesis
      by (simp add: query_key_def ResolverWithCache_def alone_finish)
  next
    case None
    then have "call_alone ce aw tm ?q (Suc (Suc m)) (Inr Lookup, w) = call_alone ce aw tm ?q (Suc m) (Inr Choose, w)" for m
      by (simp add: query_key_def)
    with None k show ?thesis
      by (auto simp: query_key_def ResolverWithCache_def Let_def split: prod.split sum.split)
  qed
  then have "call_alone ce aw tm ?q (Suc (Suc k) + n) (Inr Lookup, w) =
      (case ResolverWithCache ce aw tm d qt ip w of
         (Inl p, w1) \<Rightarrow> (Inl p, w1) | (Inr a, w1) \<Rightarrow> (Inr (Finish a), w1))" for n
    by simp
  then show ?thesis by blast
qed


text \<open>
  Nothing merges concurrent misses: any number of calls for one question that is not cached get past
  the lookup before the first of them has stored an answer, and each goes on to ask the servers.
\<close>

lemma misses_not_merged:
  assumes "LoadFromCache ce now (query_key ce q) (DnsCache (su_world (background s))) = None"
  shows "(serving_step type_name ce)\<^sup>*\<^sup>* s (s\<lparr>calls := calls s @ replicate n (q, Choose)\<rparr>)"
proof (induction n)
  case (Suc n)
  let ?s = "s\<lparr>calls := calls s @ replicate n (q, Choose)\<rparr>"
  let ?a = "?s\<lparr>calls := calls ?s @ [(q, Lookup)]\<rparr>"
  let ?i = "length (calls ?s)"
  have "serving_step type_name ce ?s ?a"
    by (rule serving_step.arrive)
  moreover have "serving_step type_name ce ?a
      (?a\<lparr>background := (background ?a)\<lparr>su_world := su_world (background ?a),
           history := history (background ?a) @ resolved_now ce q Choose\<rparr>,
         calls := (calls ?a)[?i := (q, Choose)]\<rparr>)"
    using assms by (intro serving_step.advance [where i = ?i and pc = Lookup and now = now]) (simp_all add: nth_append)
  moreover have "(calls ?a)[?i := (q, Choose)] = calls s @ replicate (Suc n) (q, Choose)"
    using list_update_length [of "calls ?s" "(q, Lookup)" "[]" "(q, Choose)"] by (simp add: replicate_append_same)
  ultimately show ?case
    using Suc by (simp add: resolved_now_def)
qed simp

end
