(* ===== verification/MsgPool.thy ===== *)
theory MsgPool
  imports Server
begin

text \<open>
  The pool of DNS messages, \<open>GetDNSMsg\<close> and \<open>PutDNSMsg\<close> of \<open>dnsresolver\<close>, shared by the request handler
  (\<open>main.go\<close>), the queries to upstream servers (\<open>prepareDNSQuery\<close>) and the health check
  (\<open>performHealthCheck\<close> of \<open>dnssource\<close>). The first two clear a message before they put it back, the
  health check does not. The other theories take the header of a pooled message as an argument;
  here is what it can be, and where it shows.

  Header and question section of a message are of any type \<open>'h\<close>; what the DNS library does with
  them is a parameter. As \<open>sync.Pool\<close> documents, a message that is taken out belongs to its taker
  until it is put back, and a message in the pool may be dropped at any time.
\<close>

record 'h dns_msg =
  Hdr :: 'h
  Ans :: "RR list option"

record 'h msg_lib =
  empty_hdr :: 'h \<comment> \<open>of \<open>dns.Msg{}\<close>\<close>
  SetQuestion :: "string \<Rightarrow> u16 \<Rightarrow> 'h \<Rightarrow> 'h"
  SetRecursion :: "'h \<Rightarrow> 'h"
  SetReply :: "'h \<Rightarrow> 'h request \<Rightarrow> 'h"

definition new_msg :: "'h msg_lib \<Rightarrow> 'h dns_msg" where
  "new_msg L = \<lparr>Hdr = empty_hdr L, Ans = None\<rparr>"

text \<open>The free messages; \<open>None\<close> is a pool that has none to give.\<close>

definition GetDNSMsg :: "'h msg_lib \<Rightarrow> nat option \<Rightarrow> 'h dns_msg list \<Rightarrow> 'h dns_msg \<times> 'h dns_msg list" where
  "GetDNSMsg L choice free =
     (case choice of
        Some i \<Rightarrow> if i < length free then (free ! i, take i free @ drop (Suc i) free) else (new_msg L, free)
      | None \<Rightarrow> (new_msg L, free))"

definition PutDNSMsg :: "'h msg_lib \<Rightarrow> 'h dns_msg \<Rightarrow> 'h dns_msg list \<Rightarrow> 'h dns_msg list" where
  "PutDNSMsg L msg free = free @ [new_msg L]"

section \<open>The users\<close>

datatype 'h use = Handling "'h request" | Querying string u16 | Checking

definition question_msg :: "'h msg_lib \<Rightarrow> string \<Rightarrow> u16 \<Rightarrow> 'h dns_msg \<Rightarrow> 'h dns_msg" where
  "question_msg L name qt m = m\<lparr>Hdr := SetRecursion L (SetQuestion L name qt (Hdr m))\<rparr>"

text \<open>What a user makes of the message first, and how it puts it back.\<close>

fun begin_use :: "'h msg_lib \<Rightarrow> string \<Rightarrow> 'h use \<Rightarrow> 'h dns_msg \<Rightarrow> 'h dns_msg" where
  "begin_use L test (Handling r) m = m\<lparr>Hdr := SetReply L (Hdr m) r\<rparr>"
| "begin_use L test (Querying name qt) m = question_msg L name qt m"
| "begin_use L test Checking m = question_msg L test TypeA m"

fun end_use :: "'h msg_lib \<Rightarrow> 'h use \<Rightarrow> 'h dns_msg \<Rightarrow> 'h dns_msg list \<Rightarrow> 'h dns_msg list" where
  "end_use L Checking m free = free @ [m]"
| "end_use L u m free = PutDNSMsg L m free"

record 'h msg_pool =
  free :: "'h dns_msg list"
  held :: "('h use \<times> 'h dns_msg) list"

inductive msg_step :: "'h msg_lib \<Rightarrow> string \<Rightarrow> 'h msg_pool \<Rightarrow> 'h msg_pool \<Rightarrow> bool"
  for L test where
  get: "GetDNSMsg L choice (free p) = (m, ms) \<Longrightarrow>
    msg_step L test p (p\<lparr>free := ms, held := held p @ [(u, begin_use L test u m)]\<rparr>)"
| answered: "i < length (held p) \<Longrightarrow> held p ! i = (Handling r, m) \<Longrightarrow>
    msg_step L test p (p\<lparr>held := (held p)[i := (Handling r, m\<lparr>Ans := Some rrs\<rparr>)]\<rparr>)"
| put: "i < length (held p) \<Longrightarrow> held p ! i = (u, m) \<Longrightarrow>
    msg_step L test p (p\<lparr>free := end_use L u m (free p), held := take i (held p) @ drop (Suc i) (held p)\<rparr>)"
| dropped: "msg_step L test p (p\<lparr>free := take i (free p) @ drop (Suc i) (free p)\<rparr>)"

definition pool_start :: "'h msg_pool" where
  "pool_start = \<lparr>free = [], held = []\<rparr>"

section \<open>What a pooled message can be\<close>

text \<open>Empty, or left by health checks.\<close>

inductive left_hdr :: "'h msg_lib \<Rightarrow> string \<Rightarrow> 'h \<Rightarrow> bool" for L test where
  empty: "left_hdr L test (empty_hdr L)"
| checked: "left_hdr L test h \<Longrightarrow> left_hdr L test (SetRecursion L (SetQuestion L test TypeA h))"

definition free_ok :: "'h msg_lib \<Rightarrow> string \<Rightarrow> 'h dns_msg \<Rightarrow> bool" where
  "free_ok L test m \<longleftrightarrow> left_hdr L test (Hdr m) \<and> Ans m = None"

definition held_ok :: "'h msg_lib \<Rightarrow> string \<Rightarrow> 'h use \<times> 'h dns_msg \<Rightarrow> bool" where
  "held_ok L test e \<longleftrightarrow> (\<exists>m0. free_ok L test m0 \<and> Hdr (snd e) = Hdr (begin_use L test (fst e) m0)) \<and>
     (case fst e of Handling r \<Rightarrow> True | _ \<Rightarrow> Ans (snd e) = None)"

lemma free_ok_new [simp]: "free_ok L test (new_msg L)"
  by (simp add: free_ok_def new_msg_def left_hdr.empty)

lemma drop_nth_all: "\<forall>x \<in> set xs. P x \<Longrightarrow> \<forall>x \<in> set (take i xs @ drop (Suc i) xs). P x"
  using set_take_subset [of i xs] set_drop_subset [of "Suc i" xs] by auto

lemma get_ok:
  "GetDNSMsg L choice ms = (m, ms') \<Longrightarrow> \<forall>x \<in> set ms. free_ok L test x \<Longrightarrow>
     free_ok L test m \<and> (\<forall>x \<in> set ms'. free_ok L test x)"
  using drop_nth_all [of ms "free_ok L test"]
  by (cases choice) (auto simp del: set_append simp: GetDNSMsg_def split: if_splits)

lemma begin_ok: "free_ok L test m \<Longrightarrow> held_ok L test (u, begin_use L test u m)"
  by (cases u) (auto simp: held_ok_def free_ok_def question_msg_def)

lemma end_ok:
  assumes "held_ok L test (u, m)" and "\<forall>x \<in> set ms. free_ok L test x"
  shows "\<forall>x \<in> set (end_use L u m ms). free_ok L test x"
  using assms by (cases u) (auto simp: held_ok_def PutDNSMsg_def, auto simp: free_ok_def question_msg_def intro: left_hdr.checked)

lemma held_nth: "\<forall>e \<in> set xs. P e \<Longrightarrow> i < length xs \<Longrightarrow> xs ! i = y \<Longrightarrow> P y"
  by auto

lemma msg_step_ok:
  assumes "msg_step L test p p'" and "\<forall>x \<in> set (free p). free_ok L test x" and "\<forall>e \<in> set (held p). held_ok L test e"
  shows "(\<forall>x \<in> set (free p'). free_ok L test x) \<and> (\<forall>e \<in> set (held p'). held_ok L test e)"
  using assms
proof (induction rule: msg_step.induct)
  case (get choice p m ms u)
  then show ?case
    using get_ok begin_ok by fastforce
next
  case (answered i p r m rrs)
  have "held_ok L test (Handling r, m)"
    using held_nth [OF answered.prems(2) answered.hyps] .
  then have "held_ok L test (Handling r, m\<lparr>Ans := Some rrs\<rparr>)"
    by (simp add: held_ok_def)
  with answered.prems show ?case
    by (auto dest!: set_update_cases)
next
  case (put i p u m)
  have "held_ok L test (u, m)"
    using held_nth [OF put.prems(2) put.hyps] .
  then show ?case
    using end_ok [OF _ put.prems(1)] drop_nth_all [OF put.prems(2)] by simp
next
  case (dropped p i)
  then show ?case
    using drop_nth_all [OF dropped(1)] by simp
qed

text \<open>
  C22: what can pass from one use of a pooled message to the next. However handlers, queries and
  health checks take messages and put them back: no message in the pool holds answers, and its
  header is empty or what health checks made of an empty one, never one that a request or a query to
  an upstream server left; so the header of a handler's message is what \<open>SetReply\<close> makes of such a
  header, and a query is what \<open>SetQuestion\<close> makes of one, without answers. Whether a reply shows what a
  health check left is then up to \<open>SetReply\<close> (see below).
\<close>

theorem pooled_replies_clean:
  assumes "(msg_step L test)\<^sup>*\<^sup>* pool_start p"
  shows "(\<forall>m \<in> set (free p). Ans m = None \<and> left_hdr L test (Hdr m)) \<and>
    (\<forall>r m. (Handling r, m) \<in> set (held p) \<longrightarrow> (\<exists>h. left_hdr L test h \<and> Hdr m = SetReply L h r)) \<and>
    (\<forall>name qt m. (Querying name qt, m) \<in> set (held p) \<longrightarrow> Ans m = None \<and>
       (\<exists>h. left_hdr L test h \<and> Hdr m = SetRecursion L (SetQuestion L name qt h)))"
proof -
  have inv: "(\<forall>x \<in> set (free p). free_ok L test x) \<and> (\<forall>e \<in> set (held p). held_ok L test e)"
    using assms(1)
  proof (induction rule: rtranclp_induct)
    case (step p p')
    then show ?case
      using msg_step_ok by blast
  qed (simp add: pool_start_def)
  have "held_ok L test (Handling r, m) \<Longrightarrow> \<exists>h. left_hdr L test h \<and> Hdr m = SetReply L h r" for r m
    by (auto simp: held_ok_def free_ok_def)
  moreover have "held_ok L test (Querying name qt, m) \<Longrightarrow>
      Ans m = None \<and> (\<exists>h. left_hdr L test h \<and> Hdr m = SetRecursion L (SetQuestion L name qt h))" for name qt m
    by (auto simp: held_ok_def free_ok_def question_msg_def)
  ultimately show ?thesis
    using inv unfolding free_ok_def by blast
qed

section \<open>What a health check leaves\<close>

text \<open>
  A small library of the documented kind: a header is the operation code (0 for a query), the
  recursion bit and the question section; a reply copies the operation code, the recursion bit if
  the request is a query, and the question of a request that has one.
\<close>

record small_hdr =
  Opcode :: nat
  RecursionDesired :: bool
  Asked :: "(string \<times> u16) list"

definition small_lib :: "small_hdr msg_lib" where
  "small_lib = \<lparr>empty_hdr = \<lparr>Opcode = 0, RecursionDesired = False, Asked = []\<rparr>,
     SetQuestion = (\<lambda>d q h. h\<lparr>RecursionDesired := True, Asked := [(d, q)]\<rparr>),
     SetRecursion = (\<lambda>h. h\<lparr>RecursionDesired := True\<rparr>),
     SetReply = (\<lambda>h r. \<lparr>Opcode = Opcode (ReqHdr r),
       RecursionDesired = (if Opcode (ReqHdr r) = 0 then RecursionDesired (ReqHdr r) else RecursionDesired h),
       Asked = (if Question r = [] then Asked h else [hd (Question r)])\<rparr>)\<rparr>"

lemma run2: "step s t \<Longrightarrow> step t u \<Longrightarrow> step\<^sup>*\<^sup>* s u"
  by (meson rtranclp.rtrancl_refl rtranclp.rtrancl_into_rtrancl)

abbreviation check_hdr :: small_hdr where
  "check_hdr \<equiv> \<lparr>Opcode = 0, RecursionDesired = True, Asked = [(''example.com.'', TypeA)]\<rparr>"

definition after_check :: "small_hdr msg_pool" where
  "after_check = \<lparr>free = [\<lparr>Hdr = check_hdr, Ans = None\<rparr>], held = []\<rparr>"

lemma check_run: "(msg_step small_lib ''example.com.'')\<^sup>*\<^sup>* pool_start after_check"
proof (rule run2)
  let ?m = "begin_use small_lib ''example.com.'' Checking (new_msg small_lib)"
  let ?p = "pool_start\<lparr>free := [], held := held pool_start @ [(Checking, ?m)]\<rparr>"
  show "msg_step small_lib ''example.com.'' pool_start ?p"
    by (rule msg_step.get [where choice = None]) (simp add: GetDNSMsg_def pool_start_def)
  have "after_check = ?p\<lparr>free := end_use small_lib Checking ?m (free ?p), held := take 0 (held ?p) @ drop (Suc 0) (held ?p)\<rparr>"
    by (simp add: after_check_def pool_start_def question_msg_def new_msg_def small_lib_def)
  then show "msg_step small_lib ''example.com.'' ?p after_check"
    using msg_step.put [of 0 ?p Checking ?m small_lib "''example.com.''"] by (simp add: pool_start_def)
qed

theorem pooled_replies_clean_witness:
  "\<exists>p m. (msg_step small_lib ''example.com.'')\<^sup>*\<^sup>* pool_start p \<and> free p = [m] \<and> Ans m = None \<and>
     Asked (Hdr m) = [(''example.com.'', TypeA)]"
proof -
  from pooled_replies_clean [OF check_run] check_run show ?thesis
    by (intro exI [of _ after_check]) (auto simp: after_check_def)
qed

text \<open>
  The reply to a request without a question, or to one that is no query, shows what the pool held: with
  this library the first asks the question of the health check, the second has its recursion bit.
\<close>

lemma reply_shows_check:
  "\<exists>p. (msg_step small_lib ''example.com.'')\<^sup>*\<^sup>* pool_start p \<and>
    held p = [(Handling r, \<lparr>Hdr = SetReply small_lib check_hdr r, Ans = None\<rparr>)]"
proof -
  let ?m = "\<lparr>Hdr = check_hdr, Ans = None\<rparr>"
  let ?p = "after_check\<lparr>free := [], held := held after_check @
      [(Handling r, begin_use small_lib ''example.com.'' (Handling r) ?m)]\<rparr>"
  have "msg_step small_lib ''example.com.'' after_check ?p"
    by (rule msg_step.get [where choice = "Some 0"]) (simp add: GetDNSMsg_def after_check_def)
  with check_run have "(msg_step small_lib ''example.com.'')\<^sup>*\<^sup>* pool_start ?p"
    by (rule rtranclp.rtrancl_into_rtrancl)
  moreover have "held ?p = [(Handling r, \<lparr>Hdr = SetReply small_lib check_hdr r, Ans = None\<rparr>)]"
    by (simp add: after_check_def)
  ultimately show ?thesis by blast
qed

lemma reply_leaks:
  "Question r = [] \<Longrightarrow> Asked (SetReply small_lib check_hdr r) = [(''example.com.'', TypeA)]"
  "Opcode (ReqHdr r) \<noteq> 0 \<Longrightarrow> RecursionDesired (SetReply small_lib check_hdr r)"
  by (simp_all add: small_lib_def)

end
