(* ===== verification/Logger.thy ===== *)
theory Logger
  imports Prelude "HOL-Library.Multiset"
begin

text \<open>
  The buffered logger, \<open>logutil/logutil.go\<close>: writers that put messages into a bounded channel
  or, when it is full or the logger is closed, write them directly; the worker that writes
  batches; and \<open>Flush\<close>, which closes the logger.

  \<open>log_step\<close> interleaves any number of calls of \<open>Write\<close> and \<open>Flush\<close> with the worker. The
  mutex \<open>mu\<close> is held by a \<open>Flush\<close> for its whole duration; \<open>writeMu\<close> by a drain for its
  whole duration and by a batch or a direct write for one step. Messages are of any type.

  \<open>realOut\<close> holds the messages for which \<open>realOut.Write\<close> has been called. The code ignores
  the error of that call everywhere and neither retries nor reports it, so what the output
  device makes of a message has no influence on the logger and is not part of the state.
\<close>

definition logBufferSize :: nat where "logBufferSize = 10000"
definition flushTimeout :: duration where "flushTimeout = 5 * second"
definition batchSize :: nat where "batchSize = 50"

datatype log_level = DebugLevel | InfoLevel | WarnLevel | ErrorLevel | FatalLevel

definition logLevels :: "string \<Rightarrow> log_level option" where
  "logLevels = [''debug'' \<mapsto> DebugLevel, ''info'' \<mapsto> InfoLevel, ''warn'' \<mapsto> WarnLevel,
     ''error'' \<mapsto> ErrorLevel, ''fatal'' \<mapsto> FatalLevel]"

definition SetLogLevel :: "string \<Rightarrow> log_level" where
  "SetLogLevel level = (case logLevels level of Some l \<Rightarrow> l | None \<Rightarrow> InfoLevel)"

section \<open>The state\<close>

text \<open>
  A writer has not yet read \<open>closed\<close>, is about to send, is about to write directly, or has
  returned. A drain first waits for \<open>writeMu\<close>.
\<close>

datatype writer_pc = WCheck | WSend | WDirect | WReturned
datatype worker_pc = Running | Finishing | DrainWait | Draining | Exited
datatype flush_pc = FLock | FWait | FDrainWait | FDraining | FUnlock | FReturned

record 'm logger =
  logChan :: "'m list"
  batch :: "'m list"
  closed :: bool
  done_closed :: bool
  worker :: worker_pc
  realOut :: "'m list" \<comment> \<open>what \<open>realOut.Write\<close> was called with\<close>
  writeMu :: bool
  mu :: bool \<comment> \<open>held by a \<open>Flush\<close>\<close>
  writers :: "('m \<times> writer_pc) list"
  flushers :: "flush_pc list"

definition NewBufferedLogger :: "'m list \<Rightarrow> nat \<Rightarrow> 'm logger" where
  "NewBufferedLogger ms n =
     \<lparr>logChan = [], batch = [], closed = False, done_closed = False, worker = Running, realOut = [],
      writeMu = False, mu = False, writers = map (\<lambda>m. (m, WCheck)) ms, flushers = replicate n FLock\<rparr>"

definition set_writer :: "nat \<Rightarrow> writer_pc \<Rightarrow> 'm logger \<Rightarrow> 'm logger" where
  "set_writer i pc s = s\<lparr>writers := (writers s)[i := (fst (writers s ! i), pc)]\<rparr>"

definition set_flusher :: "nat \<Rightarrow> flush_pc \<Rightarrow> 'm logger \<Rightarrow> 'm logger" where
  "set_flusher i pc s = s\<lparr>flushers := (flushers s)[i := pc]\<rparr>"

section \<open>The steps\<close>

inductive log_step :: "'m logger \<Rightarrow> 'm logger \<Rightarrow> bool" where
  \<comment> \<open>\<open>Write\<close>\<close>
  write_check: "i < length (writers s) \<Longrightarrow> writers s ! i = (m, WCheck) \<Longrightarrow> \<not> mu s \<Longrightarrow>
    log_step s (set_writer i (if closed s then WDirect else WSend) s)"
| write_send: "i < length (writers s) \<Longrightarrow> writers s ! i = (m, WSend) \<Longrightarrow>
    length (logChan s) < logBufferSize \<Longrightarrow>
    log_step s (set_writer i WReturned (s\<lparr>logChan := logChan s @ [m]\<rparr>))"
| write_full: "i < length (writers s) \<Longrightarrow> writers s ! i = (m, WSend) \<Longrightarrow>
    logBufferSize \<le> length (logChan s) \<Longrightarrow>
    log_step s (set_writer i WDirect s)"
| write_direct: "i < length (writers s) \<Longrightarrow> writers s ! i = (m, WDirect) \<Longrightarrow> \<not> writeMu s \<Longrightarrow>
    log_step s (set_writer i WReturned (s\<lparr>realOut := realOut s @ [m]\<rparr>))"
  \<comment> \<open>\<open>logWorker\<close>\<close>
| worker_take: "worker s = Running \<Longrightarrow> logChan s = m # ms \<Longrightarrow> length (batch s) < batchSize \<Longrightarrow>
    log_step s (s\<lparr>logChan := ms, batch := batch s @ [m]\<rparr>)"
| worker_batch: "worker s = Running \<Longrightarrow> batch s \<noteq> [] \<Longrightarrow> \<not> writeMu s \<Longrightarrow>
    log_step s (s\<lparr>realOut := realOut s @ batch s, batch := []\<rparr>)"
| worker_done: "worker s = Running \<Longrightarrow> done_closed s \<Longrightarrow> length (batch s) < batchSize \<Longrightarrow>
    log_step s (s\<lparr>worker := (if batch s = [] then DrainWait else Finishing)\<rparr>)"
| worker_last: "worker s = Finishing \<Longrightarrow> \<not> writeMu s \<Longrightarrow>
    log_step s (s\<lparr>realOut := realOut s @ batch s, batch := [], worker := DrainWait\<rparr>)"
| worker_lock: "worker s = DrainWait \<Longrightarrow> \<not> writeMu s \<Longrightarrow>
    log_step s (s\<lparr>writeMu := True, worker := Draining\<rparr>)"
| worker_drain: "worker s = Draining \<Longrightarrow> logChan s = m # ms \<Longrightarrow>
    log_step s (s\<lparr>logChan := ms, realOut := realOut s @ [m]\<rparr>)"
| worker_exit: "worker s = Draining \<Longrightarrow> logChan s = [] \<Longrightarrow>
    log_step s (s\<lparr>writeMu := False, worker := Exited\<rparr>)"
  \<comment> \<open>\<open>Flush\<close>\<close>
| flush_open: "i < length (flushers s) \<Longrightarrow> flushers s ! i = FLock \<Longrightarrow> \<not> mu s \<Longrightarrow> \<not> closed s \<Longrightarrow>
    log_step s (set_flusher i FWait (s\<lparr>mu := True, done_closed := True, closed := True\<rparr>))"
| flush_closed: "i < length (flushers s) \<Longrightarrow> flushers s ! i = FLock \<Longrightarrow> \<not> mu s \<Longrightarrow> closed s \<Longrightarrow>
    log_step s (set_flusher i FDrainWait (s\<lparr>mu := True\<rparr>))"
| flush_joined: "i < length (flushers s) \<Longrightarrow> flushers s ! i = FWait \<Longrightarrow> worker s = Exited \<Longrightarrow>
    log_step s (set_flusher i FUnlock s)"
| flush_timeout: "i < length (flushers s) \<Longrightarrow> flushers s ! i = FWait \<Longrightarrow>
    log_step s (set_flusher i FDrainWait s)"
| flush_lock: "i < length (flushers s) \<Longrightarrow> flushers s ! i = FDrainWait \<Longrightarrow> \<not> writeMu s \<Longrightarrow>
    log_step s (set_flusher i FDraining (s\<lparr>writeMu := True\<rparr>))"
| flush_drain: "i < length (flushers s) \<Longrightarrow> flushers s ! i = FDraining \<Longrightarrow> logChan s = m # ms \<Longrightarrow>
    log_step s (s\<lparr>logChan := ms, realOut := realOut s @ [m]\<rparr>)"
| flush_drained: "i < length (flushers s) \<Longrightarrow> flushers s ! i = FDraining \<Longrightarrow> logChan s = [] \<Longrightarrow>
    log_step s (set_flusher i FUnlock (s\<lparr>writeMu := False\<rparr>))"
| flush_return: "i < length (flushers s) \<Longrightarrow> flushers s ! i = FUnlock \<Longrightarrow>
    log_step s (set_flusher i FReturned (s\<lparr>mu := False\<rparr>))"

definition log_reachable :: "'m logger \<Rightarrow> bool" where
  "log_reachable s \<longleftrightarrow> (\<exists>ms n. log_step\<^sup>*\<^sup>* (NewBufferedLogger ms n) s)"

section \<open>No message is lost, duplicated or invented\<close>

definition returned :: "'m logger \<Rightarrow> 'm list" where
  "returned s = map fst (filter (\<lambda>w. snd w = WReturned) (writers s))"

definition log_inv :: "'m logger \<Rightarrow> bool" where
  "log_inv s \<longleftrightarrow>
     mset (returned s) = mset (realOut s) + mset (batch s) + mset (logChan s) \<and>
     length (logChan s) \<le> logBufferSize \<and> length (batch s) \<le> batchSize \<and>
     (worker s \<in> {DrainWait, Draining, Exited} \<longrightarrow> batch s = [])"

lemma returned_set_flusher [simp]: "returned (set_flusher i pc s) = returned s"
  by (simp add: returned_def set_flusher_def)

lemma set_flusher_fields [simp]:
  "realOut (set_flusher i pc s) = realOut s" "batch (set_flusher i pc s) = batch s"
  "logChan (set_flusher i pc s) = logChan s" "worker (set_flusher i pc s) = worker s"
  by (simp_all add: set_flusher_def)

lemma set_writer_fields [simp]:
  "realOut (set_writer i pc s) = realOut s" "batch (set_writer i pc s) = batch s"
  "logChan (set_writer i pc s) = logChan s" "worker (set_writer i pc s) = worker s"
  by (simp_all add: set_writer_def)

lemma mset_filter_update:
  "i < length xs \<Longrightarrow> \<not> P (xs ! i) \<Longrightarrow>
     mset (map f (filter P (xs[i := y]))) = (if P y then {#f y#} else {#}) + mset (map f (filter P xs))"
proof (induction xs arbitrary: i)
  case (Cons x xs)
  then show ?case by (cases i) auto
qed simp

lemma mset_returned_set_writer:
  "i < length (writers s) \<Longrightarrow> writers s ! i = (m, pc0) \<Longrightarrow> pc0 \<noteq> WReturned \<Longrightarrow>
     mset (returned (set_writer i pc s)) = (if pc = WReturned then {#m#} else {#}) + mset (returned s)"
  using mset_filter_update [of i "writers s" "\<lambda>w. snd w = WReturned" fst "(m, pc)"]
  by (simp add: returned_def set_writer_def del: mset_map mset_filter)

lemma returned_unaffected [simp]:
  "returned (s\<lparr>logChan := a\<rparr>) = returned s" "returned (s\<lparr>batch := a\<rparr>) = returned s"
  "returned (s\<lparr>realOut := a\<rparr>) = returned s" "returned (s\<lparr>worker := pc\<rparr>) = returned s"
  "returned (s\<lparr>writeMu := b\<rparr>) = returned s" "returned (s\<lparr>mu := b\<rparr>) = returned s"
  "returned (s\<lparr>closed := b\<rparr>) = returned s" "returned (s\<lparr>done_closed := b\<rparr>) = returned s"
  by (simp_all add: returned_def)

lemma log_inv_new: "log_inv (NewBufferedLogger ms n)"
  by (simp add: log_inv_def NewBufferedLogger_def returned_def filter_map comp_def)

lemma log_inv_step: "log_step s s' \<Longrightarrow> log_inv s \<Longrightarrow> log_inv s'"
proof (induction rule: log_step.induct)
  case (write_check i s m)
  then show ?case by (simp add: log_inv_def mset_returned_set_writer)
next
  case (write_send i s m)
  then have "mset (returned (set_writer i WReturned (s\<lparr>logChan := logChan s @ [m]\<rparr>))) =
      {#m#} + mset (returned s)"
    using mset_returned_set_writer [of i "s\<lparr>logChan := logChan s @ [m]\<rparr>" m WSend WReturned] by simp
  with write_send show ?case by (simp add: log_inv_def)
next
  case (write_full i s m)
  then show ?case by (simp add: log_inv_def mset_returned_set_writer)
next
  case (write_direct i s m)
  then have "mset (returned (set_writer i WReturned (s\<lparr>realOut := realOut s @ [m]\<rparr>))) =
      {#m#} + mset (returned s)"
    using mset_returned_set_writer [of i "s\<lparr>realOut := realOut s @ [m]\<rparr>" m WDirect WReturned] by simp
  with write_direct show ?case by (simp add: log_inv_def)
qed (auto simp: log_inv_def)

lemma log_reachable_inv: "log_reachable s \<Longrightarrow> log_inv s"
proof -
  have "log_step\<^sup>*\<^sup>* (NewBufferedLogger ms n) s \<Longrightarrow> log_inv s" for ms :: "'a list" and n
    by (induction rule: rtranclp_induct) (auto intro: log_inv_new log_inv_step)
  then show "log_reachable s \<Longrightarrow> log_inv s"
    by (auto simp: log_reachable_def)
qed

section \<open>Properties\<close>

text \<open>
  C20: the logger keeps every message exactly once. Under every interleaving of writers, worker
  and flushes the messages whose \<open>Write\<close> has returned are, as a multiset, those handed to the
  output, those in the worker's batch and those in the channel, and channel and batch stay
  within their sizes. Errors of the output itself are ignored by the code.
\<close>

theorem log_conservation:
  assumes "log_reachable s"
  shows "mset (returned s) = mset (realOut s) + mset (batch s) + mset (logChan s) \<and>
    length (logChan s) \<le> logBufferSize \<and> length (batch s) \<le> batchSize"
  using log_reachable_inv [OF assms] by (simp add: log_inv_def)

text \<open>
  C36: a drain that ends after the worker has exited leaves nothing behind: when a \<open>Flush\<close>
  finishes its drain and the worker has exited, the messages handed to the output are exactly
  those whose \<open>Write\<close> has returned.
\<close>

theorem flush_after_close_complete:
  assumes "log_reachable s" and "worker s = Exited"
    and "i < length (flushers s)" and "flushers s ! i = FDraining"
    and "log_step s s'" and "flushers s' ! i = FUnlock"
  shows "mset (realOut s') = mset (returned s')"
proof -
  have inv: "log_inv s" "log_inv s'"
    using log_reachable_inv [OF assms(1)] log_inv_step [OF assms(5)] by blast+
  have "logChan s' = [] \<and> worker s' = worker s"
    using assms(5) assms(2-4,6)
    by cases (auto simp: set_writer_def set_flusher_def nth_list_update split: if_splits)
  with inv(2) assms(2) show ?thesis
    by (simp add: log_inv_def)
qed

section \<open>A message that misses the flush\<close>

text \<open>
  One writer and two flushes: the writer has found the logger open before the first flush
  closes it, and sends after the worker has drained the channel and exited.
\<close>

definition late_state :: "writer_pc \<Rightarrow> flush_pc \<Rightarrow> flush_pc \<Rightarrow> worker_pc \<Rightarrow> bool \<Rightarrow> bool \<Rightarrow> bool \<Rightarrow> nat list \<Rightarrow>
    nat list \<Rightarrow> nat logger" where
  "late_state w f g k c wm m ch out =
     \<lparr>logChan = ch, batch = [], closed = c, done_closed = c, worker = k, realOut = out,
      writeMu = wm, mu = m, writers = [(7, w)], flushers = [f, g]\<rparr>"

lemma late_run:
  "log_step\<^sup>*\<^sup>* (NewBufferedLogger [7] 2) (late_state WReturned FReturned FLock Exited True False False [7] [])"
proof -
  let ?s0 = "late_state WCheck FLock FLock Running False False False [] []"
  let ?s1 = "late_state WSend FLock FLock Running False False False [] []"
  let ?s2 = "late_state WSend FWait FLock Running True False True [] []"
  let ?s3 = "late_state WSend FWait FLock DrainWait True False True [] []"
  let ?s4 = "late_state WSend FWait FLock Draining True True True [] []"
  let ?s5 = "late_state WSend FWait FLock Exited True False True [] []"
  let ?s6 = "late_state WSend FUnlock FLock Exited True False True [] []"
  let ?s7 = "late_state WSend FReturned FLock Exited True False False [] []"
  let ?s8 = "late_state WReturned FReturned FLock Exited True False False [7] []"
  have "NewBufferedLogger [7] 2 = ?s0"
    by (simp add: NewBufferedLogger_def late_state_def numeral_2_eq_2)
  moreover have "log_step ?s0 ?s1"
    using log_step.write_check [of 0 ?s0 7] by (simp add: late_state_def set_writer_def)
  moreover have "log_step ?s1 ?s2"
    using log_step.flush_open [of 0 ?s1] by (simp add: late_state_def set_flusher_def)
  moreover have "log_step ?s2 ?s3"
    using log_step.worker_done [of ?s2] by (simp add: late_state_def batchSize_def)
  moreover have "log_step ?s3 ?s4"
    using log_step.worker_lock [of ?s3] by (simp add: late_state_def)
  moreover have "log_step ?s4 ?s5"
    using log_step.worker_exit [of ?s4] by (simp add: late_state_def)
  moreover have "log_step ?s5 ?s6"
    using log_step.flush_joined [of 0 ?s5] by (simp add: late_state_def set_flusher_def)
  moreover have "log_step ?s6 ?s7"
    using log_step.flush_return [of 0 ?s6] by (simp add: late_state_def set_flusher_def)
  moreover have "log_step ?s7 ?s8"
    using log_step.write_send [of 0 ?s7 7]
    by (simp add: late_state_def set_writer_def logBufferSize_def)
  ultimately show ?thesis
    by (metis (no_types, lifting) converse_rtranclp_into_rtranclp r_into_rtranclp)
qed

lemma log_conservation_witness:
  "mset (returned (late_state WReturned FReturned FLock Exited True False False [7] [])) =
     mset [] + mset [] + mset [7]"
  using log_conservation [of "late_state WReturned FReturned FLock Exited True False False [7] []"] late_run
  by (auto simp: log_reachable_def) (auto simp: late_state_def)

lemma flush_after_close_complete_witness:
  "\<exists>s'. log_step (late_state WReturned FReturned FDraining Exited True True True [] [7]) s' \<and>
     mset (realOut s') = mset (returned s')"
proof -
  let ?s8 = "late_state WReturned FReturned FLock Exited True False False [7] []"
  let ?s9 = "late_state WReturned FReturned FDrainWait Exited True False True [7] []"
  let ?s10 = "late_state WReturned FReturned FDraining Exited True True True [7] []"
  let ?s11 = "late_state WReturned FReturned FDraining Exited True True True [] [7]"
  let ?s12 = "late_state WReturned FReturned FUnlock Exited True False True [] [7]"
  have "log_step ?s8 ?s9"
    using log_step.flush_closed [of 1 ?s8] by (simp add: late_state_def set_flusher_def)
  moreover have "log_step ?s9 ?s10"
    using log_step.flush_lock [of 1 ?s9] by (simp add: late_state_def set_flusher_def)
  moreover have "log_step ?s10 ?s11"
    using log_step.flush_drain [of 1 ?s10 7 "[]"] by (simp add: late_state_def)
  ultimately have r: "log_reachable ?s11"
    using late_run unfolding log_reachable_def by (metis rtranclp.rtrancl_into_rtrancl)
  have step: "log_step ?s11 ?s12"
    using log_step.flush_drained [of 1 ?s11] by (simp add: late_state_def set_flusher_def)
  have "worker ?s11 = Exited" "1 < length (flushers ?s11)" "flushers ?s11 ! 1 = FDraining"
    "flushers ?s12 ! 1 = FUnlock"
    by (simp_all add: late_state_def)
  from flush_after_close_complete [OF r this(1-3) step this(4)] step show ?thesis by blast
qed

text \<open>
  A flush can miss a message. In this reachable state \<open>Flush\<close> has returned normally, the
  worker has exited and the writer's call has returned, but its message is only in the
  channel, where nothing will take it unless \<open>Flush\<close> is called again.
\<close>

lemma flush_misses_message:
  "\<exists>s. log_reachable s \<and> map snd (writers s) = [WReturned] \<and> flushers s ! 0 = FReturned \<and>
     worker s = Exited \<and> returned s = [7 :: nat] \<and> realOut s = [] \<and> logChan s = [7]"
proof -
  let ?s8 = "late_state WReturned FReturned FLock Exited True False False [7] []"
  have "log_reachable ?s8"
    unfolding log_reachable_def using late_run by blast
  then show ?thesis
    by (intro exI [of _ ?s8]) (simp add: late_state_def returned_def)
qed

text \<open>
  \<open>Fatalf\<close> ends the process when its \<open>Write\<close> has returned. By then the message need not be
  handed to the output: it can still be in the channel, and nothing flushes it.
\<close>

lemma fatal_message_lost:
  "\<exists>s. log_step\<^sup>*\<^sup>* (NewBufferedLogger [m] 0) s \<and> returned s = [m] \<and> realOut s = []"
proof -
  let ?s0 = "NewBufferedLogger [m] 0"
  let ?s1 = "set_writer 0 (if closed ?s0 then WDirect else WSend) ?s0"
  let ?s2 = "set_writer 0 WReturned (?s1\<lparr>logChan := logChan ?s1 @ [m]\<rparr>)"
  have "log_step ?s0 ?s1"
    by (rule log_step.write_check [of 0 _ m]) (simp_all add: NewBufferedLogger_def)
  moreover have "log_step ?s1 ?s2"
    by (rule log_step.write_send [of 0 _ m]) (simp_all add: NewBufferedLogger_def set_writer_def logBufferSize_def)
  ultimately have "log_step\<^sup>*\<^sup>* ?s0 ?s2"
    by (meson rtranclp.rtrancl_refl rtranclp.rtrancl_into_rtrancl)
  moreover have "returned ?s2 = [m]" "realOut ?s2 = []"
    by (simp_all add: returned_def NewBufferedLogger_def set_writer_def)
  ultimately show ?thesis by blast
qed

end
