(* ===== verification/TrackerRace.thy ===== *)
theory TrackerRace
  imports Cache
begin

text \<open>
  The access tracker of \<open>cache/access_tracker.go\<close> under concurrent calls. The theory \<open>Cache\<close> treats
  \<open>TrackAccess\<close> as one step; here it is what the code does: a load from the map, then either an
  atomic addition and an atomic store through the pointer that was found, or a new entry that is
  stored whatever the map holds by then. The map holds pointers, so an entry that has been
  replaced is still written to by calls that loaded it before. \<open>track_refines\<close> relates the two.
\<close>

section \<open>The steps of a call\<close>

datatype track_pc = TLoad | TAdd nat | TStamp nat | TNew | TDone

record track_call =
  tc_key :: string
  tc_domain :: string
  tc_qtype :: u16
  tc_pc :: track_pc

record track_heap =
  accessMap :: "string \<Rightarrow> nat option"
  infos :: "AccessInfo list"
  tracks :: "track_call list"

inductive track_step :: "track_heap \<Rightarrow> track_heap \<Rightarrow> bool" where
  load: "i < length (tracks h) \<Longrightarrow> tracks h ! i = c \<Longrightarrow> tc_pc c = TLoad \<Longrightarrow>
    track_step h (h\<lparr>tracks := (tracks h)[i :=
      c\<lparr>tc_pc := (case accessMap h (tc_key c) of Some p \<Rightarrow> TAdd p | None \<Rightarrow> TNew)\<rparr>]\<rparr>)"
| add: "i < length (tracks h) \<Longrightarrow> tracks h ! i = c \<Longrightarrow> tc_pc c = TAdd p \<Longrightarrow>
    track_step h (h\<lparr>infos := (infos h)[p := (infos h ! p)\<lparr>AccessCount := AccessCount (infos h ! p) + 1\<rparr>],
      tracks := (tracks h)[i := c\<lparr>tc_pc := TStamp p\<rparr>]\<rparr>)"
| stamp: "i < length (tracks h) \<Longrightarrow> tracks h ! i = c \<Longrightarrow> tc_pc c = TStamp p \<Longrightarrow>
    track_step h (h\<lparr>infos := (infos h)[p := (infos h ! p)\<lparr>LastAccessNanos := now\<rparr>],
      tracks := (tracks h)[i := c\<lparr>tc_pc := TDone\<rparr>]\<rparr>)"
| store: "i < length (tracks h) \<Longrightarrow> tracks h ! i = c \<Longrightarrow> tc_pc c = TNew \<Longrightarrow>
    track_step h (h\<lparr>accessMap := (accessMap h)(tc_key c \<mapsto> length (infos h)),
      infos := infos h @ [\<lparr>AccessCount = 1, LastAccessNanos = now, FirstAccessNanos = now,
        Domain = tc_domain c, QueryType = tc_qtype c\<rparr>],
      tracks := (tracks h)[i := c\<lparr>tc_pc := TDone\<rparr>]\<rparr>)"

section \<open>What is counted\<close>

fun counted :: "track_pc \<Rightarrow> bool" where
  "counted (TStamp p) = True"
| "counted TDone = True"
| "counted pc = False"

definition past_calls :: "string \<Rightarrow> track_call list \<Rightarrow> nat" where
  "past_calls k cs = length (filter (\<lambda>c. tc_key c = k \<and> counted (tc_pc c)) cs)"

lemma set_update_ball: "\<forall>x \<in> set xs. P x \<Longrightarrow> P y \<Longrightarrow> \<forall>x \<in> set (xs[i := y]). P x"
  by (auto dest: set_update_cases)

lemma filter_update_count:
  "i < length xs \<Longrightarrow>
     length (filter P (xs[i := y])) + (if P (xs ! i) then 1 else 0) = length (filter P xs) + (if P y then 1 else 0)"
proof (induction xs arbitrary: i)
  case (Cons z xs)
  then show ?case by (cases i) auto
qed simp

lemma past_calls_update:
  "i < length cs \<Longrightarrow> cs ! i = c \<Longrightarrow>
     past_calls k (cs[i := c\<lparr>tc_pc := pc\<rparr>]) + (if tc_key c = k \<and> counted (tc_pc c) then 1 else 0) =
     past_calls k cs + (if tc_key c = k \<and> counted pc then 1 else 0)"
  using filter_update_count [of i cs "\<lambda>c. tc_key c = k \<and> counted (tc_pc c)" "c\<lparr>tc_pc := pc\<rparr>"]
  by (simp add: past_calls_def)

fun pointer :: "track_pc \<Rightarrow> nat option" where
  "pointer (TAdd p) = Some p"
| "pointer (TStamp p) = Some p"
| "pointer pc = None"

text \<open>Pointers are in bounds, and an entry in the map is written to by calls of its key only.\<close>

definition heap_ok :: "track_heap \<Rightarrow> bool" where
  "heap_ok h \<longleftrightarrow>
     (\<forall>k p. accessMap h k = Some p \<longrightarrow> p < length (infos h)) \<and>
     (\<forall>k k' p. accessMap h k = Some p \<longrightarrow> accessMap h k' = Some p \<longrightarrow> k = k') \<and>
     (\<forall>c \<in> set (tracks h). \<forall>p. pointer (tc_pc c) = Some p \<longrightarrow>
        p < length (infos h) \<and> (\<forall>k. accessMap h k = Some p \<longrightarrow> k = tc_key c))"

lemma heap_ok_step: "track_step h h' \<Longrightarrow> heap_ok h \<Longrightarrow> heap_ok h'"
proof (induction rule: track_step.induct)
  case (load i h c)
  then show ?case
    by (auto simp: heap_ok_def split: option.splits dest!: set_update_cases)
next
  case (add i h c p)
  then have "p < length (infos h) \<and> (\<forall>k. accessMap h k = Some p \<longrightarrow> k = tc_key c)"
    unfolding heap_ok_def by (metis nth_mem pointer.simps(1))
  with add show ?case
    by (auto simp: heap_ok_def dest!: set_update_cases)
next
  case (stamp i h c p now)
  then show ?case
    by (auto simp: heap_ok_def dest!: set_update_cases)
next
  case (store i h c now)
  then show ?case
    by (auto simp: heap_ok_def less_Suc_eq dest!: set_update_cases split: if_splits)
qed

lemma stamp_count:
  "AccessCount (xs[q := (xs ! q)\<lparr>LastAccessNanos := now\<rparr>] ! p) = AccessCount (xs ! p)"
  by (cases "q < length xs") (simp_all add: nth_list_update list_update_beyond)

definition present_inv :: "string \<Rightarrow> nat \<Rightarrow> i64 \<Rightarrow> track_heap \<Rightarrow> bool" where
  "present_inv k p n h \<longleftrightarrow>
     accessMap h k = Some p \<and>
     (\<forall>c \<in> set (tracks h). tc_key c = k \<longrightarrow> tc_pc c \<noteq> TNew \<and> (\<forall>q. pointer (tc_pc c) = Some q \<longrightarrow> q = p)) \<and>
     AccessCount (infos h ! p) = n + of_nat (past_calls k (tracks h))"

lemma present_step: "track_step h h' \<Longrightarrow> heap_ok h \<Longrightarrow> present_inv k p n h \<Longrightarrow> present_inv k p n h'"
proof (induction rule: track_step.induct)
  case (load i h c)
  let ?pc = "case accessMap h (tc_key c) of Some p \<Rightarrow> TAdd p | None \<Rightarrow> TNew"
  have "past_calls k ((tracks h)[i := c\<lparr>tc_pc := ?pc\<rparr>]) = past_calls k (tracks h)"
    using past_calls_update [OF load(1,2), of k ?pc] load(3) by (simp split: option.splits)
  with load show ?case
    by (auto simp: present_inv_def split: option.splits dest!: set_update_cases)
next
  case (add i h c q)
  have c: "c \<in> set (tracks h)"
    using add(1,2) nth_mem by blast
  have q: "q < length (infos h)" "\<And>k. accessMap h k = Some q \<Longrightarrow> k = tc_key c"
    using add(3,4) c unfolding heap_ok_def by (metis pointer.simps(1))+
  have n: "past_calls k ((tracks h)[i := c\<lparr>tc_pc := TStamp q\<rparr>]) =
      past_calls k (tracks h) + (if tc_key c = k then 1 else 0)"
    using past_calls_update [OF add(1,2), of k "TStamp q"] add(3) by simp
  have "accessMap h k = Some p" "tc_key c = k \<Longrightarrow> q = p"
    using add(3,5) c by (simp_all add: present_inv_def)
  then have own: "tc_key c = k \<longleftrightarrow> q = p"
    using q(2) by metis
  have "\<forall>c' \<in> set ((tracks h)[i := c\<lparr>tc_pc := TStamp q\<rparr>]). tc_key c' = k \<longrightarrow>
      tc_pc c' \<noteq> TNew \<and> (\<forall>r. pointer (tc_pc c') = Some r \<longrightarrow> r = p)"
    using own by (intro set_update_ball) (use add(5) in \<open>simp_all add: present_inv_def\<close>)
  moreover have "AccessCount ((infos h)[q := (infos h ! q)\<lparr>AccessCount := AccessCount (infos h ! q) + 1\<rparr>] ! p) =
      n + of_nat (past_calls k ((tracks h)[i := c\<lparr>tc_pc := TStamp q\<rparr>]))"
    using add(5) own q(1) unfolding n by (cases "q = p") (simp_all add: present_inv_def)
  ultimately show ?case
    using add(5) by (simp add: present_inv_def)
next
  case (stamp i h c q now)
  have "past_calls k ((tracks h)[i := c\<lparr>tc_pc := TDone\<rparr>]) = past_calls k (tracks h)"
    using past_calls_update [OF stamp(1,2), of k TDone] stamp(3) by simp
  moreover have "AccessCount ((infos h)[q := (infos h ! q)\<lparr>LastAccessNanos := now\<rparr>] ! p) = AccessCount (infos h ! p)"
    by (rule stamp_count)
  ultimately show ?case
    using stamp by (auto simp: present_inv_def dest!: set_update_cases)
next
  case (store i h c now)
  have "c \<in> set (tracks h)"
    using store(1,2) nth_mem by blast
  then have k: "tc_key c \<noteq> k"
    using store(3,5) by (auto simp: present_inv_def)
  then have "past_calls k ((tracks h)[i := c\<lparr>tc_pc := TDone\<rparr>]) = past_calls k (tracks h)"
    using past_calls_update [OF store(1,2), of k TDone] by simp
  moreover have "p < length (infos h)"
    using store(4,5) by (auto simp: heap_ok_def present_inv_def)
  ultimately show ?case
    using store k by (auto simp: present_inv_def nth_append dest!: set_update_cases)
qed

definition absent_inv :: "string \<Rightarrow> track_heap \<Rightarrow> bool" where
  "absent_inv k h \<longleftrightarrow>
     (accessMap h k = None \<longrightarrow> past_calls k (tracks h) = 0 \<and>
        (\<forall>c \<in> set (tracks h). tc_key c = k \<longrightarrow> pointer (tc_pc c) = None)) \<and>
     (\<forall>p. accessMap h k = Some p \<longrightarrow>
        (\<exists>m. AccessCount (infos h ! p) = of_nat m \<and> 1 \<le> m \<and> m \<le> past_calls k (tracks h)))"

lemma absent_step: "track_step h h' \<Longrightarrow> heap_ok h \<Longrightarrow> absent_inv k h \<Longrightarrow> absent_inv k h'"
proof (induction rule: track_step.induct)
  case (load i h c)
  let ?pc = "case accessMap h (tc_key c) of Some p \<Rightarrow> TAdd p | None \<Rightarrow> TNew"
  have n: "past_calls k ((tracks h)[i := c\<lparr>tc_pc := ?pc\<rparr>]) = past_calls k (tracks h)"
    using past_calls_update [OF load(1,2), of k ?pc] load(3) by (simp split: option.splits)
  have "\<forall>c' \<in> set ((tracks h)[i := c\<lparr>tc_pc := ?pc\<rparr>]). tc_key c' = k \<longrightarrow> pointer (tc_pc c') = None"
    if "accessMap h k = None"
    using that load(5) by (intro set_update_ball) (auto simp: absent_inv_def)
  with load(5) show ?case
    by (simp add: absent_inv_def n)
next
  case (add i h c q)
  have c: "c \<in> set (tracks h)"
    using add(1,2) nth_mem by blast
  have q: "q < length (infos h)" "\<And>k. accessMap h k = Some q \<Longrightarrow> tc_key c = k"
    using add(3,4) c unfolding heap_ok_def by (metis pointer.simps(1))+
  have n: "past_calls k ((tracks h)[i := c\<lparr>tc_pc := TStamp q\<rparr>]) =
      past_calls k (tracks h) + (if tc_key c = k then 1 else 0)"
    using past_calls_update [OF add(1,2), of k "TStamp q"] add(3) by simp
  show ?case
  proof (cases "accessMap h k")
    case None
    then have k: "tc_key c \<noteq> k"
      using add(3,5) c by (auto simp: absent_inv_def)
    have "\<forall>c' \<in> set ((tracks h)[i := c\<lparr>tc_pc := TStamp q\<rparr>]). tc_key c' = k \<longrightarrow> pointer (tc_pc c') = None"
      using None add(5) k by (intro set_update_ball) (simp_all add: absent_inv_def)
    with None add(5) k show ?thesis
      by (simp add: absent_inv_def n)
  next
    case (Some p)
    then obtain m where m: "AccessCount (infos h ! p) = of_nat m" "1 \<le> m" "m \<le> past_calls k (tracks h)"
      using add(5) by (auto simp: absent_inv_def)
    show ?thesis
    proof (cases "q = p")
      case True
      then have "tc_key c = k"
        using q(2) Some by simp
      with True Some m q(1) n show ?thesis
        by (auto simp: absent_inv_def intro!: exI [of _ "Suc m"])
    next
      case False
      with Some m show ?thesis
        by (auto simp: absent_inv_def n intro!: exI [of _ m])
    qed
  qed
next
  case (stamp i h c q now)
  have n: "past_calls k ((tracks h)[i := c\<lparr>tc_pc := TDone\<rparr>]) = past_calls k (tracks h)"
    using past_calls_update [OF stamp(1,2), of k TDone] stamp(3) by simp
  have "\<forall>c' \<in> set ((tracks h)[i := c\<lparr>tc_pc := TDone\<rparr>]). tc_key c' = k \<longrightarrow> pointer (tc_pc c') = None"
    if "accessMap h k = None"
    using that stamp(5) by (intro set_update_ball) (simp_all add: absent_inv_def)
  with stamp(5) show ?case
    by (simp add: absent_inv_def n stamp_count)
next
  case (store i h c now)
  have n: "past_calls k ((tracks h)[i := c\<lparr>tc_pc := TDone\<rparr>]) =
      past_calls k (tracks h) + (if tc_key c = k then 1 else 0)"
    using past_calls_update [OF store(1,2), of k TDone] store(3) by simp
  show ?case
  proof (cases "tc_key c = k")
    case True
    then show ?thesis
      by (auto simp: absent_inv_def n intro!: exI [of _ 1])
  next
    case False
    have "\<forall>c' \<in> set ((tracks h)[i := c\<lparr>tc_pc := TDone\<rparr>]). tc_key c' = k \<longrightarrow> pointer (tc_pc c') = None"
      if "accessMap h k = None"
      using that store(5) by (intro set_update_ball) (simp_all add: absent_inv_def)
    moreover have "p < length (infos h)" if "accessMap h k = Some p" for p
      using that store(4) by (simp add: heap_ok_def)
    ultimately show ?thesis
      using store(5) False by (auto simp: absent_inv_def n nth_append)
  qed
qed

section \<open>A call alone\<close>

definition tracked :: "track_heap \<Rightarrow> string \<Rightarrow> AccessInfo option" where
  "tracked h k = map_option (\<lambda>p. infos h ! p) (accessMap h k)"

lemma track_refines:
  assumes ok: "heap_ok h" and i: "i < length (tracks h)" "tracks h ! i = c" and pc: "tc_pc c = TLoad"
    and m: "tracked h = map_of m"
  shows "\<exists>h'. track_step\<^sup>*\<^sup>* h h' \<and> tc_pc (tracks h' ! i) = TDone \<and>
    tracked h' = map_of (TrackAccess now (tc_key c) (tc_domain c) (tc_qtype c) m)"
proof (cases "accessMap h (tc_key c)")
  case None
  let ?h1 = "h\<lparr>tracks := (tracks h)[i := c\<lparr>tc_pc := TNew\<rparr>]\<rparr>"
  let ?new = "\<lparr>AccessCount = 1, LastAccessNanos = now, FirstAccessNanos = now,
        Domain = tc_domain c, QueryType = tc_qtype c\<rparr>"
  let ?h2 = "?h1\<lparr>accessMap := (accessMap ?h1)(tc_key c \<mapsto> length (infos ?h1)), infos := infos ?h1 @ [?new],
      tracks := (tracks ?h1)[i := c\<lparr>tc_pc := TDone\<rparr>]\<rparr>"
  have "track_step h ?h1"
    using track_step.load [OF i pc] None by simp
  moreover have "track_step ?h1 ?h2"
    using track_step.store [of i ?h1 "c\<lparr>tc_pc := TNew\<rparr>" now] i by simp
  ultimately have run: "track_step\<^sup>*\<^sup>* h ?h2"
    by simp
  have "map_of m (tc_key c) = None"
    using None unfolding m [symmetric] by (simp add: tracked_def)
  then have "TrackAccess now (tc_key c) (tc_domain c) (tc_qtype c) m = AList.update (tc_key c) ?new m"
    by (simp add: TrackAccess_def)
  moreover have "tracked ?h2 = (tracked h)(tc_key c \<mapsto> ?new)"
  proof
    fix k
    have "p < length (infos h)" if "accessMap h k = Some p" for p
      using that ok by (simp add: heap_ok_def)
    then show "tracked ?h2 k = ((tracked h)(tc_key c \<mapsto> ?new)) k"
      by (cases "accessMap h k") (simp_all add: tracked_def nth_append)
  qed
  ultimately show ?thesis
    using run i m by (intro exI [of _ ?h2]) (simp add: map_of_update)
next
  case (Some p)
  let ?h1 = "h\<lparr>tracks := (tracks h)[i := c\<lparr>tc_pc := TAdd p\<rparr>]\<rparr>"
  let ?h2 = "?h1\<lparr>infos := (infos ?h1)[p := (infos ?h1 ! p)\<lparr>AccessCount := AccessCount (infos ?h1 ! p) + 1\<rparr>],
      tracks := (tracks ?h1)[i := c\<lparr>tc_pc := TStamp p\<rparr>]\<rparr>"
  let ?h3 = "?h2\<lparr>infos := (infos ?h2)[p := (infos ?h2 ! p)\<lparr>LastAccessNanos := now\<rparr>],
      tracks := (tracks ?h2)[i := c\<lparr>tc_pc := TDone\<rparr>]\<rparr>"
  have "track_step h ?h1"
    using track_step.load [OF i pc] Some by simp
  moreover have "track_step ?h1 ?h2"
    using track_step.add [of i ?h1 "c\<lparr>tc_pc := TAdd p\<rparr>" p] i by simp
  moreover have "track_step ?h2 ?h3"
    using track_step.stamp [of i ?h2 "c\<lparr>tc_pc := TStamp p\<rparr>" p now] i by simp
  ultimately have run: "track_step\<^sup>*\<^sup>* h ?h3"
    by simp
  have p: "p < length (infos h)" "\<And>k. accessMap h k = Some p \<longleftrightarrow> k = tc_key c"
    using ok Some by (auto simp: heap_ok_def)
  let ?new = "(infos h ! p)\<lparr>AccessCount := AccessCount (infos h ! p) + 1, LastAccessNanos := now\<rparr>"
  have "map_of m (tc_key c) = Some (infos h ! p)"
    using Some unfolding m [symmetric] by (simp add: tracked_def)
  then have "TrackAccess now (tc_key c) (tc_domain c) (tc_qtype c) m = AList.update (tc_key c) ?new m"
    by (simp add: TrackAccess_def)
  moreover have "tracked ?h3 = (tracked h)(tc_key c \<mapsto> ?new)"
  proof
    fix k
    have "q = p \<longleftrightarrow> k = tc_key c" if "accessMap h k = Some q" for q
      using that p(2) [of k] Some by auto
    with p(1) Some show "tracked ?h3 k = ((tracked h)(tc_key c \<mapsto> ?new)) k"
      by (cases "accessMap h k") (auto simp: tracked_def nth_list_update)
  qed
  ultimately show ?thesis
    using run i m by (intro exI [of _ ?h3]) (simp add: map_of_update)
qed

section \<open>What a concurrent run counts\<close>

lemma step_keys: "track_step h h' \<Longrightarrow> map tc_key (tracks h') = map tc_key (tracks h)"
  by (induction rule: track_step.induct) (auto simp: map_update intro!: list_update_same_conv [THEN iffD2])

lemma run_keys: "track_step\<^sup>*\<^sup>* h h' \<Longrightarrow> map tc_key (tracks h') = map tc_key (tracks h)"
  by (induction rule: rtranclp_induct) (simp_all add: step_keys)

lemma run_heap_ok: "track_step\<^sup>*\<^sup>* h h' \<Longrightarrow> heap_ok h \<Longrightarrow> heap_ok h'"
  by (induction rule: rtranclp_induct) (simp_all add: heap_ok_step)

lemma run_present: "track_step\<^sup>*\<^sup>* h h' \<Longrightarrow> heap_ok h \<Longrightarrow> present_inv k p n h \<Longrightarrow> present_inv k p n h'"
  by (induction rule: rtranclp_induct) (use run_heap_ok present_step in blast)+

lemma run_absent: "track_step\<^sup>*\<^sup>* h h' \<Longrightarrow> heap_ok h \<Longrightarrow> absent_inv k h \<Longrightarrow> absent_inv k h'"
  by (induction rule: rtranclp_induct) (use run_heap_ok absent_step in blast)+

lemma past_none: "list_all (\<lambda>c. tc_pc c = TLoad) cs \<Longrightarrow> past_calls k cs = 0"
  by (induction cs) (auto simp: past_calls_def)

lemma past_all: "list_all (\<lambda>c. tc_pc c = TDone) cs \<Longrightarrow> past_calls k cs = count_list (map tc_key cs) k"
  by (induction cs) (auto simp: past_calls_def)

text \<open>
  C13: concurrent tracking. When any number of calls of \<open>TrackAccess\<close> have run, interleaved in any
  way, a key that was tracked before has been counted once per call of it; a key that was not is
  tracked if and only if it was called, with a count between one and the number of calls.
\<close>

theorem tracking_counts:
  assumes "track_step\<^sup>*\<^sup>* h0 h" and "heap_ok h0"
    and "list_all (\<lambda>c. tc_pc c = TLoad) (tracks h0)" and "list_all (\<lambda>c. tc_pc c = TDone) (tracks h)"
  shows "case accessMap h0 k of
      Some p \<Rightarrow> accessMap h k = Some p \<and>
        AccessCount (infos h ! p) = AccessCount (infos h0 ! p) + of_nat (count_list (map tc_key (tracks h0)) k)
    | None \<Rightarrow> (case accessMap h k of
        None \<Rightarrow> count_list (map tc_key (tracks h0)) k = 0
      | Some p \<Rightarrow> (\<exists>m. AccessCount (infos h ! p) = of_nat m \<and> 1 \<le> m \<and> m \<le> count_list (map tc_key (tracks h0)) k))"
proof -
  have n: "past_calls k (tracks h) = count_list (map tc_key (tracks h0)) k"
    using past_all [OF assms(4)] run_keys [OF assms(1)] by simp
  have start: "\<forall>c \<in> set (tracks h0). tc_pc c = TLoad" "past_calls k (tracks h0) = 0"
    using assms(3) past_none by (simp_all add: list_all_iff)
  show ?thesis
  proof (cases "accessMap h0 k")
    case None
    then have "absent_inv k h0"
      using start by (simp add: absent_inv_def)
    then have "absent_inv k h"
      by (rule run_absent [OF assms(1,2)])
    with None n show ?thesis
      by (simp add: absent_inv_def split: option.split)
  next
    case (Some p)
    then have "present_inv k p (AccessCount (infos h0 ! p)) h0"
      using start by (simp add: present_inv_def)
    then have "present_inv k p (AccessCount (infos h0 ! p)) h"
      by (rule run_present [OF assms(1,2)])
    with Some n show ?thesis
      by (simp add: present_inv_def)
  qed
qed

text \<open>Two calls that both find no entry: the second store replaces the first, and one access is lost.\<close>

definition two_calls :: "track_pc \<Rightarrow> track_pc \<Rightarrow> track_call list" where
  "two_calls a b = [\<lparr>tc_key = ''k'', tc_domain = ''d'', tc_qtype = 1, tc_pc = a\<rparr>,
     \<lparr>tc_key = ''k'', tc_domain = ''d'', tc_qtype = 1, tc_pc = b\<rparr>]"

definition first_info :: AccessInfo where
  "first_info = \<lparr>AccessCount = 1, LastAccessNanos = 7, FirstAccessNanos = 7, Domain = ''d'', QueryType = 1\<rparr>"

definition race_start :: track_heap where
  "race_start = \<lparr>accessMap = (\<lambda>_. None), infos = [], tracks = two_calls TLoad TLoad\<rparr>"

definition race_end :: track_heap where
  "race_end = \<lparr>accessMap = [''k'' \<mapsto> 1], infos = [first_info, first_info], tracks = two_calls TDone TDone\<rparr>"

lemma race_run: "track_step\<^sup>*\<^sup>* race_start race_end"
proof -
  let ?h1 = "race_start\<lparr>tracks := two_calls TNew TLoad\<rparr>"
  let ?h2 = "race_start\<lparr>tracks := two_calls TNew TNew\<rparr>"
  let ?h3 = "\<lparr>accessMap = [''k'' \<mapsto> 0], infos = [first_info], tracks = two_calls TDone TNew\<rparr>"
  have "track_step race_start ?h1"
    using track_step.load [of 0 race_start] by (simp add: race_start_def two_calls_def)
  moreover have "track_step ?h1 ?h2"
    using track_step.load [of 1 ?h1] by (simp add: race_start_def two_calls_def)
  moreover have "track_step ?h2 ?h3"
    using track_step.store [of 0 ?h2 _ 7] by (simp add: race_start_def two_calls_def first_info_def)
  moreover have "track_step ?h3 race_end"
    using track_step.store [of 1 ?h3 _ 7] by (simp add: race_end_def two_calls_def first_info_def)
  ultimately show ?thesis
    by (meson converse_rtranclp_into_rtranclp rtranclp.rtrancl_refl)
qed

theorem tracking_counts_witness:
  "(\<exists>m. AccessCount (infos race_end ! 1) = of_nat m \<and> 1 \<le> m \<and> m \<le> count_list (map tc_key (tracks race_start)) ''k'') \<and>
   count_list (map tc_key (tracks race_start)) ''k'' = 2 \<and> AccessCount (infos race_end ! 1) = 1"
  using tracking_counts [OF race_run, of "''k''"]
  by (simp add: race_start_def race_end_def two_calls_def heap_ok_def first_info_def)

end
