(* ===== verification/Pools.thy ===== *)
theory Pools
  imports Prelude "HOL-Library.Multiset"
begin

text \<open>
  The slice pools of \<open>cache/pools.go\<close> and the way the code uses them. The theory \<open>Persistence\<close>
  treats a slice as its value; here it is what it is in Go, a pointer to a backing array
  with a length, and appending writes into the array while there is room. Saving and loading take a
  slice from the pool, append to it, store a copy and give the slice back; goroutines do so at the
  same time. The property is that nobody sees the sharing: every stored copy keeps what was
  collected.

  All slices start at the beginning of their array, so the capacity is the length of the array.
  The pools of strings and of records differ in the type of the elements only.
\<close>

section \<open>Slices\<close>

record slice =
  s_arr :: nat
  s_len :: nat

record 'a slice_heap =
  arrays :: "'a list list"
  pool :: "slice list"

definition contents :: "'a slice_heap \<Rightarrow> slice \<Rightarrow> 'a list" where
  "contents h s = take (s_len s) (arrays h ! s_arr s)"

definition capacity :: "'a slice_heap \<Rightarrow> slice \<Rightarrow> nat" where
  "capacity h s = length (arrays h ! s_arr s)"

text \<open>\<open>append\<close>: in place while there is room, else into a larger array with some spare room.\<close>

definition slice_append :: "'a \<Rightarrow> nat \<Rightarrow> 'a \<Rightarrow> slice \<Rightarrow> 'a slice_heap \<Rightarrow> slice \<times> 'a slice_heap" where
  "slice_append zero spare x s h =
     (if s_len s < capacity h s
      then (s\<lparr>s_len := s_len s + 1\<rparr>,
            h\<lparr>arrays := (arrays h)[s_arr s := (arrays h ! s_arr s)[s_len s := x]]\<rparr>)
      else (\<lparr>s_arr = length (arrays h), s_len = s_len s + 1\<rparr>,
            h\<lparr>arrays := arrays h @ [contents h s @ x # replicate spare zero]\<rparr>))"

text \<open>\<open>make\<close> with the length of the slice, then \<open>copy\<close>.\<close>

definition copy_slice :: "slice \<Rightarrow> 'a slice_heap \<Rightarrow> slice \<times> 'a slice_heap" where
  "copy_slice s h =
     (\<lparr>s_arr = length (arrays h), s_len = s_len s\<rparr>, h\<lparr>arrays := arrays h @ [contents h s]\<rparr>)"

section \<open>The pool\<close>

definition maxPoolSliceSize :: nat where "maxPoolSliceSize = 256"

text \<open>The pool's \<open>New\<close>.\<close>

definition new_pooled :: "'a \<Rightarrow> 'a slice_heap \<Rightarrow> slice \<times> 'a slice_heap" where
  "new_pooled zero h =
     (\<lparr>s_arr = length (arrays h), s_len = 0\<rparr>, h\<lparr>arrays := arrays h @ [replicate 16 zero]\<rparr>)"

text \<open>\<open>sync.Pool\<close> may give any slice it holds, or call \<open>New\<close>; \<open>pick\<close> says which.\<close>

definition getSlice :: "'a \<Rightarrow> nat option \<Rightarrow> 'a slice_heap \<Rightarrow> slice \<times> 'a slice_heap" where
  "getSlice zero pick h =
     (let (s, h1) = (case pick of
            Some i \<Rightarrow> if i < length (pool h)
                      then (pool h ! i, h\<lparr>pool := take i (pool h) @ drop (Suc i) (pool h)\<rparr>)
                      else new_pooled zero h
          | None \<Rightarrow> new_pooled zero h)
      in (s\<lparr>s_len := 0\<rparr>, h1))"

definition putSlice :: "slice \<Rightarrow> 'a slice_heap \<Rightarrow> 'a slice_heap" where
  "putSlice s h = (if capacity h s \<le> maxPoolSliceSize then h\<lparr>pool := s # pool h\<rparr> else h)"

section \<open>Goroutines that use the pool\<close>

text \<open>
  A goroutine works on a list of entries, each the elements it appends and whether a copy is stored
  afterwards; a loader stores none for an entry without records or past its time.
\<close>

datatype 'a phase = Idle | Filling bool slice "'a list" | Releasing slice

record 'a worker =
  todo :: "(bool \<times> 'a list) list"
  phase :: "'a phase"
  stored :: "slice list"

record 'a pool_sys =
  mem :: "'a slice_heap"
  workers :: "'a worker list"

inductive pool_step :: "'a \<Rightarrow> 'a pool_sys \<Rightarrow> 'a pool_sys \<Rightarrow> bool" for zero where
  get: "i < length ws \<Longrightarrow> ws ! i = w \<Longrightarrow> phase w = Idle \<Longrightarrow> todo w = (keep, xs) # rest \<Longrightarrow>
    getSlice zero pick h = (s, h') \<Longrightarrow>
    pool_step zero \<lparr>mem = h, workers = ws\<rparr>
      \<lparr>mem = h', workers = ws[i := w\<lparr>todo := rest, phase := Filling keep s xs\<rparr>]\<rparr>"
| append: "i < length ws \<Longrightarrow> ws ! i = w \<Longrightarrow> phase w = Filling keep s (x # xs) \<Longrightarrow>
    slice_append zero spare x s h = (s', h') \<Longrightarrow>
    pool_step zero \<lparr>mem = h, workers = ws\<rparr>
      \<lparr>mem = h', workers = ws[i := w\<lparr>phase := Filling keep s' xs\<rparr>]\<rparr>"
| copy: "i < length ws \<Longrightarrow> ws ! i = w \<Longrightarrow> phase w = Filling True s [] \<Longrightarrow> copy_slice s h = (s', h') \<Longrightarrow>
    pool_step zero \<lparr>mem = h, workers = ws\<rparr>
      \<lparr>mem = h', workers = ws[i := w\<lparr>phase := Releasing s, stored := stored w @ [s']\<rparr>]\<rparr>"
| skip: "i < length ws \<Longrightarrow> ws ! i = w \<Longrightarrow> phase w = Filling False s [] \<Longrightarrow>
    pool_step zero \<lparr>mem = h, workers = ws\<rparr> \<lparr>mem = h, workers = ws[i := w\<lparr>phase := Releasing s\<rparr>]\<rparr>"
| put: "i < length ws \<Longrightarrow> ws ! i = w \<Longrightarrow> phase w = Releasing s \<Longrightarrow>
    pool_step zero \<lparr>mem = h, workers = ws\<rparr> \<lparr>mem = putSlice s h, workers = ws[i := w\<lparr>phase := Idle\<rparr>]\<rparr>"
| collect: "pool_step zero \<lparr>mem = h, workers = ws\<rparr>
      \<lparr>mem = h\<lparr>pool := take n (pool h) @ drop (Suc n) (pool h)\<rparr>, workers = ws\<rparr>"

definition pool_start :: "(bool \<times> 'a list) list list \<Rightarrow> 'a pool_sys" where
  "pool_start jobs = \<lparr>mem = \<lparr>arrays = [], pool = []\<rparr>,
     workers = map (\<lambda>job. \<lparr>todo = job, phase = Idle, stored = []\<rparr>) jobs\<rparr>"

section \<open>Ownership\<close>

fun held :: "'a phase \<Rightarrow> slice list" where
  "held Idle = []"
| "held (Filling keep s xs) = [s]"
| "held (Releasing s) = [s]"

definition owned :: "'a worker \<Rightarrow> nat list" where
  "owned w = map s_arr (held (phase w) @ stored w)"

definition kept :: "(bool \<times> 'a list) list \<Rightarrow> 'a list list" where
  "kept job = map snd (filter fst job)"

fun pending :: "'a slice_heap \<Rightarrow> 'a phase \<Rightarrow> 'a list list" where
  "pending h (Filling keep s xs) = (if keep then [contents h s @ xs] else [])"
| "pending h ph = []"

text \<open>What a goroutine has stored, is collecting and has still to do is its job.\<close>

definition worker_ok :: "'a slice_heap \<Rightarrow> (bool \<times> 'a list) list \<Rightarrow> 'a worker \<Rightarrow> bool" where
  "worker_ok h job w \<longleftrightarrow>
     map (contents h) (stored w) @ pending h (phase w) @ kept (todo w) = kept job \<and>
     (\<forall>s \<in> set (held (phase w)). s_len s \<le> capacity h s)"

text \<open>Every array belongs to one slice of the pool or of a goroutine.\<close>

definition pool_inv :: "(bool \<times> 'a list) list list \<Rightarrow> 'a pool_sys \<Rightarrow> bool" where
  "pool_inv jobs p \<longleftrightarrow>
     distinct (map s_arr (pool (mem p)) @ concat (map owned (workers p))) \<and>
     set (map s_arr (pool (mem p)) @ concat (map owned (workers p))) \<subseteq> {..<length (arrays (mem p))} \<and>
     (\<forall>s \<in> set (pool (mem p)). capacity (mem p) s \<le> maxPoolSliceSize) \<and>
     list_all2 (worker_ok (mem p)) jobs (workers p)"

lemma mset_concat_update:
  "i < length ws \<Longrightarrow>
     mset (concat (map f (ws[i := w]))) + mset (f (ws ! i)) = mset (concat (map f ws)) + mset (f w)"
proof (induction ws arbitrary: i)
  case (Cons v ws)
  then show ?case by (cases i) auto
qed simp

lemma submset_distinct:
  assumes "mset xs \<subseteq># mset ys" and "distinct ys"
  shows "distinct xs"
proof -
  obtain zs where "mset ys = mset (xs @ zs)"
    using assms(1) by (metis mset_append ex_mset subset_mset.add_diff_inverse)
  then show ?thesis
    using assms(2) mset_eq_imp_distinct_iff by fastforce
qed

lemma concat_disjoint:
  "distinct (concat (map f ws)) \<Longrightarrow> i < length ws \<Longrightarrow> j < length ws \<Longrightarrow> i \<noteq> j \<Longrightarrow>
     set (f (ws ! i)) \<inter> set (f (ws ! j)) = {}"
proof (induction ws arbitrary: i j)
  case (Cons v ws)
  then show ?case
    by (cases i; cases j) (auto dest!: nth_mem)
qed simp

lemma worker_ok_frame:
  assumes "worker_ok h job w" and "\<forall>a \<in> set (owned w). arrays h' ! a = arrays h ! a"
  shows "worker_ok h' job w"
proof -
  have same: "contents h' s = contents h s" "capacity h' s = capacity h s"
    if "s \<in> set (held (phase w) @ stored w)" for s
    using that assms(2) by (auto simp: contents_def capacity_def owned_def)
  have "pending h' (phase w) = pending h (phase w)"
    using same(1) by (cases "phase w") auto
  moreover have "map (contents h') (stored w) = map (contents h) (stored w)"
    using same(1) by simp
  moreover have "\<forall>s \<in> set (held (phase w)). capacity h' s = capacity h s"
    using same(2) by simp
  ultimately show ?thesis
    using assms(1) unfolding worker_ok_def by metis
qed

lemma pool_inv_update:
  assumes inv: "pool_inv jobs \<lparr>mem = h, workers = ws\<rparr>" and i: "i < length ws"
    and own: "mset (map s_arr (pool h') @ owned w') \<subseteq>#
      mset (map s_arr (pool h) @ owned (ws ! i)) + mset [length (arrays h)..<length (arrays h')]"
    and grow: "length (arrays h) \<le> length (arrays h')"
    and frame: "\<And>a. a < length (arrays h) \<Longrightarrow> a \<notin> set (owned (ws ! i)) \<Longrightarrow> arrays h' ! a = arrays h ! a"
    and cap: "\<forall>s \<in> set (pool h'). capacity h' s \<le> maxPoolSliceSize"
    and ok: "worker_ok h' (jobs ! i) w'"
  shows "pool_inv jobs \<lparr>mem = h', workers = ws[i := w']\<rparr>"
proof -
  let ?old = "map s_arr (pool h) @ concat (map owned ws)"
  let ?new = "map s_arr (pool h') @ concat (map owned (ws[i := w']))"
  let ?fresh = "[length (arrays h)..<length (arrays h')]"
  have dist: "distinct ?old" and sub: "set ?old \<subseteq> {..<length (arrays h)}"
    and ws: "list_all2 (worker_ok h) jobs ws"
    using inv by (simp_all add: pool_inv_def)
  have "mset ?new + mset (owned (ws ! i)) = mset (concat (map owned ws)) + mset (map s_arr (pool h') @ owned w')"
    using mset_concat_update [OF i, of owned w'] by (simp add: ac_simps)
  also have "\<dots> \<subseteq># mset (concat (map owned ws)) +
      (mset (map s_arr (pool h) @ owned (ws ! i)) + mset ?fresh)"
    using own by (rule subset_mset.add_left_mono)
  also have "\<dots> = mset (?old @ ?fresh) + mset (owned (ws ! i))"
    by (simp add: ac_simps)
  finally have m: "mset ?new \<subseteq># mset (?old @ ?fresh)"
    by simp
  have "distinct (?old @ ?fresh)"
    using dist sub by auto
  with m have "distinct ?new"
    by (rule submset_distinct)
  moreover have "set ?new \<subseteq> set ?old \<union> set ?fresh"
    using set_mset_mono [OF m] by (simp only: set_mset_mset set_append [of ?old ?fresh])
  then have "set ?new \<subseteq> {..<length (arrays h')}"
    by (rule order_trans) (intro Un_least order_trans [OF sub], use grow in auto)
  moreover have "worker_ok h' (jobs ! j) (ws[i := w'] ! j)" if j: "j < length ws" for j
  proof (cases "j = i")
    case False
    have "set (owned (ws ! i)) \<inter> set (owned (ws ! j)) = {}"
      using dist i j False concat_disjoint by (metis distinct_append)
    moreover have "set (owned (ws ! j)) \<subseteq> {..<length (arrays h)}"
      using sub j by (auto dest!: nth_mem)
    ultimately have "\<forall>a \<in> set (owned (ws ! j)). arrays h' ! a = arrays h ! a"
      using frame by (metis disjoint_iff lessThan_iff subsetD)
    with False show ?thesis
      using worker_ok_frame list_all2_nthD2 [OF ws j] by simp
  qed (use ok i in simp)
  ultimately show ?thesis
    using cap list_all2_lengthD [OF ws] by (simp add: pool_inv_def list_all2_conv_all_nth)
qed

section \<open>The invariant is kept\<close>

lemma take_drop_mset:
  "n < length xs \<Longrightarrow> mset xs = add_mset (xs ! n) (mset (take n xs) + mset (drop (Suc n) xs))"
  by (metis Cons_nth_drop_Suc append_take_drop_id mset.simps(2) mset_append union_mset_add_mset_right)

lemma take_drop_subset: "set (take n xs) \<union> set (drop m xs) \<subseteq> set xs"
  by (auto dest: in_set_takeD in_set_dropD)

lemma append_contents:
  assumes "slice_append zero spare x s h = (s', h')" and "s_len s \<le> capacity h s" and "s_arr s < length (arrays h)"
  shows "contents h' s' = contents h s @ [x]" "s_len s' \<le> capacity h' s'" "pool h' = pool h"
    "length (arrays h) \<le> length (arrays h')"
    "a < length (arrays h) \<Longrightarrow> a \<noteq> s_arr s \<Longrightarrow> arrays h' ! a = arrays h ! a"
    "a < length (arrays h) \<Longrightarrow> length (arrays h' ! a) = length (arrays h ! a)"
    "s_arr s' = s_arr s \<and> length (arrays h') = length (arrays h) \<or>
     s_arr s' = length (arrays h) \<and> length (arrays h') = Suc (length (arrays h))"
  using assms
  by (auto simp: slice_append_def contents_def capacity_def nth_append nth_list_update take_Suc_conv_app_nth
      split: if_splits)

lemma getSlice_cases:
  assumes "getSlice zero pick h = (s, h')"
  obtains (pooled) n where "n < length (pool h)" "s = (pool h ! n)\<lparr>s_len := 0\<rparr>" "arrays h' = arrays h"
      "pool h' = take n (pool h) @ drop (Suc n) (pool h)"
  | (fresh) "s = \<lparr>s_arr = length (arrays h), s_len = 0\<rparr>" "arrays h' = arrays h @ [replicate 16 zero]"
      "pool h' = pool h"
  using assms by (auto simp: getSlice_def new_pooled_def Let_def split: option.splits if_splits prod.splits)

lemma owned_bound:
  assumes "pool_inv jobs \<lparr>mem = h, workers = ws\<rparr>" and "i < length ws" and "a \<in> set (owned (ws ! i))"
  shows "a < length (arrays h)"
  using assms by (auto simp: pool_inv_def dest!: nth_mem)

lemma worker_ok_nth:
  "pool_inv jobs \<lparr>mem = h, workers = ws\<rparr> \<Longrightarrow> i < length ws \<Longrightarrow> worker_ok h (jobs ! i) (ws ! i)"
  by (auto simp: pool_inv_def intro: list_all2_nthD2)

lemma pool_capacity:
  "pool_inv jobs \<lparr>mem = h, workers = ws\<rparr> \<Longrightarrow> s \<in> set (pool h) \<Longrightarrow>
     s_arr s < length (arrays h) \<and> capacity h s \<le> maxPoolSliceSize"
  by (auto simp: pool_inv_def)

text \<open>What is stored stays what it is when other arrays are written.\<close>

lemma stored_frame:
  "\<forall>c \<in> set cs. arrays h' ! s_arr c = arrays h ! s_arr c \<Longrightarrow> map (contents h') cs = map (contents h) cs"
  by (simp add: contents_def)

lemma get_keeps:
  assumes inv: "pool_inv jobs \<lparr>mem = h, workers = ws\<rparr>" and i: "i < length ws" "ws ! i = w"
    and w: "phase w = Idle" "todo w = (keep, xs) # rest" and g: "getSlice zero pick h = (s, h')"
  shows "pool_inv jobs \<lparr>mem = h', workers = ws[i := w\<lparr>todo := rest, phase := Filling keep s xs\<rparr>]\<rparr>"
proof -
  have ok: "worker_ok h (jobs ! i) w"
    using worker_ok_nth [OF inv i(1)] i(2) by simp
  have old: "a < length (arrays h)" if "a \<in> set (owned w)" for a
    using owned_bound [OF inv i(1)] that i(2) by simp
  have len: "s_len s = 0"
    using g by (cases rule: getSlice_cases) simp_all
  have frame: "arrays h' ! a = arrays h ! a" if "a < length (arrays h)" for a
    using g by (cases rule: getSlice_cases) (use that in \<open>simp_all add: nth_append\<close>)
  then have "map (contents h') (stored w) = map (contents h) (stored w)"
    using old by (intro stored_frame) (simp add: owned_def)
  then have "worker_ok h' (jobs ! i) (w\<lparr>todo := rest, phase := Filling keep s xs\<rparr>)"
    using ok w len contents_def [of h' s] by (cases keep) (simp_all add: worker_ok_def kept_def del: map_eq_conv)
  moreover have "\<forall>s \<in> set (pool h'). capacity h' s \<le> maxPoolSliceSize"
  proof
    fix t assume t: "t \<in> set (pool h')"
    have "t \<in> set (pool h)"
      using g t by (cases rule: getSlice_cases) (auto dest: in_set_takeD in_set_dropD)
    then show "capacity h' t \<le> maxPoolSliceSize"
      using pool_capacity [OF inv] frame by (simp add: capacity_def)
  qed
  moreover have "length (arrays h) \<le> length (arrays h')"
    using g by (cases rule: getSlice_cases) simp_all
  moreover have "mset (map s_arr (pool h') @ owned (w\<lparr>todo := rest, phase := Filling keep s xs\<rparr>)) \<subseteq>#
      mset (map s_arr (pool h) @ owned (ws ! i)) + mset [length (arrays h)..<length (arrays h')]"
    using g by (cases rule: getSlice_cases) (use w i(2) in \<open>simp_all add: owned_def take_drop_mset\<close>)
  ultimately show ?thesis
    using i(1) frame by (intro pool_inv_update [OF inv]) simp_all
qed

lemma append_keeps:
  assumes inv: "pool_inv jobs \<lparr>mem = h, workers = ws\<rparr>" and i: "i < length ws" "ws ! i = w"
    and w: "phase w = Filling keep s (x # xs)" and a: "slice_append zero spare x s h = (s', h')"
  shows "pool_inv jobs \<lparr>mem = h', workers = ws[i := w\<lparr>phase := Filling keep s' xs\<rparr>]\<rparr>"
proof -
  have ok: "worker_ok h (jobs ! i) w"
    using worker_ok_nth [OF inv i(1)] i(2) by simp
  have old: "a < length (arrays h)" if "a \<in> set (owned w)" for a
    using owned_bound [OF inv i(1)] that i(2) by simp
  have s: "s_len s \<le> capacity h s" "s_arr s < length (arrays h)"
    using ok w old by (auto simp: worker_ok_def owned_def)
  note app = append_contents [OF a s]
  have "distinct (owned (ws ! i))"
    using inv i(1) by (auto simp: pool_inv_def distinct_concat_iff)
  then have "\<forall>c \<in> set (stored w). s_arr c \<noteq> s_arr s"
    using w i(2) by (simp add: owned_def image_iff) metis
  then have "map (contents h') (stored w) = map (contents h) (stored w)"
    using old app(5) by (intro stored_frame) (simp add: owned_def)
  then have "worker_ok h' (jobs ! i) (w\<lparr>phase := Filling keep s' xs\<rparr>)"
    using ok w app(1,2) by (cases keep) (simp_all add: worker_ok_def del: map_eq_conv)
  moreover have "\<forall>t \<in> set (pool h'). capacity h' t \<le> maxPoolSliceSize"
    using pool_capacity [OF inv] app(3,6) by (simp add: capacity_def)
  moreover have "mset (map s_arr (pool h') @ owned (w\<lparr>phase := Filling keep s' xs\<rparr>)) \<subseteq>#
      mset (map s_arr (pool h) @ owned (ws ! i)) + mset [length (arrays h)..<length (arrays h')]"
    using app(7) w i(2) app(3) by (auto simp: owned_def)
  moreover have "arrays h' ! a = arrays h ! a" if "a < length (arrays h)" "a \<notin> set (owned (ws ! i))" for a
    using that app(5) w i(2) by (simp add: owned_def)
  ultimately show ?thesis
    using i(1) app(4) by (intro pool_inv_update [OF inv]) simp_all
qed

lemma copy_keeps:
  assumes inv: "pool_inv jobs \<lparr>mem = h, workers = ws\<rparr>" and i: "i < length ws" "ws ! i = w"
    and w: "phase w = Filling True s []" and c: "copy_slice s h = (s', h')"
  shows "pool_inv jobs \<lparr>mem = h', workers = ws[i := w\<lparr>phase := Releasing s, stored := stored w @ [s']\<rparr>]\<rparr>"
proof -
  have ok: "worker_ok h (jobs ! i) w"
    using worker_ok_nth [OF inv i(1)] i(2) by simp
  have old: "a < length (arrays h)" if "a \<in> set (owned w)" for a
    using owned_bound [OF inv i(1)] that i(2) by simp
  have h': "arrays h' = arrays h @ [contents h s]" "pool h' = pool h" "s' = \<lparr>s_arr = length (arrays h), s_len = s_len s\<rparr>"
    using c by (auto simp: copy_slice_def)
  have frame: "arrays h' ! a = arrays h ! a" if "a < length (arrays h)" for a
    using that h'(1) by (simp add: nth_append)
  have "map (contents h') (stored w) = map (contents h) (stored w)"
    using old frame by (intro stored_frame) (simp add: owned_def)
  moreover have "contents h' s' = contents h s"
    using h' by (simp add: contents_def)
  moreover have "s_arr s < length (arrays h)"
    using w old by (simp add: owned_def)
  ultimately have "worker_ok h' (jobs ! i) (w\<lparr>phase := Releasing s, stored := stored w @ [s']\<rparr>)"
    using ok w frame by (simp add: worker_ok_def capacity_def del: map_eq_conv)
  moreover have "\<forall>t \<in> set (pool h'). capacity h' t \<le> maxPoolSliceSize"
    using pool_capacity [OF inv] frame h'(2) by (simp add: capacity_def)
  moreover have "mset (map s_arr (pool h') @ owned (w\<lparr>phase := Releasing s, stored := stored w @ [s']\<rparr>)) \<subseteq>#
      mset (map s_arr (pool h) @ owned (ws ! i)) + mset [length (arrays h)..<length (arrays h')]"
    using w i(2) h' by (simp add: owned_def)
  ultimately show ?thesis
    using i(1) frame h'(1) by (intro pool_inv_update [OF inv]) simp_all
qed

lemma release_keeps:
  assumes inv: "pool_inv jobs \<lparr>mem = h, workers = ws\<rparr>" and i: "i < length ws" "ws ! i = w"
    and w: "phase w = Filling False s [] \<and> ph = Releasing s \<and> h' = h \<or>
      phase w = Releasing s \<and> ph = Idle \<and> h' = putSlice s h"
  shows "pool_inv jobs \<lparr>mem = h', workers = ws[i := w\<lparr>phase := ph\<rparr>]\<rparr>"
proof -
  have h': "arrays h' = arrays h"
    using w by (auto simp: putSlice_def)
  then have same: "contents h' = contents h" "capacity h' = capacity h"
    by (simp_all add: fun_eq_iff contents_def capacity_def)
  have "worker_ok h (jobs ! i) w"
    using worker_ok_nth [OF inv i(1)] i(2) by simp
  then have "worker_ok h' (jobs ! i) (w\<lparr>phase := ph\<rparr>)"
    using w same by (auto simp: worker_ok_def)
  moreover have "\<forall>t \<in> set (pool h'). capacity h' t \<le> maxPoolSliceSize"
    unfolding same(2) using pool_capacity [OF inv] w by (auto simp: putSlice_def split: if_splits)
  moreover have "mset (map s_arr (pool h') @ owned (w\<lparr>phase := ph\<rparr>)) \<subseteq>#
      mset (map s_arr (pool h) @ owned (ws ! i)) + mset [length (arrays h)..<length (arrays h')]"
    using w i(2) h' by (auto simp: owned_def putSlice_def)
  ultimately show ?thesis
    using i(1) h' by (intro pool_inv_update [OF inv]) simp_all
qed

lemma pool_inv_step: "pool_step zero p p' \<Longrightarrow> pool_inv jobs p \<Longrightarrow> pool_inv jobs p'"
proof (induction rule: pool_step.induct)
  case (collect h ws n)
  let ?ps = "take n (pool h) @ drop (Suc n) (pool h)"
  have "mset (map s_arr ?ps @ concat (map owned ws)) \<subseteq># mset (map s_arr (pool h) @ concat (map owned ws))"
    by (cases "n < length (pool h)") (simp_all add: take_drop_mset)
  moreover have inv: "distinct (map s_arr (pool h) @ concat (map owned ws))"
    "set (map s_arr (pool h) @ concat (map owned ws)) \<subseteq> {..<length (arrays h)}"
    "\<forall>s \<in> set (pool h). capacity h s \<le> maxPoolSliceSize" "list_all2 (worker_ok h) jobs ws"
    using collect by (simp_all add: pool_inv_def)
  ultimately have "distinct (map s_arr ?ps @ concat (map owned ws))"
    by (blast intro: submset_distinct)
  moreover have ps: "set ?ps \<subseteq> set (pool h)"
    using take_drop_subset by simp
  then have "set (map s_arr ?ps @ concat (map owned ws)) \<subseteq> {..<length (arrays h)}"
    using inv(2) by (simp only: set_append set_map) blast
  moreover have "\<forall>s \<in> set ?ps. capacity (h\<lparr>pool := ?ps\<rparr>) s \<le> maxPoolSliceSize"
    using ps inv(3) by (simp add: capacity_def subset_iff del: set_append)
  moreover have "list_all2 (worker_ok (h\<lparr>pool := ?ps\<rparr>)) jobs ws"
    by (rule list_all2_mono [OF inv(4)]) (erule worker_ok_frame, simp)
  ultimately show ?case
    by (simp add: pool_inv_def del: set_append map_append distinct_append)
next
  case (skip i ws w s h)
  then show ?case by (intro release_keeps) auto
next
  case (put i ws w s h)
  then show ?case by (intro release_keeps) auto
next
  case (get i ws w keep xs rest pick h s h')
  then show ?case by (metis get_keeps)
next
  case (append i ws w keep s x xs spare h s' h')
  then show ?case by (metis append_keeps)
next
  case (copy i ws w s h s' h')
  then show ?case by (metis copy_keeps)
qed

lemma pool_inv_start: "pool_inv jobs (pool_start jobs)"
proof -
  have "concat (map owned (map (\<lambda>job. \<lparr>todo = job, phase = Idle, stored = []\<rparr>) jobs)) = []"
    by (simp add: owned_def)
  then show ?thesis
    unfolding pool_inv_def pool_start_def
    by (simp add: worker_ok_def list_all2_conv_all_nth del: concat_eq_Nil_conv)
qed

lemma pool_inv_run: "(pool_step zero)\<^sup>*\<^sup>* (pool_start jobs) p \<Longrightarrow> pool_inv jobs p"
  by (induction rule: rtranclp_induct) (auto intro: pool_inv_start pool_inv_step)

section \<open>What the users of the pool see\<close>

text \<open>
  C21: pooling is invisible. However the goroutines that share the pool are interleaved, whatever
  slices the pool hands out and whenever it drops some, the copies a goroutine has stored hold at
  every moment exactly what it collected for its first entries that are stored, all of them once it
  has finished; and the pool keeps no slice of a capacity above its limit.
\<close>

theorem pooled_copies:
  assumes "(pool_step zero)\<^sup>*\<^sup>* (pool_start jobs) p"
  shows "list_all2 (\<lambda>job w.
      map (contents (mem p)) (stored w) = take (length (stored w)) (map snd (filter fst job)) \<and>
      (phase w = Idle \<and> todo w = [] \<longrightarrow> length (stored w) = length (filter fst job))) jobs (workers p) \<and>
    list_all (\<lambda>s. capacity (mem p) s \<le> 256) (pool (mem p))"
proof -
  have "pool_inv jobs p"
    using assms by (rule pool_inv_run)
  then have ok: "list_all2 (worker_ok (mem p)) jobs (workers p)"
    and cap: "list_all (\<lambda>s. capacity (mem p) s \<le> 256) (pool (mem p))"
    by (simp_all add: pool_inv_def list_all_iff maxPoolSliceSize_def)
  have "map (contents (mem p)) (stored w) = take (length (stored w)) (kept job) \<and>
      (phase w = Idle \<and> todo w = [] \<longrightarrow> length (stored w) = length (kept job))" if "worker_ok (mem p) job w" for job w
  proof -
    have "map (contents (mem p)) (stored w) @ pending (mem p) (phase w) @ kept (todo w) = kept job"
      using that by (simp add: worker_ok_def)
    moreover from this have "map (contents (mem p)) (stored w) = take (length (stored w)) (kept job)"
      by (metis append_eq_conv_conj length_map)
    ultimately show ?thesis
      by (auto simp: kept_def dest: map_eq_imp_length_eq)
  qed
  with ok cap show ?thesis
    by (simp add: kept_def) (erule list_all2_mono, blast)
qed

text \<open>A goroutine with two entries gets the same slice twice; the second entry overwrites its array.\<close>

definition demo :: "nat list list \<Rightarrow> slice list \<Rightarrow> (bool \<times> nat list) list \<Rightarrow> nat phase \<Rightarrow> slice list \<Rightarrow> nat pool_sys" where
  "demo arrs ps td ph st = \<lparr>mem = \<lparr>arrays = arrs, pool = ps\<rparr>, workers = [\<lparr>todo = td, phase = ph, stored = st\<rparr>]\<rparr>"

lemma demo_get:
  assumes "getSlice 0 pick \<lparr>arrays = a, pool = ps\<rparr> = (s, \<lparr>arrays = a', pool = ps'\<rparr>)"
  shows "pool_step 0 (demo a ps ((k, xs) # td) Idle st) (demo a' ps' td (Filling k s xs) st)"
  using pool_step.get [OF _ refl _ _ assms, of 0 "[\<lparr>todo = (k, xs) # td, phase = Idle, stored = st\<rparr>]"]
  by (simp add: demo_def)

lemma demo_append:
  assumes "slice_append 0 spare x s \<lparr>arrays = a, pool = ps\<rparr> = (s', \<lparr>arrays = a', pool = ps\<rparr>)"
  shows "pool_step 0 (demo a ps td (Filling k s (x # xs)) st) (demo a' ps td (Filling k s' xs) st)"
  using pool_step.append [OF _ refl _ assms, of 0 "[\<lparr>todo = td, phase = Filling k s (x # xs), stored = st\<rparr>]"]
  by (simp add: demo_def)

lemma demo_copy:
  assumes "copy_slice s \<lparr>arrays = a, pool = ps\<rparr> = (s', \<lparr>arrays = a', pool = ps\<rparr>)"
  shows "pool_step 0 (demo a ps td (Filling True s []) st) (demo a' ps td (Releasing s) (st @ [s']))"
  using pool_step.copy [OF _ refl _ assms, of 0 "[\<lparr>todo = td, phase = Filling True s [], stored = st\<rparr>]"]
  by (simp add: demo_def)

lemma demo_put:
  assumes "putSlice s \<lparr>arrays = a, pool = ps\<rparr> = \<lparr>arrays = a, pool = ps'\<rparr>"
  shows "pool_step 0 (demo a ps td (Releasing s) st) (demo a ps' td Idle st)"
  using pool_step.put [OF _ refl, of 0 "[\<lparr>todo = td, phase = Releasing s, stored = st\<rparr>]" s 0 "\<lparr>arrays = a, pool = ps\<rparr>"]
    assms by (simp add: demo_def)

lemma demo_run:
  "(pool_step 0)\<^sup>*\<^sup>* (pool_start [[(True, [7]), (True, [8])]])
     (demo [8 # replicate 15 0, [7], [8]] [\<lparr>s_arr = 0, s_len = 1\<rparr>] [] Idle
       [\<lparr>s_arr = 1, s_len = 1\<rparr>, \<lparr>s_arr = 2, s_len = 1\<rparr>])"
proof -
  let ?z = "replicate 15 0 :: nat list"
  let ?s0 = "\<lparr>s_arr = 0, s_len = 0\<rparr>" and ?s1 = "\<lparr>s_arr = 0, s_len = 1\<rparr>"
  let ?c1 = "\<lparr>s_arr = 1, s_len = 1\<rparr>" and ?c2 = "\<lparr>s_arr = 2, s_len = 1\<rparr>"
  let ?S = "pool_step (0::nat)"
  note ops = getSlice_def new_pooled_def slice_append_def copy_slice_def putSlice_def capacity_def contents_def
    maxPoolSliceSize_def numeral_eq_Suc
  have s1: "?S (demo [] [] [(True, [7]), (True, [8])] Idle []) (demo [0 # ?z] [] [(True, [8])] (Filling True ?s0 [7]) [])"
    by (rule demo_get [of None]) (simp add: ops)
  have s2: "?S (demo [0 # ?z] [] [(True, [8])] (Filling True ?s0 [7]) [])
      (demo [7 # ?z] [] [(True, [8])] (Filling True ?s1 []) [])"
    by (rule demo_append) (simp add: ops)
  have s3: "?S (demo [7 # ?z] [] [(True, [8])] (Filling True ?s1 []) [])
      (demo [7 # ?z, [7]] [] [(True, [8])] (Releasing ?s1) [?c1])"
    using demo_copy [of ?s1 "[7 # ?z]" "[]" ?c1 "[7 # ?z, [7]]" "[(True, [8])]" "[]"] by (simp add: ops)
  have s4: "?S (demo [7 # ?z, [7]] [] [(True, [8])] (Releasing ?s1) [?c1])
      (demo [7 # ?z, [7]] [?s1] [(True, [8])] Idle [?c1])"
    by (rule demo_put) (simp add: ops)
  have s5: "?S (demo [7 # ?z, [7]] [?s1] [(True, [8])] Idle [?c1])
      (demo [7 # ?z, [7]] [] [] (Filling True ?s0 [8]) [?c1])"
    by (rule demo_get [of "Some 0"]) (simp add: ops)
  have s6: "?S (demo [7 # ?z, [7]] [] [] (Filling True ?s0 [8]) [?c1])
      (demo [8 # ?z, [7]] [] [] (Filling True ?s1 []) [?c1])"
    by (rule demo_append) (simp add: ops)
  have s7: "?S (demo [8 # ?z, [7]] [] [] (Filling True ?s1 []) [?c1])
      (demo [8 # ?z, [7], [8]] [] [] (Releasing ?s1) [?c1, ?c2])"
    using demo_copy [of ?s1 "[8 # ?z, [7]]" "[]" ?c2 "[8 # ?z, [7], [8]]" "[]" "[?c1]"] by (simp add: ops)
  have s8: "?S (demo [8 # ?z, [7], [8]] [] [] (Releasing ?s1) [?c1, ?c2])
      (demo [8 # ?z, [7], [8]] [?s1] [] Idle [?c1, ?c2])"
    by (rule demo_put) (simp add: ops)
  have start: "pool_start [[(True, [7]), (True, [8])]] = demo [] [] [(True, [7::nat]), (True, [8])] Idle []"
    by (simp add: demo_def pool_start_def)
  note go = converse_rtranclp_into_rtranclp [of ?S]
  show ?thesis
    unfolding start
    by (rule go [OF s1 go [OF s2 go [OF s3 go [OF s4 go [OF s5 go [OF s6 go [OF s7 go [OF s8 rtranclp.rtrancl_refl]]]]]]]])
qed

theorem pooled_copies_witness:
  "map (contents (mem (demo [8 # replicate 15 0, [7], [8]] [\<lparr>s_arr = 0, s_len = 1\<rparr>] [] Idle
       [\<lparr>s_arr = 1, s_len = 1\<rparr>, \<lparr>s_arr = 2, s_len = 1\<rparr>])))
     [\<lparr>s_arr = 1, s_len = 1\<rparr>, \<lparr>s_arr = 2, s_len = 1\<rparr>] = [[7], [8]]"
  using pooled_copies [OF demo_run] by (simp add: demo_def)

end
