(* ===== verification/Spec2Isabelle.thy ===== *)
theory Spec2Isabelle
  imports Program Requests MsgPool Logger TrackerRace Pools
begin

text \<open>
  A verification library for the DNS forwarder \<open>dnsforwarder\<close>, a Go program that answers DNS
  queries from a cache or by asking private and public upstream servers, chosen by rules on the
  client and the domain.

  \<^bold>\<open>The program and its model.\<close> A query enters through \<open>ServeDNS\<close> (\<open>main.go\<close>), which asks the
  cached resolver (\<open>cache/cache.go\<close>); a miss goes to the resolver (\<open>dnsresolver\<close>), which looks for
  a route of the domain (\<open>domainrouting\<close>) and otherwise for the servers of the client
  (\<open>dnssource\<close>, which asks \<open>clientrouting\<close>), and tries them in order. In the background run the
  health check, the reload of the routing folder, the refresh of entries that are about to
  expire, the saving of the cache, the batching of metrics and the log writer. Each theory
  models one package or file, with a record for its variables and a definition for each
  function, named as in the code:

  \<^item> \<open>Prelude\<close>: widths, units, association lists, and the contract \<open>memo\<close> of a memoised function.
  \<^item> \<open>GoStrings\<close>, \<open>GoTime\<close>, \<open>GoNet\<close>: what the code uses of Go's standard library: trimming,
    splitting and numbers; durations, in exact and in floating point arithmetic; addresses.
  \<^item> \<open>Env\<close>, \<open>MacAddr\<close>, \<open>PidFile\<close>: \<open>util/util.go\<close> and \<open>util/pidfile.go\<close>.
  \<^item> \<open>Config\<close>: \<open>config/config.go\<close>.
  \<^item> \<open>DomainRouting\<close>, \<open>ClientRouting\<close>, \<open>DnsSource\<close>, \<open>DnsResolver\<close>: the packages of these names.
  \<^item> \<open>GoCache\<close>: the third-party cache as a record of operations with its documented laws.
  \<^item> \<open>Metrics\<close>, \<open>SysMetrics\<close>, \<open>MetricsServer\<close>: package \<open>metric\<close>; an effect on Prometheus is a value
    \<open>prom_op\<close>, which fits a registered metric; the HTTP server and its routes.
  \<^item> \<open>Logger\<close>: \<open>logutil/logutil.go\<close>.
  \<^item> \<open>Cache\<close>, \<open>StaleUpdater\<close>, \<open>Persistence\<close>: package \<open>cache\<close>; \<open>TrackerRace\<close>: concurrent
    calls of the access tracker, through the pointers of its map.
  \<^item> \<open>Pools\<close>: \<open>cache/pools.go\<close>, with the arrays behind the slices, and its use when the cache is
    saved and loaded.
  \<^item> \<open>Server\<close>: the handler and the start-up of \<open>main.go\<close>, with what can make it panic, and the running
    server as the composition of all of these.
  \<^item> \<open>Requests\<close>: concurrent calls of the cached resolver, in steps that refine to the sequential one.
  \<^item> \<open>MsgPool\<close>: the pool of DNS messages that handlers, queries and health checks share.
  \<^item> \<open>Program\<close>: the life of the process: PID file, start-up, the periodic saves, what ends it (a
    signal, caught or not and at any time, the listener, a panic in main or in another goroutine), and the
    stages of the shutdown.

  \<^bold>\<open>State, errors, concurrency.\<close> State is passed explicitly, as records of the package variables
  (\<open>world\<close> in \<open>Cache\<close> is the state of the whole server). Errors and panics are values of sum and
  option types; whether a channel or slice of a configured size can be made is asked of an
  \<open>allocator\<close>, which no negative size passes. Counters that wrap are words; numbers the code keeps
  far from their limits
  (times, lengths) are integers. Whatever a call reads from outside, the clock, the network, the
  disk, the order of a map iteration, of finishing goroutines or of their calls on the metrics, is an
  argument. Goroutines that
  share state are step relations, one atomic access per step: the health check
  (\<open>health_step\<close>), the usage counters (\<open>usage_step\<close>), the PID file (\<open>create_step\<close>), the metrics
  goroutine (\<open>batch_step\<close>), the logger (\<open>log_step\<close>), the access tracker (\<open>track_step\<close>), the slice
  pools (\<open>pool_step\<close>), the message pool (\<open>msg_step\<close>), the refreshes (\<open>updater_step\<close>),
  \<open>server_step\<close>, in which a client's call is one step, and \<open>serving_step\<close>, in which each lookup,
  choice, exchange and write of each call is one.

  \<^bold>\<open>Interfaces.\<close> Locales state what one component relies on in another: \<open>memo\<close> for the caches of
  \<open>util\<close>, \<open>client_policy\<close> and \<open>server_source\<close> for the choice of servers, \<open>route_source\<close> for the
  routing table. Each is interpreted on the definitions of the code.

  \<^bold>\<open>What the properties show.\<close>
  The whole server (\<open>Server\<close>, \<open>Requests\<close>, \<open>Program\<close>): which settings let it start; from start-up on, in
  every interleaving, also of the parts of concurrent calls, each request is answered
  without panic, and only configured servers are contacted or those to which a routing table of the
  same run sent a domain; a signal
  leaves the saved cache, no PID file and stopped goroutines; when a PID file stays behind.
  The cache: an answer is resolved once per lifetime, lifetimes follow a one-line specification
  and stay in bounds, keys separate questions, a cached answer was resolved as an answer to the
  question of its key or restored under it, a refresh replaces its entry, and a saved cache, as far
  as its records can be read from their texts, is restored after a restart and
  answers the first requests of the new process.
  Choice of servers: the policy for public-only clients, the order of the attempts, routed
  domains, the health check refines a sequential loop.
  Configuration and parsers: the loaded record is a function of the environment and validated;
  addresses, rules and lists agree with declarative specifications.
  Background goroutines: no metric update and no log message is lost or applied twice; no usage is
  lost; accesses to a tracked key are all counted, first accesses may be lost; what a shutdown
  drains and what it drops; every call on Prometheus fits the metric it names.
  Several lemmas state behaviour that is hardly intended, such as a flush that misses a
  message or a NULL record that crashes the second save; each is described in the text before it.

  \<^bold>\<open>Bounds and termination.\<close> No definition uses fuel. The loop of the cache loader recurses on
  an index with a measure; the health check has a proof that every schedule ends after a fixed
  number of steps, the PID file and the cached resolver that the steps of one process or call, alone, end
  as the sequential function does. Floating point values are the rational
  numbers that 64-bit floats hold exactly.

  \<^bold>\<open>Outside the model.\<close> Parameters with documented laws: the third-party cache, the absolute form of
  a name, and JSON, which reads back the ASCII snapshots it has written. Parameters without any law:
  the DNS exchange, the headers that the DNS library makes, memory, and
  which record, if any, it reads from the text of a record: the restart properties are about the
  records it reads back, and a comment, which it reads as a nil record, is a case of the loader.
  Not modelled: the text of log lines, and what the output does with them (the code ignores its
  errors); the page of metrics, listening and profiling, which belong to
  libraries; patterns of the HTTP mux with a method, a host, a wildcard or an escape; how long the shutdown
  waits (whether it waits long enough is an argument); and the pools of builders and clients,
  whose objects are reset before use. For the slice pools \<open>Pools\<close> proves that what is stored is not
  shared, and the other theories treat slices as values.
\<close>

end
